(* ===== verification/Prelude.thy ===== *)
theory Prelude
  imports Complex_Main "HOL-Library.AList" "HOL-Library.List_Lexorder"
    "HOL-Library.Product_Lexorder"
begin

text \<open>
  The vocabulary every theory of the development shares.

  \<^item> Python text: a \<open>str\<close> is the list of its code points, so that no character of the
    program's data is out of reach (a HOL \<^typ>\<open>char\<close> is a byte); literals are written
    \<open>lit ''GET''\<close>. With \<open>HOL-Library.List_Lexorder\<close> such lists are ordered as
    Python orders strings, and with \<open>Product_Lexorder\<close> pairs are ordered as its tuples.
  \<^item> Python dictionaries: an association list with distinct keys in insertion order,
    \<open>AList.update\<close> for \<open>d[k] = v\<close> (in place when the key exists, at the end when it
    does not) and \<open>AList.delete\<close> for \<open>d.pop(k, None)\<close>.
  \<^item> Python sets of strings: a list without duplicates that stands for the set; only
    membership, \<open>List.insert\<close> and \<open>removeAll\<close> are used on it.
  \<^item> Python integers are \<^typ>\<open>int\<close>; clock readings and deadlines (floats in the code)
    are exact rationals, so rounding is not modelled.
  \<^item> Python exceptions: values of \<open>py_exn\<close> on the left of a sum.
\<close>

section \<open>Python values\<close>

type_synonym pystr = "nat list"

definition lit :: "string \<Rightarrow> pystr" where
  "lit s = map of_char s"

lemma lit_Nil [simp]: "lit [] = []"
  by (simp add: lit_def)

lemma lit_Cons [simp]: "lit (c # s) = of_char c # lit s"
  by (simp add: lit_def)

text \<open>
  The exceptions of the language and its library that the modelled code can raise. The
  program's own exceptions (src/src/errors.py) are a datatype of their own.
\<close>

datatype py_exn = ValueError | UnicodeEncodeError | OverflowError | KeyError | IndexError | ZeroDivisionError
  | RuntimeError pystr | OSError pystr

text \<open>
  \<open>int(x)\<close> of a float truncates towards zero, unlike \<open>math.floor\<close>.
\<close>

definition py_trunc :: "rat \<Rightarrow> int" where
  "py_trunc x = (if 0 \<le> x then \<lfloor>x\<rfloor> else \<lceil>x\<rceil>)"

lemma py_trunc_neg_iff: "py_trunc x < 0 \<longleftrightarrow> x \<le> - 1"
  by (auto simp: py_trunc_def)

lemma py_trunc_nonneg: "0 \<le> x \<Longrightarrow> py_trunc x = \<lfloor>x\<rfloor>"
  by (simp add: py_trunc_def)

text \<open>
  Adding an \<open>int\<close> to a float first converts it, and the conversion raises
  \<open>OverflowError\<close> from the first integer that rounds beyond the largest double.
\<close>

definition float_int_limit :: int where
  "float_int_limit = 2 ^ 1024 - 2 ^ 970"

definition py_float_of_int :: "int \<Rightarrow> py_exn + rat" where
  "py_float_of_int n =
     (if \<bar>n\<bar> < float_int_limit then Inr (of_int n) else Inl OverflowError)"

text \<open>The same bound decides when a result of float arithmetic is an infinity.\<close>

definition float_overflows :: "rat \<Rightarrow> bool" where
  "float_overflows x \<longleftrightarrow> of_int float_int_limit \<le> \<bar>x\<bar>"

lemma float_int_limit_pos [simp]: "0 < float_int_limit"
  by (simp add: float_int_limit_def)

lemma small_fits_float: "\<bar>n\<bar> \<le> 10 ^ 300 \<Longrightarrow> \<bar>n\<bar> < float_int_limit"
  by (simp add: float_int_limit_def)

lemma float_overflows_0 [simp]: "\<not> float_overflows 0"
  by (simp add: float_overflows_def not_le)

lemma float_overflows_mono: "float_overflows x \<Longrightarrow> \<bar>x\<bar> \<le> \<bar>y\<bar> \<Longrightarrow> float_overflows y"
  by (simp add: float_overflows_def)

section \<open>Dictionaries\<close>

text \<open>
  \<open>dict_simps\<close> collects what the component proofs use about association lists as
  dictionaries; \<open>dict_ok\<close> is the one invariant they need.
\<close>

named_theorems dict_simps \<open>lookup, keys and lengths of dictionaries\<close>

abbreviation dict_ok :: "('k \<times> 'v) list \<Rightarrow> bool" where
  "dict_ok d \<equiv> distinct (map fst d)"

lemma dict_ok_update [simp, intro]: "dict_ok d \<Longrightarrow> dict_ok (AList.update k v d)"
  by (rule AList.distinct_update)

lemma dict_ok_delete [simp, intro]: "dict_ok d \<Longrightarrow> dict_ok (AList.delete k d)"
  by (rule AList.distinct_delete)

lemma dict_ok_filter [simp, intro]: "dict_ok d \<Longrightarrow> dict_ok (filter P d)"
  by (rule distinct_map_filter)

declare AList.update_conv' [dict_simps] AList.delete_conv' [dict_simps]

lemma map_of_filter_key [dict_simps]:
  "dict_ok d \<Longrightarrow>
     map_of (filter P d) k =
       (case map_of d k of None \<Rightarrow> None | Some v \<Rightarrow> if P (k, v) then Some v else None)"
  by (induction d) (auto split: option.splits simp: map_of_eq_None_iff rev_image_eqI)

text \<open>
  Lookups stay lookups: membership of a pair is rewritten to \<open>map_of\<close>, not back.
\<close>

lemma mem_dict_iff [dict_simps]: "dict_ok d \<Longrightarrow> (k, v) \<in> set d \<longleftrightarrow> map_of d k = Some v"
  by (simp add: map_of_eq_Some_iff)

declare map_of_eq_Some_iff [simp del] Some_eq_map_of_iff [simp del] map_of_is_SomeI [simp del]

lemma key_in_dict_iff: "k \<in> fst ` set d \<longleftrightarrow> (\<exists>v. map_of d k = Some v)"
  by (metis map_of_eq_None_iff not_None_eq)

lemma delete_absent [dict_simps]: "map_of d k = None \<Longrightarrow> AList.delete k d = d"
  by (simp add: AList.delete_idem map_of_eq_None_iff)

lemma update_absent: "map_of d k = None \<Longrightarrow> AList.update k v d = d @ [(k, v)]"
  by (induction d) (auto split: if_splits)

lemma length_update_present: "map_of d k \<noteq> None \<Longrightarrow> length (AList.update k v d) = length d"
  by (induction d) (auto split: if_splits)

lemma length_update_absent: "map_of d k = None \<Longrightarrow> length (AList.update k v d) = Suc (length d)"
  by (simp add: update_absent)

lemma length_delete_present:
  "dict_ok d \<Longrightarrow> map_of d k = Some v \<Longrightarrow> Suc (length (AList.delete k d)) = length d"
proof (induction d)
  case Nil
  then show ?case by simp
next
  case (Cons p d)
  show ?case
  proof (cases "fst p = k")
    case True
    with Cons.prems have "map_of d k = None"
      by (simp add: map_of_eq_None_iff)
    then have "AList.delete k d = d" by (rule delete_absent)
    with True show ?thesis by (cases p) simp
  next
    case False
    with Cons show ?thesis by (cases p) auto
  qed
qed

lemma set_update_subset: "set (AList.update k v d) \<subseteq> insert (k, v) (set d)"
  by (induction d) auto

lemma dict_all_update:
  "\<forall>x \<in> set d. P x \<Longrightarrow> P (k, v) \<Longrightarrow> \<forall>x \<in> set (AList.update k v d). P x"
  using set_update_subset [of k v d] by auto

lemma keys_update_present: "map_of d k = Some v0 \<Longrightarrow> map fst (AList.update k v d) = map fst d"
  by (induction d) (auto split: if_splits)

section \<open>Folds over loops\<close>

text \<open>
  A \<open>for\<close> loop over a list is a \<open>fold\<close>. Its invariant is an induction whose step may
  use that the element is one of the list's.
\<close>

lemma fold_invariant_mem:
  assumes "P s" and "\<And>x s. x \<in> set xs \<Longrightarrow> P s \<Longrightarrow> P (f x s)"
  shows "P (fold f xs s)"
  using assms by (induction xs arbitrary: s) auto

text \<open>Steps that keep an invariant and lower a measure cannot go on for ever.\<close>

lemma no_infinite_run:
  fixes m :: "'a \<Rightarrow> nat"
  assumes step: "\<And>x y. R x y \<Longrightarrow> I x \<Longrightarrow> I y \<and> m y < m x" and "I x"
  shows "\<nexists>f. f 0 = x \<and> (\<forall>i. R (f i) (f (Suc i)))"
proof
  assume "\<exists>f. f 0 = x \<and> (\<forall>i. R (f i) (f (Suc i)))"
  then obtain f where f: "f 0 = x" "\<And>i. R (f i) (f (Suc i))" by blast
  have "I (f i) \<and> m (f i) + i \<le> m x" for i
  proof (induction i)
    case (Suc i)
    then show ?case using step [OF f(2)] by fastforce
  qed (simp add: f \<open>I x\<close>)
  from this [of "Suc (m x)"] show False by simp
qed

end
