(* ===== verification/Timing_Wheel.thy ===== *)
theory Timing_Wheel
  imports Prelude
begin

text \<open>
  The expiration scheduler of src/src/timing_wheel.py, the contract its client (the store)
  relies on as a locale, and that contract discharged for the wheel.

  The state is the \<open>TimingWheel\<close> object: the ring of buckets, the entry of each scheduled
  key, the last tick whose bucket was drained and the timestamp of tick 0 (fixed by the first
  timestamp the wheel sees). The bucket array is a list indexed by tick modulo its length,
  each bucket a duplicate-free list standing for a set of keys.
\<close>

section \<open>State and operations\<close>

record ScheduledEntry =
  entry_key :: pystr
  entry_expires_at :: rat
  scheduled_tick :: int

record TimerEntry =
  timer_key :: pystr
  timer_expires_at :: rat

record TimingWheel =
  tick_seconds :: rat
  bucket_count :: int
  buckets :: "pystr list list"
  entries_by_key :: "(pystr \<times> ScheduledEntry) list"
  last_processed_tick :: int
  origin_timestamp :: "rat option"

definition TimingWheel_init :: "rat \<Rightarrow> int \<Rightarrow> py_exn + TimingWheel" where
  "TimingWheel_init tick n =
     (if tick \<le> 0 then Inl ValueError
      else if n \<le> 0 then Inl ValueError
      else Inr \<lparr>tick_seconds = tick, bucket_count = n, buckets = replicate (nat n) [],
             entries_by_key = [], last_processed_tick = -1, origin_timestamp = None\<rparr>)"

text \<open>\<open>TimingWheel()\<close> with its default arguments.\<close>

definition default_wheel :: TimingWheel where
  "default_wheel = \<lparr>tick_seconds = 1 / 10, bucket_count = 512, buckets = replicate 512 [],
     entries_by_key = [], last_processed_tick = -1, origin_timestamp = None\<rparr>"

text \<open>
  The index of a tick's bucket, the bucket itself, and adding to or discarding from it.
  \<open>mod\<close> on \<^typ>\<open>int\<close> is Python's \<open>%\<close>, nonnegative for a positive modulus.
\<close>

definition bucket_index :: "TimingWheel \<Rightarrow> int \<Rightarrow> nat" where
  "bucket_index w tick = nat (tick mod bucket_count w)"

definition bucket_for_tick :: "TimingWheel \<Rightarrow> int \<Rightarrow> pystr list" where
  "bucket_for_tick w tick = buckets w ! bucket_index w tick"

definition bucket_add :: "int \<Rightarrow> pystr \<Rightarrow> TimingWheel \<Rightarrow> TimingWheel" where
  "bucket_add tick key w =
     w\<lparr>buckets := (buckets w)[bucket_index w tick := List.insert key (bucket_for_tick w tick)]\<rparr>"

definition bucket_discard :: "int \<Rightarrow> pystr \<Rightarrow> TimingWheel \<Rightarrow> TimingWheel" where
  "bucket_discard tick key w =
     w\<lparr>buckets := (buckets w)[bucket_index w tick := removeAll key (bucket_for_tick w tick)]\<rparr>"

text \<open>
  The number of the tick a timestamp falls into, as an exact quotient, and the method
  \<open>_tick_for_timestamp\<close>, which computes it in floating point. There a difference or a quotient
  beyond the largest double is an infinity, and \<open>math.floor\<close> of an infinity raises
  \<open>OverflowError\<close>; the first timestamp the wheel sees has become its origin by then. Below that
  bound the model's quotients are exact where the code's are rounded.
\<close>

definition tick_number :: "rat \<Rightarrow> TimingWheel \<Rightarrow> int \<times> TimingWheel" where
  "tick_number timestamp w =
     (let w1 = (if origin_timestamp w = None then w\<lparr>origin_timestamp := Some timestamp\<rparr> else w)
      in (\<lfloor>(timestamp - the (origin_timestamp w1)) / tick_seconds w1\<rfloor>, w1))"

definition tick_for_timestamp :: "rat \<Rightarrow> TimingWheel \<Rightarrow> (py_exn + int) \<times> TimingWheel" where
  "tick_for_timestamp timestamp w =
     (let (tick, w1) = tick_number timestamp w;
          elapsed = timestamp - the (origin_timestamp w1)
      in if float_overflows elapsed \<or> float_overflows (elapsed / tick_seconds w1)
         then (Inl OverflowError, w1) else (Inr tick, w1))"

definition cancel :: "pystr \<Rightarrow> TimingWheel \<Rightarrow> TimingWheel" where
  "cancel key w =
     (case map_of (entries_by_key w) key of
        None \<Rightarrow> w
      | Some entry \<Rightarrow>
          bucket_discard (scheduled_tick entry) key
            (w\<lparr>entries_by_key := AList.delete key (entries_by_key w)\<rparr>))"

text \<open>
  The body of the loop that re-inserts the old entries after a change of origin. An entry of the
  wheel has a tick already, and a change of origin moves it by the step the clock has made: the
  doubles of a size where that could matter for the overflow are so far apart that the step is
  lost in the rounding. So re-inserting takes the exact tick.
\<close>

definition reinsert_entry :: "ScheduledEntry \<Rightarrow> TimingWheel \<Rightarrow> TimingWheel" where
  "reinsert_entry entry w =
     (let (tick, w1) = tick_number (entry_expires_at entry) w;
          updated = \<lparr>entry_key = entry_key entry, entry_expires_at = entry_expires_at entry,
                     scheduled_tick = tick\<rparr>
      in bucket_add tick (entry_key entry)
           (w1\<lparr>entries_by_key := AList.update (entry_key entry) updated (entries_by_key w1)\<rparr>))"

definition rebase_origin :: "rat \<Rightarrow> TimingWheel \<Rightarrow> TimingWheel" where
  "rebase_origin new_origin w =
     (let old_entries = map snd (entries_by_key w);
          old_last = last_processed_tick w;
          w1 = w\<lparr>origin_timestamp := Some new_origin,
                 buckets := replicate (nat (bucket_count w)) [], entries_by_key := []\<rparr>;
          w2 = (if old_last < 0 then w1\<lparr>last_processed_tick := -1\<rparr>
                else let (tick, w') = tick_number
                           (new_origin + of_int old_last * tick_seconds w1) w1
                     in w'\<lparr>last_processed_tick := tick\<rparr>)
      in fold reinsert_entry old_entries w2)"

definition schedule :: "pystr \<Rightarrow> rat \<Rightarrow> TimingWheel \<Rightarrow> (py_exn + unit) \<times> TimingWheel" where
  "schedule key expires_at w =
     (let w1 = (case origin_timestamp w of
                  Some o1 \<Rightarrow> if expires_at < o1 then rebase_origin expires_at w else w
                | None \<Rightarrow> w)
      in case tick_for_timestamp expires_at w1 of
           (Inl exn, w2) \<Rightarrow> (Inl exn, w2)
         | (Inr tick, w2) \<Rightarrow>
             let w3 = cancel key w2;
                 entry = \<lparr>entry_key = key, entry_expires_at = expires_at, scheduled_tick = tick\<rparr>
             in (Inr (), bucket_add tick key
                  (w3\<lparr>entries_by_key := AList.update key entry (entries_by_key w3)\<rparr>)))"

text \<open>
  \<open>pop_due\<close>: the inner loop over the keys found in one bucket, the loop over the ticks since
  the last call, and the final sort by deadline. The reading \<open>now\<close> of the clock is taken to be one
  whose tick does not overflow, as every reading of \<open>time.time\<close> is: \<open>tick_in_range\<close> below proves
  it for the readings within 2^1000 seconds of the epoch, and \<open>origin_in_range\<close> that the origin
  stays among them.
\<close>

definition visit_key ::
    "rat \<Rightarrow> int \<Rightarrow> pystr \<Rightarrow> TimingWheel \<times> TimerEntry list \<Rightarrow> TimingWheel \<times> TimerEntry list" where
  "visit_key now tick key = (\<lambda>(w, due).
     case map_of (entries_by_key w) key of
       None \<Rightarrow> (bucket_discard tick key w, due)
     | Some entry \<Rightarrow>
         if scheduled_tick entry > tick then (w, due)
         else let w1 = bucket_discard tick key w in
           if entry_expires_at entry \<le> now then
             (w1\<lparr>entries_by_key := AList.delete key (entries_by_key w1)\<rparr>,
              due @ [\<lparr>timer_key = entry_key entry, timer_expires_at = entry_expires_at entry\<rparr>])
           else (bucket_add (scheduled_tick entry) key w1, due))"

definition visit_tick ::
    "rat \<Rightarrow> int \<Rightarrow> TimingWheel \<times> TimerEntry list \<Rightarrow> TimingWheel \<times> TimerEntry list" where
  "visit_tick now tick = (\<lambda>(w, due). fold (visit_key now tick) (bucket_for_tick w tick) (w, due))"

definition pop_due :: "rat \<Rightarrow> TimingWheel \<Rightarrow> TimerEntry list \<times> TimingWheel" where
  "pop_due now w =
     (let (current_tick, w1) = tick_number now w in
      if current_tick \<le> last_processed_tick w1 then ([], w1)
      else let (w2, due) = fold (visit_tick now) [last_processed_tick w1 + 1 .. current_tick] (w1, [])
           in (sort_key timer_expires_at due, w2\<lparr>last_processed_tick := current_tick\<rparr>))"

section \<open>The representation invariant\<close>

text \<open>
  The entries agree with the origin, and the buckets hold exactly the scheduled keys, each in
  the bucket of its tick.
\<close>

definition wheel_shape :: "TimingWheel \<Rightarrow> bool" where
  "wheel_shape w \<longleftrightarrow> 0 < tick_seconds w \<and> 0 < bucket_count w \<and>
     length (buckets w) = nat (bucket_count w)"

definition entry_ok :: "TimingWheel \<Rightarrow> pystr \<Rightarrow> ScheduledEntry \<Rightarrow> bool" where
  "entry_ok w k e \<longleftrightarrow> entry_key e = k \<and>
     (\<exists>t0. origin_timestamp w = Some t0 \<and>
        scheduled_tick e = \<lfloor>(entry_expires_at e - t0) / tick_seconds w\<rfloor>)"

definition entries_ok :: "TimingWheel \<Rightarrow> bool" where
  "entries_ok w \<longleftrightarrow> dict_ok (entries_by_key w) \<and>
     (\<forall>k e. map_of (entries_by_key w) k = Some e \<longrightarrow> entry_ok w k e)"

lemma entries_okI:
  assumes "dict_ok (entries_by_key w)"
    and "\<And>k e. map_of (entries_by_key w) k = Some e \<Longrightarrow> entry_ok w k e"
  shows "entries_ok w"
  using assms by (simp add: entries_ok_def)

lemma entries_okD:
  assumes "entries_ok w"
  shows "dict_ok (entries_by_key w)"
    and "map_of (entries_by_key w) k = Some e \<Longrightarrow> entry_ok w k e"
  using assms by (simp_all add: entries_ok_def)

definition in_bucket :: "TimingWheel \<Rightarrow> nat \<Rightarrow> pystr \<Rightarrow> bool" where
  "in_bucket w i k \<longleftrightarrow>
     (\<exists>e. map_of (entries_by_key w) k = Some e \<and> bucket_index w (scheduled_tick e) = i)"

definition buckets_ok :: "TimingWheel \<Rightarrow> bool" where
  "buckets_ok w \<longleftrightarrow>
     (\<forall>i < length (buckets w). distinct (buckets w ! i) \<and>
        (\<forall>k. k \<in> set (buckets w ! i) \<longleftrightarrow> in_bucket w i k))"

lemma buckets_okI:
  assumes "\<And>i. i < length (buckets w) \<Longrightarrow> distinct (buckets w ! i)"
    and "\<And>i k. i < length (buckets w) \<Longrightarrow> k \<in> set (buckets w ! i) \<longleftrightarrow> in_bucket w i k"
  shows "buckets_ok w"
  using assms by (simp add: buckets_ok_def)

lemma buckets_okD:
  assumes "buckets_ok w" and "i < length (buckets w)"
  shows "distinct (buckets w ! i)" and "k \<in> set (buckets w ! i) \<longleftrightarrow> in_bucket w i k"
  using assms by (simp_all add: buckets_ok_def)

definition wheel_inv :: "TimingWheel \<Rightarrow> bool" where
  "wheel_inv w \<longleftrightarrow> wheel_shape w \<and> entries_ok w \<and> buckets_ok w"

definition deadline :: "TimingWheel \<Rightarrow> pystr \<Rightarrow> rat option" where
  "deadline w k = map_option entry_expires_at (map_of (entries_by_key w) k)"

text \<open>Field-by-field equations of the bucket operations: the simp set of this theory.\<close>

named_theorems wheel_simps \<open>field equations of the wheel operations\<close>

lemma bucket_index_cong [wheel_simps]:
  "bucket_index (w\<lparr>entries_by_key := es\<rparr>) t = bucket_index w t"
  "bucket_index (w\<lparr>buckets := bs\<rparr>) t = bucket_index w t"
  "bucket_index (w\<lparr>last_processed_tick := l\<rparr>) t = bucket_index w t"
  "bucket_index (w\<lparr>origin_timestamp := o1\<rparr>) t = bucket_index w t"
  by (simp_all add: bucket_index_def)

lemma bucket_add_fields [simp]:
  "tick_seconds (bucket_add t k w) = tick_seconds w"
  "bucket_count (bucket_add t k w) = bucket_count w"
  "entries_by_key (bucket_add t k w) = entries_by_key w"
  "last_processed_tick (bucket_add t k w) = last_processed_tick w"
  "origin_timestamp (bucket_add t k w) = origin_timestamp w"
  "length (buckets (bucket_add t k w)) = length (buckets w)"
  "bucket_index (bucket_add t k w) t' = bucket_index w t'"
  by (simp_all add: bucket_add_def bucket_index_def)

lemma bucket_discard_fields [simp]:
  "tick_seconds (bucket_discard t k w) = tick_seconds w"
  "bucket_count (bucket_discard t k w) = bucket_count w"
  "entries_by_key (bucket_discard t k w) = entries_by_key w"
  "last_processed_tick (bucket_discard t k w) = last_processed_tick w"
  "origin_timestamp (bucket_discard t k w) = origin_timestamp w"
  "length (buckets (bucket_discard t k w)) = length (buckets w)"
  "bucket_index (bucket_discard t k w) t' = bucket_index w t'"
  by (simp_all add: bucket_discard_def bucket_index_def)

lemma bucket_index_less: "wheel_shape w \<Longrightarrow> bucket_index w t < length (buckets w)"
  by (simp add: wheel_shape_def bucket_index_def nat_mono_iff)

lemma buckets_bucket_add:
  "wheel_shape w \<Longrightarrow> buckets (bucket_add t k w) ! i =
     (if i = bucket_index w t then List.insert k (buckets w ! i) else buckets w ! i)"
  using bucket_index_less [of w t]
  by (auto simp: bucket_add_def bucket_for_tick_def nth_list_update)

lemma buckets_bucket_discard:
  "wheel_shape w \<Longrightarrow> buckets (bucket_discard t k w) ! i =
     (if i = bucket_index w t then removeAll k (buckets w ! i) else buckets w ! i)"
  using bucket_index_less [of w t]
  by (auto simp: bucket_discard_def bucket_for_tick_def nth_list_update)

lemma wheel_shape_bucket_ops [simp]:
  "wheel_shape (bucket_add t k w) = wheel_shape w"
  "wheel_shape (bucket_discard t k w) = wheel_shape w"
  by (simp_all add: wheel_shape_def)

lemma wheel_shape_cong [wheel_simps]:
  "wheel_shape (w\<lparr>entries_by_key := es\<rparr>) = wheel_shape w"
  "wheel_shape (w\<lparr>last_processed_tick := l\<rparr>) = wheel_shape w"
  "wheel_shape (w\<lparr>origin_timestamp := o1\<rparr>) = wheel_shape w"
  by (simp_all add: wheel_shape_def)

lemma tick_number_Some [wheel_simps]:
  "origin_timestamp w = Some t0 \<Longrightarrow>
     tick_number t w = (\<lfloor>(t - t0) / tick_seconds w\<rfloor>, w)"
  by (simp add: tick_number_def)

lemma tick_number_None [wheel_simps]:
  "origin_timestamp w = None \<Longrightarrow>
     tick_number t w = (0, w\<lparr>origin_timestamp := Some t\<rparr>)"
  by (simp add: tick_number_def Let_def)

lemma entry_ok_cong [wheel_simps]:
  "entry_ok (w\<lparr>entries_by_key := es\<rparr>) k e = entry_ok w k e"
  "entry_ok (w\<lparr>last_processed_tick := l\<rparr>) k e = entry_ok w k e"
  "entry_ok (bucket_add t k' w) k e = entry_ok w k e"
  "entry_ok (bucket_discard t k' w) k e = entry_ok w k e"
  by (simp_all add: entry_ok_def)

lemma wheel_inv_last [wheel_simps]:
  "wheel_inv (w\<lparr>last_processed_tick := l\<rparr>) = wheel_inv w"
  by (simp add: wheel_inv_def entries_ok_def buckets_ok_def in_bucket_def wheel_simps)

lemma entries_ok_bucket_ops [simp]:
  "entries_ok (bucket_add t k w) = entries_ok w"
  "entries_ok (bucket_discard t k w) = entries_ok w"
  by (simp_all add: entries_ok_def wheel_simps)

lemma entries_empty_origin:
  assumes "wheel_inv w" and "origin_timestamp w = None"
  shows "entries_by_key w = []"
proof -
  from assms have "map_of (entries_by_key w) k = None" for k
    by (cases "map_of (entries_by_key w) k") (auto simp: wheel_inv_def entry_ok_def dest: entries_okD(2))
  then have "map_of (entries_by_key w) = Map.empty" by (intro ext)
  then show ?thesis by simp
qed

lemma wheel_inv_entry:
  "wheel_inv w \<Longrightarrow> map_of (entries_by_key w) k = Some e \<Longrightarrow> entry_ok w k e"
  by (simp add: wheel_inv_def entries_okD(2))

lemma wheel_inv_dict: "wheel_inv w \<Longrightarrow> dict_ok (entries_by_key w)"
  by (simp add: wheel_inv_def entries_okD(1))

lemma wheel_inv_set_origin:
  assumes "wheel_inv w" and "origin_timestamp w = None"
  shows "wheel_inv (w\<lparr>origin_timestamp := Some t\<rparr>)"
proof -
  have "entries_by_key w = []" using assms by (rule entries_empty_origin)
  with assms(1) show ?thesis
    unfolding wheel_inv_def entries_ok_def buckets_ok_def in_bucket_def
    by (simp add: wheel_shape_cong)
qed

lemma wheel_inv_tick:
  "wheel_inv w \<Longrightarrow> tick_number t w = (k, w1) \<Longrightarrow>
     wheel_inv w1 \<and> entries_by_key w1 = entries_by_key w \<and>
     last_processed_tick w1 = last_processed_tick w \<and>
     tick_seconds w1 = tick_seconds w \<and> bucket_count w1 = bucket_count w \<and>
     (\<exists>t0. origin_timestamp w1 = Some t0 \<and> k = \<lfloor>(t - t0) / tick_seconds w\<rfloor> \<and>
        t0 = (case origin_timestamp w of None \<Rightarrow> t | Some t1 \<Rightarrow> t1))"
  by (cases "origin_timestamp w") (auto simp: wheel_simps wheel_inv_set_origin)

section \<open>Construction, cancelling and scheduling\<close>

lemma TimingWheel_init_inv: "TimingWheel_init t n = Inr w \<Longrightarrow> wheel_inv w \<and> entries_by_key w = []"
  by (auto simp: TimingWheel_init_def wheel_inv_def wheel_shape_def entries_ok_def buckets_ok_def
        in_bucket_def split: if_splits)

lemma default_wheel_init: "TimingWheel_init (1 / 10) 512 = Inr default_wheel"
  by (simp add: TimingWheel_init_def default_wheel_def)

lemma default_wheel_inv [simp]: "wheel_inv default_wheel" "entries_by_key default_wheel = []"
  using TimingWheel_init_inv [OF default_wheel_init] by simp_all

lemma cancel_fields [simp]:
  "tick_seconds (cancel k w) = tick_seconds w"
  "bucket_count (cancel k w) = bucket_count w"
  "last_processed_tick (cancel k w) = last_processed_tick w"
  "origin_timestamp (cancel k w) = origin_timestamp w"
  "entries_by_key (cancel k w) = AList.delete k (entries_by_key w)"
  by (simp_all add: cancel_def dict_simps split: option.splits)

text \<open>Dropping one entry from the map and from its bucket keeps the invariant.\<close>

lemma wheel_inv_drop:
  assumes inv: "wheel_inv w" and e: "map_of (entries_by_key w) k = Some e"
    and t: "bucket_index w t = bucket_index w (scheduled_tick e)"
  shows "wheel_inv (bucket_discard t k (w\<lparr>entries_by_key := AList.delete k (entries_by_key w)\<rparr>))"
proof -
  let ?w = "w\<lparr>entries_by_key := AList.delete k (entries_by_key w)\<rparr>"
  have shape: "wheel_shape ?w" using inv by (simp add: wheel_inv_def wheel_simps)
  have "entries_ok w" using inv by (simp add: wheel_inv_def)
  then have "entries_ok ?w"
    by (intro entries_okI) (auto simp: wheel_simps dict_simps dest: entries_okD split: if_splits)
  have "buckets_ok (bucket_discard t k ?w)"
  proof (rule buckets_okI)
    fix i k' assume "i < length (buckets (bucket_discard t k ?w))"
    then have i: "i < length (buckets w)" by simp
    have ok: "buckets_ok w" using inv by (simp add: wheel_inv_def)
    show "distinct (buckets (bucket_discard t k ?w) ! i)"
      using buckets_okD(1) [OF ok i]
      by (auto simp: buckets_bucket_discard [OF shape] intro: distinct_removeAll)
    show "k' \<in> set (buckets (bucket_discard t k ?w) ! i) \<longleftrightarrow> in_bucket (bucket_discard t k ?w) i k'"
      using buckets_okD(2) [OF ok i, of k'] e t
      by (auto simp: buckets_bucket_discard [OF shape] in_bucket_def wheel_simps dict_simps)
  qed
  then show ?thesis using shape \<open>entries_ok ?w\<close> by (simp add: wheel_inv_def)
qed

lemma wheel_inv_cancel [simp, intro]: "wheel_inv w \<Longrightarrow> wheel_inv (cancel k w)"
  by (auto simp: cancel_def wheel_inv_drop split: option.splits)

lemma deadline_cancel [wheel_simps]: "deadline (cancel k w) = (deadline w)(k := None)"
  by (auto simp: deadline_def dict_simps)

text \<open>Adding an entry for an absent key, with the tick of its deadline.\<close>

lemma wheel_inv_insert:
  assumes inv: "wheel_inv w" and absent: "map_of (entries_by_key w) k = None"
    and "origin_timestamp w = Some t0" and "entry_key e = k"
    and "scheduled_tick e = \<lfloor>(entry_expires_at e - t0) / tick_seconds w\<rfloor>"
  shows "wheel_inv (bucket_add (scheduled_tick e) k
           (w\<lparr>entries_by_key := AList.update k e (entries_by_key w)\<rparr>))"
proof -
  let ?w = "w\<lparr>entries_by_key := AList.update k e (entries_by_key w)\<rparr>"
  have shape: "wheel_shape ?w" using inv by (simp add: wheel_inv_def wheel_simps)
  have "entry_ok w k e" using assms by (simp add: entry_ok_def)
  moreover have "entries_ok w" using inv by (simp add: wheel_inv_def)
  ultimately have "entries_ok ?w"
    by (intro entries_okI) (auto simp: wheel_simps dict_simps dest: entries_okD split: if_splits)
  have "buckets_ok (bucket_add (scheduled_tick e) k ?w)"
  proof (rule buckets_okI)
    fix i k' assume "i < length (buckets (bucket_add (scheduled_tick e) k ?w))"
    then have i: "i < length (buckets w)" by simp
    have ok: "buckets_ok w" using inv by (simp add: wheel_inv_def)
    show "distinct (buckets (bucket_add (scheduled_tick e) k ?w) ! i)"
      using buckets_okD(1) [OF ok i] by (auto simp: buckets_bucket_add [OF shape])
    show "k' \<in> set (buckets (bucket_add (scheduled_tick e) k ?w) ! i) \<longleftrightarrow>
        in_bucket (bucket_add (scheduled_tick e) k ?w) i k'"
      using buckets_okD(2) [OF ok i, of k'] absent
      by (auto simp: buckets_bucket_add [OF shape] in_bucket_def wheel_simps dict_simps)
  qed
  then show ?thesis using shape \<open>entries_ok ?w\<close> by (simp add: wheel_inv_def)
qed

text \<open>Re-inserting the old entries after the origin moved: ticks change, deadlines do not.\<close>

definition retick :: "rat \<Rightarrow> rat \<Rightarrow> ScheduledEntry \<Rightarrow> ScheduledEntry" where
  "retick t0 ts e = e\<lparr>scheduled_tick := \<lfloor>(entry_expires_at e - t0) / ts\<rfloor>\<rparr>"

lemma retick_fields [simp]:
  "entry_key (retick t0 ts e) = entry_key e"
  "entry_expires_at (retick t0 ts e) = entry_expires_at e"
  "scheduled_tick (retick t0 ts e) = \<lfloor>(entry_expires_at e - t0) / ts\<rfloor>"
  by (simp_all add: retick_def)

lemma reinsert_entry_eq:
  assumes "origin_timestamp w = Some t0"
  shows "reinsert_entry e w =
    bucket_add (scheduled_tick (retick t0 (tick_seconds w) e)) (entry_key e)
      (w\<lparr>entries_by_key := AList.update (entry_key e) (retick t0 (tick_seconds w) e) (entries_by_key w)\<rparr>)"
proof -
  have updated: "\<lparr>entry_key = entry_key e, entry_expires_at = entry_expires_at e,
      scheduled_tick = \<lfloor>(entry_expires_at e - t0) / tick_seconds w\<rfloor>\<rparr> = retick t0 (tick_seconds w) e"
    by (simp add: retick_def)
  show ?thesis
    unfolding reinsert_entry_def tick_number_Some [OF assms] Let_def prod.case updated
    by simp
qed

lemma reinsert_entries:
  assumes "wheel_inv w" and "origin_timestamp w = Some t0" and "distinct (map entry_key es)"
    and "\<forall>e \<in> set es. map_of (entries_by_key w) (entry_key e) = None"
  shows "wheel_inv (fold reinsert_entry es w) \<and>
    entries_by_key (fold reinsert_entry es w) =
      entries_by_key w @ map (\<lambda>e. (entry_key e, retick t0 (tick_seconds w) e)) es \<and>
    origin_timestamp (fold reinsert_entry es w) = Some t0 \<and>
    tick_seconds (fold reinsert_entry es w) = tick_seconds w \<and>
    bucket_count (fold reinsert_entry es w) = bucket_count w \<and>
    last_processed_tick (fold reinsert_entry es w) = last_processed_tick w"
  using assms
proof (induction es arbitrary: w)
  case Nil
  then show ?case by simp
next
  case (Cons e es)
  let ?r = "retick t0 (tick_seconds w) e"
  let ?w = "reinsert_entry e w"
  have w: "?w = bucket_add (scheduled_tick ?r) (entry_key e)
      (w\<lparr>entries_by_key := AList.update (entry_key e) ?r (entries_by_key w)\<rparr>)"
    using Cons.prems(2) by (rule reinsert_entry_eq)
  have absent: "map_of (entries_by_key w) (entry_key e) = None" using Cons.prems(4) by simp
  have "wheel_inv ?w"
    unfolding w using Cons.prems(1,2) absent by (intro wheel_inv_insert) simp_all
  moreover have es: "entries_by_key ?w = entries_by_key w @ [(entry_key e, ?r)]"
    using absent by (simp add: w update_absent)
  moreover have "\<forall>x \<in> set es. map_of (entries_by_key ?w) (entry_key x) = None"
    using Cons.prems(3,4) by (auto simp: es map_add_def rev_image_eqI)
  ultimately show ?case
    using Cons.IH [of ?w] Cons.prems(2,3) by (simp add: w)
qed

lemma rebase_origin_props:
  assumes inv: "wheel_inv w"
  shows "wheel_inv (rebase_origin t0 w)"
    and "entries_by_key (rebase_origin t0 w) =
      map (\<lambda>(k, e). (k, retick t0 (tick_seconds w) e)) (entries_by_key w)"
    and "origin_timestamp (rebase_origin t0 w) = Some t0"
    and "tick_seconds (rebase_origin t0 w) = tick_seconds w"
    and "bucket_count (rebase_origin t0 w) = bucket_count w"
    and "last_processed_tick (rebase_origin t0 w) = max (- 1) (last_processed_tick w)"
proof -
  let ?l = "max (- 1) (last_processed_tick w)"
  let ?w = "w\<lparr>origin_timestamp := Some t0, buckets := replicate (nat (bucket_count w)) [],
    entries_by_key := [], last_processed_tick := ?l\<rparr>"
  let ?es = "map snd (entries_by_key w)"
  have ts: "0 < tick_seconds w" and ok: "entries_ok w"
    using inv by (simp_all add: wheel_inv_def wheel_shape_def)
  have key: "entry_key e = k" if "(k, e) \<in> set (entries_by_key w)" for k e
  proof -
    from that have "map_of (entries_by_key w) k = Some e"
      using entries_okD(1) [OF ok] by (simp add: mem_dict_iff)
    then show ?thesis using entries_okD(2) [OF ok] by (simp add: entry_ok_def)
  qed
  then have "map entry_key ?es = map fst (entries_by_key w)"
    and ticks:
      "map (\<lambda>e. (entry_key e, retick t0 (tick_seconds w) e)) ?es =
       map (\<lambda>(k, e). (k, retick t0 (tick_seconds w) e)) (entries_by_key w)"
    by auto
  with entries_okD(1) [OF ok] have keys: "distinct (map entry_key ?es)" by (simp only:)
  have "wheel_inv ?w"
    using inv by (auto simp: wheel_inv_def wheel_shape_def entries_ok_def buckets_ok_def in_bucket_def)
  then have R: "wheel_inv (fold reinsert_entry ?es ?w) \<and>
      entries_by_key (fold reinsert_entry ?es ?w) =
        map (\<lambda>(k, e). (k, retick t0 (tick_seconds w) e)) (entries_by_key w) \<and>
      origin_timestamp (fold reinsert_entry ?es ?w) = Some t0 \<and>
      tick_seconds (fold reinsert_entry ?es ?w) = tick_seconds w \<and>
      bucket_count (fold reinsert_entry ?es ?w) = bucket_count w \<and>
      last_processed_tick (fold reinsert_entry ?es ?w) = ?l"
    using reinsert_entries [of ?w t0 ?es] keys by (simp add: ticks [symmetric])
  have eq: "rebase_origin t0 w = fold reinsert_entry ?es ?w"
    using ts by (simp add: rebase_origin_def tick_number_Some Let_def)
  show "wheel_inv (rebase_origin t0 w)"
    and "entries_by_key (rebase_origin t0 w) =
      map (\<lambda>(k, e). (k, retick t0 (tick_seconds w) e)) (entries_by_key w)"
    and "origin_timestamp (rebase_origin t0 w) = Some t0"
    and "tick_seconds (rebase_origin t0 w) = tick_seconds w"
    and "bucket_count (rebase_origin t0 w) = bucket_count w"
    and "last_processed_tick (rebase_origin t0 w) = ?l"
    unfolding eq using R by blast+
qed

lemma deadline_rebase [wheel_simps]:
  "wheel_inv w \<Longrightarrow> deadline (rebase_origin t0 w) = deadline w"
  by (rule ext) (simp add: deadline_def rebase_origin_props map_of_map option.map_comp comp_def)

text \<open>
  \<open>schedule\<close> when its deadline has a tick, and the deadlines that have none: too far from the
  wheel's origin. An earlier deadline than the origin becomes the origin and so has a tick.
\<close>

definition scheduled :: "pystr \<Rightarrow> rat \<Rightarrow> TimingWheel \<Rightarrow> TimingWheel" where
  "scheduled key expires_at w =
     (let w1 = (case origin_timestamp w of
                  Some o1 \<Rightarrow> if expires_at < o1 then rebase_origin expires_at w else w
                | None \<Rightarrow> w);
          (tick, w2) = tick_number expires_at w1;
          w3 = cancel key w2;
          entry = \<lparr>entry_key = key, entry_expires_at = expires_at, scheduled_tick = tick\<rparr>
      in bucket_add tick key
           (w3\<lparr>entries_by_key := AList.update key entry (entries_by_key w3)\<rparr>))"

definition too_far :: "TimingWheel \<Rightarrow> rat \<Rightarrow> bool" where
  "too_far w t \<longleftrightarrow> (case origin_timestamp w of
       None \<Rightarrow> False
     | Some t0 \<Rightarrow> t0 \<le> t \<and> (float_overflows (t - t0) \<or> float_overflows ((t - t0) / tick_seconds w)))"

text \<open>The wheel \<open>schedule\<close> works on after a possible change of origin and the tick lookup.\<close>

definition schedule_base :: "rat \<Rightarrow> TimingWheel \<Rightarrow> TimingWheel" where
  "schedule_base expires_at w =
     (let w1 = (case origin_timestamp w of
                  Some o1 \<Rightarrow> if expires_at < o1 then rebase_origin expires_at w else w
                | None \<Rightarrow> w)
      in snd (tick_number expires_at w1))"

lemma schedule_base_eq:
  assumes "wheel_inv w"
  shows "schedule_base t w =
    (case origin_timestamp w of
       None \<Rightarrow> w\<lparr>origin_timestamp := Some t\<rparr>
     | Some t1 \<Rightarrow> if t < t1 then rebase_origin t w else w)"
  by (simp add: schedule_base_def tick_number_None tick_number_Some
        rebase_origin_props(3) [OF assms] split: option.split)

lemma schedule_base_props:
  assumes inv: "wheel_inv w"
  shows "wheel_inv (schedule_base t w)" and "deadline (schedule_base t w) = deadline w"
    and "tick_seconds (schedule_base t w) = tick_seconds w"
    and "bucket_count (schedule_base t w) = bucket_count w"
    and "- 1 \<le> last_processed_tick w \<Longrightarrow>
      last_processed_tick (schedule_base t w) = last_processed_tick w"
    and "\<exists>t0. origin_timestamp (schedule_base t w) = Some t0 \<and> t0 \<le> t \<and>
      (\<forall>t1. origin_timestamp w = Some t1 \<longrightarrow> t0 \<le> t1)"
proof -
  note eq = schedule_base_eq [OF inv, of t] and re = rebase_origin_props [OF inv, of t]
  show "wheel_inv (schedule_base t w)"
    using inv re(1) wheel_inv_set_origin [OF inv] by (simp add: eq split: option.split)
  show "deadline (schedule_base t w) = deadline w"
    using deadline_rebase [OF inv] by (simp add: eq deadline_def fun_eq_iff split: option.split)
  show "tick_seconds (schedule_base t w) = tick_seconds w"
    using re(4) by (simp add: eq split: option.split)
  show "bucket_count (schedule_base t w) = bucket_count w"
    using re(5) by (simp add: eq split: option.split)
  show "last_processed_tick (schedule_base t w) = last_processed_tick w"
    if "- 1 \<le> last_processed_tick w"
    using that re(6) by (simp add: eq split: option.split)
  show "\<exists>t0. origin_timestamp (schedule_base t w) = Some t0 \<and> t0 \<le> t \<and>
      (\<forall>t1. origin_timestamp w = Some t1 \<longrightarrow> t0 \<le> t1)"
    using re(3) by (simp add: eq split: option.split)
qed

lemma schedule_eq:
  assumes inv: "wheel_inv w"
  shows "\<exists>e. scheduled k t w = bucket_add (scheduled_tick e) k
      ((cancel k (schedule_base t w))\<lparr>entries_by_key :=
         AList.update k e (entries_by_key (cancel k (schedule_base t w)))\<rparr>) \<and>
    entry_key e = k \<and> entry_expires_at e = t \<and>
    entry_ok (schedule_base t w) k e"
proof -
  obtain t0 where t0: "origin_timestamp (schedule_base t w) = Some t0"
    using schedule_base_props(6) [OF inv] by blast
  let ?e = "\<lparr>entry_key = k, entry_expires_at = t,
    scheduled_tick = \<lfloor>(t - t0) / tick_seconds (schedule_base t w)\<rfloor>\<rparr>"
  have tick: "tick_number t w' = (\<lfloor>(t - t0) / tick_seconds (snd (tick_number t w'))\<rfloor>,
      snd (tick_number t w'))"
    if "origin_timestamp (snd (tick_number t w')) = Some t0" for w'
    using that by (cases "origin_timestamp w'") (simp_all add: wheel_simps)
  have "scheduled k t w = bucket_add (scheduled_tick ?e) k
      ((cancel k (schedule_base t w))\<lparr>entries_by_key :=
         AList.update k ?e (entries_by_key (cancel k (schedule_base t w)))\<rparr>)"
    using t0 unfolding scheduled_def schedule_base_def Let_def
    by (subst tick) simp_all
  moreover have "entry_ok (schedule_base t w) k ?e"
    using t0 by (simp add: entry_ok_def)
  ultimately show ?thesis by (intro exI [of _ ?e]) simp
qed

lemma schedule_alt:
  assumes "wheel_inv w"
  shows "schedule k t w =
    (if too_far w t then (Inl OverflowError, w) else (Inr (), scheduled k t w))"
proof (cases "origin_timestamp w")
  case None
  then show ?thesis
    by (simp add: schedule_def scheduled_def too_far_def tick_for_timestamp_def tick_number_None Let_def)
next
  case (Some t0)
  then show ?thesis
    using rebase_origin_props(3) [OF assms, of t]
    by (auto simp: schedule_def scheduled_def too_far_def tick_for_timestamp_def tick_number_Some
        Let_def)
qed

lemma wheel_inv_schedule [simp, intro]: "wheel_inv w \<Longrightarrow> wheel_inv (scheduled k t w)"
proof -
  assume inv: "wheel_inv w"
  obtain e where e: "scheduled k t w = bucket_add (scheduled_tick e) k
      ((cancel k (schedule_base t w))\<lparr>entries_by_key :=
         AList.update k e (entries_by_key (cancel k (schedule_base t w)))\<rparr>)"
    "entry_ok (schedule_base t w) k e"
    using schedule_eq [OF inv] by blast
  have "wheel_inv (cancel k (schedule_base t w))"
    using schedule_base_props(1) [OF inv] by (rule wheel_inv_cancel)
  then show ?thesis
    using e(2) unfolding e(1) entry_ok_def
    by (elim conjE exE) (rule wheel_inv_insert; simp add: dict_simps)
qed

lemma deadline_schedule [wheel_simps]:
  "wheel_inv w \<Longrightarrow> deadline (scheduled k t w) = (deadline w)(k \<mapsto> t)"
  using schedule_eq [of w k t] schedule_base_props(2) [of w t]
  by (auto simp: deadline_def fun_eq_iff dict_simps)

lemma schedule_last [wheel_simps]:
  "wheel_inv w \<Longrightarrow> - 1 \<le> last_processed_tick w \<Longrightarrow>
     last_processed_tick (scheduled k t w) = last_processed_tick w"
  using schedule_eq [of w k t] schedule_base_props(5) [of w t] by auto

section \<open>Draining due entries\<close>

definition timer_of :: "ScheduledEntry \<Rightarrow> TimerEntry" where
  "timer_of e = \<lparr>timer_key = entry_key e, timer_expires_at = entry_expires_at e\<rparr>"

definition due_at :: "rat \<Rightarrow> int \<Rightarrow> ScheduledEntry \<Rightarrow> bool" where
  "due_at now tick e \<longleftrightarrow> scheduled_tick e \<le> tick \<and> entry_expires_at e \<le> now"

lemma timer_of_fields [simp]:
  "timer_key (timer_of e) = entry_key e" "timer_expires_at (timer_of e) = entry_expires_at e"
  by (simp_all add: timer_of_def)

text \<open>The fields that draining leaves alone.\<close>

definition same_clockwork :: "TimingWheel \<Rightarrow> TimingWheel \<Rightarrow> bool" where
  "same_clockwork w w' \<longleftrightarrow> tick_seconds w' = tick_seconds w \<and> bucket_count w' = bucket_count w \<and>
     origin_timestamp w' = origin_timestamp w \<and> last_processed_tick w' = last_processed_tick w"

lemma same_clockwork_refl [simp]: "same_clockwork w w"
  by (simp add: same_clockwork_def)

lemma same_clockwork_trans: "same_clockwork a b \<Longrightarrow> same_clockwork b c \<Longrightarrow> same_clockwork a c"
  by (simp add: same_clockwork_def)

lemma same_clockwork_index: "same_clockwork w w' \<Longrightarrow> bucket_index w' t = bucket_index w t"
  by (simp add: same_clockwork_def bucket_index_def)

text \<open>Moving a key out of its bucket and back in changes at most the order within the bucket.\<close>

lemma wheel_inv_requeue:
  assumes inv: "wheel_inv w" and e: "map_of (entries_by_key w) k = Some e"
    and t: "bucket_index w t = bucket_index w (scheduled_tick e)"
  shows "wheel_inv (bucket_add (scheduled_tick e) k (bucket_discard t k w))"
proof -
  let ?w = "bucket_add (scheduled_tick e) k (bucket_discard t k w)"
  have shape: "wheel_shape w" and shape': "wheel_shape (bucket_discard t k w)"
    and ok: "buckets_ok w" and "entries_ok w"
    using inv by (simp_all add: wheel_inv_def)
  have "buckets_ok ?w"
  proof (rule buckets_okI)
    fix i k' assume "i < length (buckets ?w)"
    then have i: "i < length (buckets w)" by simp
    show "distinct (buckets ?w ! i)"
      using buckets_okD(1) [OF ok i] t
      by (auto simp: buckets_bucket_add [OF shape'] buckets_bucket_discard [OF shape]
            intro: distinct_removeAll)
    show "k' \<in> set (buckets ?w ! i) \<longleftrightarrow> in_bucket ?w i k'"
      using buckets_okD(2) [OF ok i, of k'] e t
      by (auto simp: buckets_bucket_add [OF shape'] buckets_bucket_discard [OF shape] in_bucket_def)
  qed
  with shape \<open>entries_ok w\<close> show ?thesis by (simp add: wheel_inv_def)
qed

lemma discard_entries_commute:
  "(bucket_discard t k w)\<lparr>entries_by_key := es\<rparr> = bucket_discard t k (w\<lparr>entries_by_key := es\<rparr>)"
  by (simp add: bucket_discard_def bucket_for_tick_def wheel_simps)

lemma visit_key_effect:
  assumes inv: "wheel_inv w" and e: "map_of (entries_by_key w) k = Some e"
    and t: "bucket_index w t = bucket_index w (scheduled_tick e)"
    and v: "visit_key now t k (w, due) = (w', due')"
  shows "wheel_inv w'" and "same_clockwork w w'"
    and "entries_by_key w' =
      (if due_at now t e then AList.delete k (entries_by_key w) else entries_by_key w)"
    and "due' = due @ (if due_at now t e then [timer_of e] else [])"
proof -
  consider (future) "scheduled_tick e > t"
    | (due) "scheduled_tick e \<le> t" "entry_expires_at e \<le> now"
    | (later) "scheduled_tick e \<le> t" "now < entry_expires_at e"
    by linarith
  then have "wheel_inv w' \<and> same_clockwork w w' \<and>
      entries_by_key w' =
        (if due_at now t e then AList.delete k (entries_by_key w) else entries_by_key w) \<and>
      due' = due @ (if due_at now t e then [timer_of e] else [])"
  proof cases
    case future
    with inv e v show ?thesis by (simp add: visit_key_def due_at_def)
  next
    case due
    then have w': "w' = bucket_discard t k (w\<lparr>entries_by_key := AList.delete k (entries_by_key w)\<rparr>)"
      and "due' = due @ [timer_of e]"
      using e v by (auto simp: visit_key_def Let_def discard_entries_commute timer_of_def)
    moreover have "wheel_inv w'" unfolding w' using inv e t by (rule wheel_inv_drop)
    ultimately show ?thesis using due by (simp add: due_at_def same_clockwork_def)
  next
    case later
    then have w': "w' = bucket_add (scheduled_tick e) k (bucket_discard t k w)" and "due' = due"
      using e v by (auto simp: visit_key_def Let_def)
    moreover have "wheel_inv w'" unfolding w' using inv e t by (rule wheel_inv_requeue)
    ultimately show ?thesis using later by (simp add: due_at_def same_clockwork_def)
  qed
  then show "wheel_inv w'" and "same_clockwork w w'"
    and "entries_by_key w' =
      (if due_at now t e then AList.delete k (entries_by_key w) else entries_by_key w)"
    and "due' = due @ (if due_at now t e then [timer_of e] else [])"
    by blast+
qed

text \<open>One bucket: exactly the visited keys whose entries are due leave the wheel.\<close>

lemma visit_keys_effect:
  assumes "wheel_inv w" and "distinct ks"
    and "\<forall>k \<in> set ks. in_bucket w (bucket_index w t) k"
    and "fold (visit_key now t) ks (w, due) = (w', due')"
  shows "wheel_inv w' \<and> same_clockwork w w' \<and>
    entries_by_key w' =
      filter (\<lambda>(k, e). \<not> (k \<in> set ks \<and> due_at now t e)) (entries_by_key w) \<and>
    due' = due @ map timer_of (filter (due_at now t)
      (map (\<lambda>k. the (map_of (entries_by_key w) k)) ks))"
  using assms
proof (induction ks arbitrary: w due)
  case Nil
  then show ?case by (simp add: case_prod_beta)
next
  case (Cons k ks)
  obtain e where e: "map_of (entries_by_key w) k = Some e"
    and t: "bucket_index w t = bucket_index w (scheduled_tick e)"
    using Cons.prems(3) by (auto simp: in_bucket_def)
  obtain w1 due1 where v: "visit_key now t k (w, due) = (w1, due1)" by fastforce
  note eff = visit_key_effect [OF Cons.prems(1) e t v]
  have dict: "dict_ok (entries_by_key w)"
    using Cons.prems(1) by (rule wheel_inv_dict)
  have same: "map_of (entries_by_key w1) k' = map_of (entries_by_key w) k'" if "k' \<in> set ks" for k'
    using that Cons.prems(2) by (auto simp: eff(3) dict_simps)
  then have "\<forall>k' \<in> set ks. in_bucket w1 (bucket_index w1 t) k'"
    using Cons.prems(3) by (simp add: in_bucket_def same_clockwork_index [OF eff(2)])
  moreover have "fold (visit_key now t) ks (w1, due1) = (w', due')"
    using Cons.prems(4) v by simp
  ultimately have IH: "wheel_inv w' \<and> same_clockwork w1 w' \<and>
      entries_by_key w' =
        filter (\<lambda>(k, e). \<not> (k \<in> set ks \<and> due_at now t e)) (entries_by_key w1) \<and>
      due' = due1 @ map timer_of (filter (due_at now t)
        (map (\<lambda>k. the (map_of (entries_by_key w1) k)) ks))"
    using Cons.IH [OF eff(1)] Cons.prems(2) by simp
  have F: "filter (\<lambda>(k, e). \<not> (k \<in> set ks \<and> due_at now t e)) (entries_by_key w1) =
      filter (\<lambda>(k', e). \<not> (k' \<in> set (k # ks) \<and> due_at now t e)) (entries_by_key w)"
    using e dict Cons.prems(2)
    by (auto simp: eff(3) AList.delete_eq mem_dict_iff intro!: filter_cong)
  have M: "map (\<lambda>k. the (map_of (entries_by_key w1) k)) ks =
      map (\<lambda>k. the (map_of (entries_by_key w) k)) ks"
    using same by simp
  show ?case
    using IH [unfolded F M] e same_clockwork_trans [OF eff(2)] by (simp add: eff(4))
qed

lemma visit_tick_effect:
  assumes inv: "wheel_inv w" and v: "visit_tick now t (w, due) = (w', due')"
  defines "hit \<equiv> \<lambda>e. bucket_index w (scheduled_tick e) = bucket_index w t \<and> due_at now t e"
  shows "wheel_inv w' \<and> same_clockwork w w' \<and>
    entries_by_key w' = filter (\<lambda>(k, e). \<not> hit e) (entries_by_key w) \<and>
    (\<exists>es. due' = due @ map timer_of es \<and> distinct (map entry_key es) \<and>
       set es = {e. hit e \<and> map_of (entries_by_key w) (entry_key e) = Some e})"
proof -
  let ?ks = "bucket_for_tick w t"
  have shape: "wheel_shape w" and ok: "buckets_ok w" and eok: "entries_ok w"
    using inv by (simp_all add: wheel_inv_def)
  note B = buckets_okD [OF ok bucket_index_less [OF shape, of t]]
  have dist: "distinct ?ks" and mem: "k \<in> set ?ks \<longleftrightarrow> in_bucket w (bucket_index w t) k" for k
    using B by (simp_all add: bucket_for_tick_def)
  let ?es = "filter (due_at now t) (map (\<lambda>k. the (map_of (entries_by_key w) k)) ?ks)"
  have E: "wheel_inv w' \<and> same_clockwork w w' \<and>
      entries_by_key w' = filter (\<lambda>(k, e). \<not> (k \<in> set ?ks \<and> due_at now t e)) (entries_by_key w) \<and>
      due' = due @ map timer_of ?es"
    using visit_keys_effect [OF inv dist, of t now due w' due'] mem v
    by (simp add: visit_tick_def)
  have key: "entry_key e = k" if "map_of (entries_by_key w) k = Some e" for k e
    using entries_okD(2) [OF eok that] by (simp add: entry_ok_def)
  have filters: "filter (\<lambda>(k, e). \<not> (k \<in> set ?ks \<and> due_at now t e)) (entries_by_key w) =
      filter (\<lambda>(k, e). \<not> hit e) (entries_by_key w)"
    using entries_okD(1) [OF eok]
    by (intro filter_cong) (auto simp: hit_def mem in_bucket_def mem_dict_iff)
  have keyk: "entry_key (the (map_of (entries_by_key w) k)) = k" if "k \<in> set ?ks" for k
    using that key by (auto simp: mem in_bucket_def)
  then have "map entry_key (map (\<lambda>k. the (map_of (entries_by_key w) k)) ?ks) = ?ks"
    by (simp add: map_idI)
  then have "distinct (map entry_key ?es)"
    using dist by (metis distinct_map_filter)
  moreover have "set ?es = {e. hit e \<and> map_of (entries_by_key w) (entry_key e) = Some e}"
  proof (rule set_eqI)
    fix e
    have "(\<exists>k \<in> set ?ks. e = the (map_of (entries_by_key w) k)) \<longleftrightarrow>
        map_of (entries_by_key w) (entry_key e) = Some e \<and>
        bucket_index w (scheduled_tick e) = bucket_index w t"
    proof
      assume "\<exists>k \<in> set ?ks. e = the (map_of (entries_by_key w) k)"
      then show "map_of (entries_by_key w) (entry_key e) = Some e \<and>
          bucket_index w (scheduled_tick e) = bucket_index w t"
        using keyk mem by (fastforce simp: in_bucket_def)
    next
      assume "map_of (entries_by_key w) (entry_key e) = Some e \<and>
          bucket_index w (scheduled_tick e) = bucket_index w t"
      then show "\<exists>k \<in> set ?ks. e = the (map_of (entries_by_key w) k)"
        by (intro bexI [of _ "entry_key e"]) (simp_all add: mem in_bucket_def)
    qed
    then show "e \<in> set ?es \<longleftrightarrow>
        e \<in> {e. hit e \<and> map_of (entries_by_key w) (entry_key e) = Some e}"
      by (auto simp: hit_def image_iff)
  qed
  ultimately show ?thesis
    using E filters by (intro conjI exI [of _ ?es]) auto
qed

text \<open>All ticks since the last call.\<close>

definition reached :: "TimingWheel \<Rightarrow> rat \<Rightarrow> int list \<Rightarrow> ScheduledEntry \<Rightarrow> bool" where
  "reached w now ts e \<longleftrightarrow>
     (\<exists>t \<in> set ts. bucket_index w (scheduled_tick e) = bucket_index w t \<and> due_at now t e)"

lemma reached_Nil [simp]: "\<not> reached w now [] e"
  by (simp add: reached_def)

lemma reached_Cons:
  "reached w now (t # ts) e \<longleftrightarrow>
     (bucket_index w (scheduled_tick e) = bucket_index w t \<and> due_at now t e) \<or> reached w now ts e"
  by (auto simp: reached_def)

lemma reached_cong: "same_clockwork w w' \<Longrightarrow> reached w' now ts e = reached w now ts e"
  by (simp add: reached_def same_clockwork_index)

lemma visit_ticks_effect:
  assumes "wheel_inv w" and "fold (visit_tick now) ts (w, due) = (w', due')"
  shows "wheel_inv w' \<and> same_clockwork w w' \<and>
    entries_by_key w' = filter (\<lambda>(k, e). \<not> reached w now ts e) (entries_by_key w) \<and>
    (\<exists>es. due' = due @ map timer_of es \<and> distinct (map entry_key es) \<and>
       set es = {e. reached w now ts e \<and> map_of (entries_by_key w) (entry_key e) = Some e})"
  using assms
proof (induction ts arbitrary: w due)
  case Nil
  then show ?case by (simp add: case_prod_beta)
next
  case (Cons t ts)
  let ?hit = "\<lambda>e. bucket_index w (scheduled_tick e) = bucket_index w t \<and> due_at now t e"
  obtain w1 due1 where v: "visit_tick now t (w, due) = (w1, due1)" by fastforce
  obtain es1 where w1: "wheel_inv w1" and same: "same_clockwork w w1"
    and E1: "entries_by_key w1 = filter (\<lambda>(k, e). \<not> ?hit e) (entries_by_key w)"
    and due1: "due1 = due @ map timer_of es1" and d1: "distinct (map entry_key es1)"
    and S1: "set es1 = {e. ?hit e \<and> map_of (entries_by_key w) (entry_key e) = Some e}"
    using visit_tick_effect [OF Cons.prems(1) v] by blast
  have "fold (visit_tick now) ts (w1, due1) = (w', due')"
    using Cons.prems(2) v by simp
  from Cons.IH [OF w1 this] obtain es2 where
    w': "wheel_inv w'" "same_clockwork w1 w'"
    and E2: "entries_by_key w' = filter (\<lambda>(k, e). \<not> reached w now ts e) (entries_by_key w1)"
    and due': "due' = due1 @ map timer_of es2" and d2: "distinct (map entry_key es2)"
    and S2: "set es2 = {e. reached w now ts e \<and> map_of (entries_by_key w1) (entry_key e) = Some e}"
    by (auto simp: reached_cong [OF same])
  have dict: "dict_ok (entries_by_key w)"
    using Cons.prems(1) by (rule wheel_inv_dict)
  have look: "map_of (entries_by_key w1) k = Some e \<longleftrightarrow>
      map_of (entries_by_key w) k = Some e \<and> \<not> ?hit e" for k e
    using dict by (auto simp: E1 map_of_filter_key split: option.splits if_splits)
  have "entries_by_key w' = filter (\<lambda>(k, e). \<not> reached w now (t # ts) e) (entries_by_key w)"
    unfolding E2 E1 filter_filter by (rule filter_cong) (auto simp: reached_Cons)
  moreover have "entry_key x \<noteq> entry_key y" if "x \<in> set es1" and "y \<in> set es2" for x y
  proof
    assume key: "entry_key x = entry_key y"
    have x: "map_of (entries_by_key w) (entry_key x) = Some x" "?hit x"
      using that(1) by (simp_all add: S1)
    have y: "map_of (entries_by_key w) (entry_key y) = Some y" "\<not> ?hit y"
      using that(2) look by (simp_all add: S2)
    have "x = y" using x(1) y(1) unfolding key by (rule option.inject [THEN iffD1, OF trans, OF sym])
    with x(2) y(2) show False by blast
  qed
  then have "distinct (map entry_key (es1 @ es2))"
    using d1 d2 by (auto simp: image_iff)
  moreover have "set (es1 @ es2) =
      {e. reached w now (t # ts) e \<and> map_of (entries_by_key w) (entry_key e) = Some e}"
    using S1 S2 look by (auto simp: reached_Cons)
  moreover have "due' = due @ map timer_of (es1 @ es2)" by (simp add: due1 due')
  ultimately show ?case
    using w' same_clockwork_trans [OF same] by (intro conjI exI [of _ "es1 @ es2"]) blast+
qed

text \<open>
  The entries a call of \<open>pop_due\<close> drains: due by the clock, and with a tick of their bucket
  among those between the previous call and this one, not before their own.
\<close>

definition tick_at :: "TimingWheel \<Rightarrow> rat \<Rightarrow> int" where
  "tick_at w now = fst (tick_number now w)"

definition drained :: "TimingWheel \<Rightarrow> rat \<Rightarrow> ScheduledEntry \<Rightarrow> bool" where
  "drained w now e \<longleftrightarrow> entry_expires_at e \<le> now \<and>
     (\<exists>t. last_processed_tick w < t \<and> t \<le> tick_at w now \<and> scheduled_tick e \<le> t \<and>
        t mod bucket_count w = scheduled_tick e mod bucket_count w)"

lemma reached_drained:
  assumes "0 < bucket_count w"
  shows "reached w now [last_processed_tick w + 1 .. tick_at w now] e \<longleftrightarrow> drained w now e"
proof -
  have "bucket_index w a = bucket_index w b \<longleftrightarrow> b mod bucket_count w = a mod bucket_count w" for a b
    using assms by (auto simp: bucket_index_def eq_nat_nat_iff)
  moreover have "t \<in> set [last_processed_tick w + 1 .. tick_at w now] \<longleftrightarrow>
      last_processed_tick w < t \<and> t \<le> tick_at w now" for t
    by auto
  ultimately show ?thesis
    unfolding reached_def drained_def due_at_def Bex_def by blast
qed

lemma pop_due_effect:
  assumes inv: "wheel_inv w" and pop: "pop_due now w = (due, w')"
  shows "wheel_inv w'"
    and "entries_by_key w' = filter (\<lambda>(k, e). \<not> drained w now e) (entries_by_key w)"
    and "set due = timer_of ` {e. drained w now e \<and> map_of (entries_by_key w) (entry_key e) = Some e}"
    and "distinct (map timer_key due)"
    and "sorted (map timer_expires_at due)"
    and "last_processed_tick w' = max (last_processed_tick w) (tick_at w now)"
    and "tick_seconds w' = tick_seconds w" and "bucket_count w' = bucket_count w"
    and "origin_timestamp w' = Some (case origin_timestamp w of None \<Rightarrow> now | Some t \<Rightarrow> t)"
proof -
  obtain cur w1 where t: "tick_number now w = (cur, w1)" by fastforce
  note w1 = wheel_inv_tick [OF inv t]
  have cur: "cur = tick_at w now" by (simp add: tick_at_def t)
  have n: "0 < bucket_count w" using inv by (simp add: wheel_inv_def wheel_shape_def)
  let ?ts = "[last_processed_tick w + 1 .. cur]"
  obtain w2 d where f: "fold (visit_tick now) ?ts (w1, []) = (w2, d)" by fastforce
  have inv1: "wheel_inv w1" and ent1: "entries_by_key w1 = entries_by_key w"
    using w1 by blast+
  have idx: "bucket_index w1 x = bucket_index w x" for x using w1 by (simp add: bucket_index_def)
  have reach: "reached w1 now ?ts e \<longleftrightarrow> drained w now e" for e
    using reached_drained [OF n] by (simp add: reached_def idx cur)
  obtain es where w2: "wheel_inv w2" "same_clockwork w1 w2"
    and E: "entries_by_key w2 = filter (\<lambda>(k, e). \<not> drained w now e) (entries_by_key w)"
    and d: "d = map timer_of es" and dist: "distinct (map entry_key es)"
    and S: "set es = {e. drained w now e \<and> map_of (entries_by_key w) (entry_key e) = Some e}"
    using visit_ticks_effect [OF inv1 f] by (auto simp: reach ent1)
  have w': "w' = (if cur \<le> last_processed_tick w then w1 else w2\<lparr>last_processed_tick := cur\<rparr>)"
    and due: "due = (if cur \<le> last_processed_tick w then [] else sort_key timer_expires_at d)"
    using pop t f w1 by (auto simp: pop_due_def split: if_splits)
  have none: "\<not> drained w now e" if "cur \<le> last_processed_tick w" for e
    using that by (auto simp: drained_def cur)
  show "wheel_inv w'" using inv1 w2(1) by (simp add: w' wheel_inv_last)
  show "entries_by_key w' = filter (\<lambda>(k, e). \<not> drained w now e) (entries_by_key w)"
    using none ent1 E by (simp add: w' case_prod_beta)
  show "set due = timer_of ` {e. drained w now e \<and> map_of (entries_by_key w) (entry_key e) = Some e}"
    using none S by (auto simp: due d)
  show "distinct (map timer_key due)"
    using dist by (simp add: due d distinct_map inj_on_def) (metis timer_of_fields(1))
  show "sorted (map timer_expires_at due)" by (simp add: due)
  show "last_processed_tick w' = max (last_processed_tick w) (tick_at w now)"
    using w1 cur by (simp add: w')
  show "tick_seconds w' = tick_seconds w" and "bucket_count w' = bucket_count w"
    using w1 w2(2) by (simp_all add: w' same_clockwork_def)
  show "origin_timestamp w' = Some (case origin_timestamp w of None \<Rightarrow> now | Some t \<Rightarrow> t)"
    using w1 w2(2) by (auto simp: w' same_clockwork_def)
qed

section \<open>The contract of an expiration scheduler\<close>

text \<open>
  What the store relies on: a scheduler remembers one deadline per key, or refuses one that is too
  far ahead (and refuses it from then on); and a drain returns
  scheduled keys whose deadline has passed, each once, in deadline order, and forgets exactly
  those. The contract does not say that every due key is returned; see the next section for
  what the wheel does there.
\<close>

locale expiry_scheduler =
  fixes sched :: "pystr \<Rightarrow> rat \<Rightarrow> 'w \<Rightarrow> (py_exn + unit) \<times> 'w"
    and unsched :: "pystr \<Rightarrow> 'w \<Rightarrow> 'w"
    and drain :: "rat \<Rightarrow> 'w \<Rightarrow> TimerEntry list \<times> 'w"
    and due_time :: "'w \<Rightarrow> pystr \<Rightarrow> rat option"
    and far :: "'w \<Rightarrow> rat \<Rightarrow> bool"
    and invar :: "'w \<Rightarrow> bool"
  assumes invar_sched: "invar w \<Longrightarrow> invar (snd (sched k t w))"
    and sched_result: "invar w \<Longrightarrow>
      fst (sched k t w) = (if far w t then Inl OverflowError else Inr ())"
    and invar_unsched: "invar w \<Longrightarrow> invar (unsched k w)"
    and invar_drain: "invar w \<Longrightarrow> drain now w = (due, w') \<Longrightarrow> invar w'"
    and due_time_sched: "invar w \<Longrightarrow> due_time (snd (sched k t w)) =
      (if far w t then due_time w else (due_time w)(k \<mapsto> t))"
    and far_sched: "invar w \<Longrightarrow> far w d \<Longrightarrow> far (snd (sched k t w)) d"
    and far_unsched: "invar w \<Longrightarrow> far w d \<Longrightarrow> far (unsched k w) d"
    and far_drain: "invar w \<Longrightarrow> drain now w = (due, w') \<Longrightarrow> far w d \<Longrightarrow> far w' d"
    and due_time_unsched: "invar w \<Longrightarrow> due_time (unsched k w) = (due_time w)(k := None)"
    and drain_sound: "invar w \<Longrightarrow> drain now w = (due, w') \<Longrightarrow> te \<in> set due \<Longrightarrow>
      due_time w (timer_key te) = Some (timer_expires_at te) \<and> timer_expires_at te \<le> now"
    and drain_forgets: "invar w \<Longrightarrow> drain now w = (due, w') \<Longrightarrow>
      due_time w' = (due_time w) |` (- timer_key ` set due)"
    and drain_distinct: "invar w \<Longrightarrow> drain now w = (due, w') \<Longrightarrow> distinct (map timer_key due)"
    and drain_sorted: "invar w \<Longrightarrow> drain now w = (due, w') \<Longrightarrow> sorted (map timer_expires_at due)"

lemma deadline_Some_iff:
  "deadline w k = Some d \<longleftrightarrow> (\<exists>e. map_of (entries_by_key w) k = Some e \<and> entry_expires_at e = d)"
  by (auto simp: deadline_def)

lemma pop_due_keys:
  assumes inv: "wheel_inv w" and pop: "pop_due now w = (due, w')"
  shows "k \<in> timer_key ` set due \<longleftrightarrow>
    (\<exists>e. map_of (entries_by_key w) k = Some e \<and> drained w now e)"
proof -
  have "entry_key e = k" if "map_of (entries_by_key w) k = Some e" for e
    using wheel_inv_entry [OF inv that] by (simp add: entry_ok_def)
  then show ?thesis
    unfolding pop_due_effect(3) [OF inv pop] by (auto simp: image_image image_iff)
qed

lemma too_far_cong: "tick_seconds w' = tick_seconds w \<Longrightarrow> origin_timestamp w' = origin_timestamp w \<Longrightarrow>
    too_far w' d = too_far w d"
  by (simp add: too_far_def split: option.split)

lemma too_far_earlier_origin:
  assumes "wheel_inv w" and "too_far w d" and "tick_seconds w' = tick_seconds w"
    and "origin_timestamp w' = Some t0" and "\<forall>t1. origin_timestamp w = Some t1 \<longrightarrow> t0 \<le> t1"
  shows "too_far w' d"
proof -
  obtain t1 where t1: "origin_timestamp w = Some t1" "t1 \<le> d"
    and far: "float_overflows (d - t1) \<or> float_overflows ((d - t1) / tick_seconds w)"
    using assms(2) by (auto simp: too_far_def split: option.splits)
  have ts: "0 < tick_seconds w" using assms(1) by (simp add: wheel_inv_def wheel_shape_def)
  have le: "t0 \<le> t1" using assms(5) t1(1) by simp
  then have "float_overflows (d - t0)" if "float_overflows (d - t1)"
    using that t1(2) by (elim float_overflows_mono) simp
  moreover have "float_overflows ((d - t0) / tick_seconds w)"
    if "float_overflows ((d - t1) / tick_seconds w)"
  proof (rule float_overflows_mono [OF that])
    have "0 \<le> (d - t1) / tick_seconds w" "(d - t1) / tick_seconds w \<le> (d - t0) / tick_seconds w"
      using t1(2) le ts by (simp_all add: divide_right_mono)
    then show "\<bar>(d - t1) / tick_seconds w\<bar> \<le> \<bar>(d - t0) / tick_seconds w\<bar>" by linarith
  qed
  ultimately show ?thesis using far le t1(2) assms(3,4) by (auto simp: too_far_def)
qed

lemma too_far_scheduled:
  assumes "wheel_inv w" and "too_far w d"
  shows "too_far (scheduled k t w) d"
proof -
  obtain t0 where "origin_timestamp (schedule_base t w) = Some t0"
    "\<forall>t1. origin_timestamp w = Some t1 \<longrightarrow> t0 \<le> t1"
    using schedule_base_props(6) [OF assms(1)] by blast
  then show ?thesis
    using schedule_eq [OF assms(1), of k t] schedule_base_props(3) [OF assms(1), of t]
    by (intro too_far_earlier_origin [OF assms]) auto
qed

interpretation wheel: expiry_scheduler schedule cancel pop_due deadline too_far wheel_inv
proof unfold_locales
  fix w k t now due w' te d
  assume inv: "wheel_inv w"
  have dict: "dict_ok (entries_by_key w)"
    using inv by (rule wheel_inv_dict)
  show "wheel_inv (snd (schedule k t w))" using inv by (simp add: schedule_alt wheel_inv_schedule)
  show "fst (schedule k t w) = (if too_far w t then Inl OverflowError else Inr ())"
    using inv by (simp add: schedule_alt)
  show "wheel_inv (cancel k w)" using inv by (rule wheel_inv_cancel)
  show "deadline (snd (schedule k t w)) =
      (if too_far w t then deadline w else (deadline w)(k \<mapsto> t))"
    using inv by (simp add: schedule_alt deadline_schedule)
  show "too_far (snd (schedule k t w)) d" if "too_far w d"
    using inv that by (simp add: schedule_alt too_far_scheduled)
  show "too_far (cancel k w) d" if "too_far w d" using that too_far_cong [of "cancel k w" w d] by simp
  show "deadline (cancel k w) = (deadline w)(k := None)" by (rule deadline_cancel)
  assume pop: "pop_due now w = (due, w')"
  show "wheel_inv w'" using inv pop by (rule pop_due_effect)
  show "too_far w' d" if "too_far w d"
    using that pop_due_effect(7,9) [OF inv pop] by (auto simp: too_far_def split: option.splits)
  show "distinct (map timer_key due)" using inv pop by (rule pop_due_effect)
  show "sorted (map timer_expires_at due)" using inv pop by (rule pop_due_effect)
  show "deadline w' = (deadline w) |` (- timer_key ` set due)"
    using dict pop_due_keys [OF inv pop]
    by (auto simp: deadline_def pop_due_effect(2) [OF inv pop] map_of_filter_key restrict_map_def
          fun_eq_iff split: option.split)
  assume "te \<in> set due"
  then show "deadline w (timer_key te) = Some (timer_expires_at te) \<and> timer_expires_at te \<le> now"
    unfolding pop_due_effect(3) [OF inv pop] by (auto simp: deadline_def drained_def)
qed

section \<open>How prompt a drain is\<close>

lemma wheel_inv_pos: "wheel_inv w \<Longrightarrow> 0 < tick_seconds w \<and> 0 < bucket_count w"
  by (simp add: wheel_inv_def wheel_shape_def)

lemma tick_at_eq:
  "tick_at w t = (case origin_timestamp w of None \<Rightarrow> 0 | Some t0 \<Rightarrow> \<lfloor>(t - t0) / tick_seconds w\<rfloor>)"
  by (simp add: tick_at_def tick_number_Some tick_number_None split: option.split)

lemma tick_at_mono: "wheel_inv w \<Longrightarrow> t \<le> t' \<Longrightarrow> tick_at w t \<le> tick_at w t'"
  using wheel_inv_pos [of w]
  by (auto simp: tick_at_eq intro!: floor_mono divide_right_mono split: option.split)

lemma scheduled_tick_eq:
  assumes "wheel_inv w" and "map_of (entries_by_key w) k = Some e"
  shows "scheduled_tick e = tick_at w (entry_expires_at e)"
  using wheel_inv_entry [OF assms] by (auto simp: entry_ok_def tick_at_eq)

lemma deadline_origin:
  assumes "wheel_inv w" and "deadline w k = Some d"
  shows "\<exists>t0. origin_timestamp w = Some t0"
  using assms(2) wheel_inv_entry [OF assms(1)] by (auto simp: deadline_Some_iff entry_ok_def)

lemma pop_due_returns_iff:
  assumes inv: "wheel_inv w" and pop: "pop_due now w = (due, w')" and d: "deadline w k = Some d"
  shows "k \<in> timer_key ` set due \<longleftrightarrow> d \<le> now \<and>
    (\<exists>t. last_processed_tick w < t \<and> t \<le> tick_at w now \<and> tick_at w d \<le> t \<and>
       t mod bucket_count w = tick_at w d mod bucket_count w)"
  using d scheduled_tick_eq [OF inv]
  by (auto simp: pop_due_keys [OF inv pop] drained_def deadline_Some_iff)

text \<open>
  Readings within 2^1000 seconds of the epoch have a tick, on a wheel whose origin is such a
  reading and whose ticks are not shorter than 2^-20 seconds; and neither such a reading nor a
  deadline after one makes the origin anything else.
\<close>

lemma tick_in_range:
  assumes "origin_timestamp w = Some t0" and "\<bar>t0\<bar> \<le> 2 ^ 1000" and "\<bar>t\<bar> \<le> 2 ^ 1000"
    and "1 / 2 ^ 20 \<le> tick_seconds w"
  shows "tick_for_timestamp t w = (Inr (tick_at w t), w)"
proof -
  have d: "\<bar>t - t0\<bar> \<le> 2 ^ 1001" using assms(2,3) by simp
  then have "\<bar>t - t0\<bar> * 1 \<le> 2 ^ 1001 * (2 ^ 20 * tick_seconds w)"
    using assms(4) by (intro mult_mono) (simp_all add: field_simps)
  moreover have "0 < tick_seconds w"
    using assms(4) by (rule less_le_trans [rotated]) simp
  ultimately have q: "\<bar>(t - t0) / tick_seconds w\<bar> \<le> 2 ^ 1021" by (simp add: field_simps)
  have "(2 :: rat) ^ 1021 < of_int float_int_limit" by (simp add: float_int_limit_def)
  with q d have "\<not> float_overflows (t - t0)" "\<not> float_overflows ((t - t0) / tick_seconds w)"
    by (simp_all add: float_overflows_def)
  then show ?thesis
    using assms(1) by (simp add: tick_for_timestamp_def tick_number_Some tick_at_eq)
qed

lemma tick_for_timestamp_Inr:
  assumes "fst (tick_for_timestamp t w) = Inr n"
  shows "n = tick_at w t" and "\<not> too_far w t"
  using assms
  by (cases "origin_timestamp w"; auto simp: tick_for_timestamp_def tick_number_None tick_number_Some
      too_far_def tick_at_eq Let_def split: if_splits)+

lemma too_far_later:
  assumes "wheel_inv w" and "too_far w t" and "t \<le> t'"
  shows "too_far w t'"
proof -
  obtain t0 where t0: "origin_timestamp w = Some t0" "t0 \<le> t"
    and far: "float_overflows (t - t0) \<or> float_overflows ((t - t0) / tick_seconds w)"
    using assms(2) by (auto simp: too_far_def split: option.splits)
  have "0 < tick_seconds w" using wheel_inv_pos [OF assms(1)] by simp
  with t0 assms(3) have "0 \<le> (t - t0) / tick_seconds w"
    "(t - t0) / tick_seconds w \<le> (t' - t0) / tick_seconds w"
    by (simp_all add: divide_right_mono)
  then have "\<bar>(t - t0) / tick_seconds w\<bar> \<le> \<bar>(t' - t0) / tick_seconds w\<bar>" by linarith
  moreover have "\<bar>t - t0\<bar> \<le> \<bar>t' - t0\<bar>" using t0 assms(3) by simp
  ultimately have "float_overflows (t' - t0) \<or> float_overflows ((t' - t0) / tick_seconds w)"
    using far float_overflows_mono by blast
  with t0 assms(3) show ?thesis by (simp add: too_far_def)
qed

lemma origin_in_range:
  assumes inv: "wheel_inv w" and "\<And>t0. origin_timestamp w = Some t0 \<Longrightarrow> \<bar>t0\<bar> \<le> B" and "\<bar>now\<bar> \<le> B"
  shows "\<exists>t0. origin_timestamp (snd (pop_due now w)) = Some t0 \<and> \<bar>t0\<bar> \<le> B"
    and "origin_timestamp w \<noteq> None \<Longrightarrow> now \<le> t \<Longrightarrow>
      \<exists>t0. origin_timestamp (snd (schedule k t w)) = Some t0 \<and> \<bar>t0\<bar> \<le> B"
proof -
  show "\<exists>t0. origin_timestamp (snd (pop_due now w)) = Some t0 \<and> \<bar>t0\<bar> \<le> B"
    using pop_due_effect(9) [OF inv surjective_pairing, of now] assms(2,3)
    by (auto split: option.split)
  assume "origin_timestamp w \<noteq> None" and t: "now \<le> t"
  then obtain t1 where t1: "origin_timestamp w = Some t1" "\<bar>t1\<bar> \<le> B" using assms(2) by auto
  have "origin_timestamp (scheduled k t w) = origin_timestamp (schedule_base t w)"
    using schedule_eq [OF inv, of k t] by auto
  then have "origin_timestamp (scheduled k t w) = Some (min t t1)"
    using t1(1) rebase_origin_props(3) [OF inv, of t] by (simp add: schedule_base_eq [OF inv] min_def)
  moreover have "\<bar>min t t1\<bar> \<le> B" using t t1(2) assms(3) by (simp add: min_def abs_le_iff)
  ultimately show "\<exists>t0. origin_timestamp (snd (schedule k t w)) = Some t0 \<and> \<bar>t0\<bar> \<le> B"
    using t1 by (simp add: schedule_alt [OF inv])
qed

text \<open>
  No deadline is more than one turn of the wheel behind the last drained tick. With a clock
  that does not go backwards every operation keeps this.
\<close>

definition wheel_fresh :: "TimingWheel \<Rightarrow> bool" where
  "wheel_fresh w \<longleftrightarrow>
     (\<forall>k d. deadline w k = Some d \<longrightarrow> last_processed_tick w < tick_at w d + bucket_count w)"

definition caught_up :: "TimingWheel \<Rightarrow> rat \<Rightarrow> bool" where
  "caught_up w now \<longleftrightarrow>
     - 1 \<le> last_processed_tick w \<and>
     (if origin_timestamp w = None then last_processed_tick w = - 1
      else last_processed_tick w \<le> max (- 1) (tick_at w now))"

lemma wheel_freshD:
  "wheel_fresh w \<Longrightarrow> deadline w k = Some d \<Longrightarrow> last_processed_tick w < tick_at w d + bucket_count w"
  by (simp add: wheel_fresh_def)

lemma wheel_fresh_empty [simp]: "entries_by_key w = [] \<Longrightarrow> wheel_fresh w"
  by (simp add: wheel_fresh_def deadline_def)

lemma caught_up_mono: "wheel_inv w \<Longrightarrow> caught_up w t \<Longrightarrow> t \<le> t' \<Longrightarrow> caught_up w t'"
  using tick_at_mono [of w t t'] by (auto simp: caught_up_def)

lemma tick_at_cancel [wheel_simps]: "tick_at (cancel k w) t = tick_at w t"
  by (simp add: tick_at_eq split: option.split)

lemma wheel_fresh_cancel: "wheel_fresh w \<Longrightarrow> wheel_fresh (cancel k w)"
  by (auto simp: wheel_fresh_def deadline_cancel tick_at_cancel split: if_splits)

lemma caught_up_cancel [wheel_simps]: "caught_up (cancel k w) t = caught_up w t"
  by (simp add: caught_up_def tick_at_cancel)

text \<open>A turn of the wheel visits the bucket of every tick.\<close>

lemma next_turn:
  fixes n :: int
  assumes "0 < n" and "l < s + n" and "s + n \<le> c"
  shows "\<exists>t. l < t \<and> t \<le> c \<and> s \<le> t \<and> t mod n = s mod n"
  using assms by (intro exI [of _ "s + n"]) simp

lemma pop_due_fresh:
  assumes inv: "wheel_inv w" and fresh: "wheel_fresh w" and pop: "pop_due now w = (due, w')"
  shows "wheel_fresh w'"
  unfolding wheel_fresh_def
proof (intro allI impI)
  fix k d assume d': "deadline w' k = Some d"
  then have k: "k \<notin> timer_key ` set due" and d: "deadline w k = Some d"
    by (auto simp: wheel.drain_forgets [OF inv pop] restrict_map_def split: if_splits)
  obtain t0 where t0: "origin_timestamp w = Some t0" using deadline_origin [OF inv d] by blast
  then have tick: "tick_at w' x = tick_at w x" for x
    by (simp add: tick_at_eq pop_due_effect(7,9) [OF inv pop])
  have n: "0 < bucket_count w" using wheel_inv_pos [OF inv] by blast
  have "tick_at w now < tick_at w d + bucket_count w"
  proof (cases "d \<le> now")
    case True
    with k have "\<not> (\<exists>t. last_processed_tick w < t \<and> t \<le> tick_at w now \<and> tick_at w d \<le> t \<and>
        t mod bucket_count w = tick_at w d mod bucket_count w)"
      using pop_due_returns_iff [OF inv pop d] by blast
    with next_turn [OF n wheel_freshD [OF fresh d]] show ?thesis by force
  next
    case False
    then show ?thesis using tick_at_mono [OF inv, of now d] n by simp
  qed
  with wheel_freshD [OF fresh d]
  show "last_processed_tick w' < tick_at w' d + bucket_count w'"
    by (simp add: tick pop_due_effect(6,8) [OF inv pop])
qed

lemma pop_due_caught_up:
  assumes inv: "wheel_inv w" and cu: "caught_up w now" and pop: "pop_due now w = (due, w')"
  shows "caught_up w' now"
proof -
  have "tick_at w' now = tick_at w now"
    by (simp add: tick_at_eq pop_due_effect(7,9) [OF inv pop] split: option.split)
  with cu show ?thesis
    by (auto simp: caught_up_def pop_due_effect(6,9) [OF inv pop] tick_at_eq split: if_splits)
qed

lemma drain_caught_up_later:
  assumes inv: "wheel_inv w" and cu: "caught_up w t" and pop: "pop_due now w = (due, w')"
    and le: "now \<le> t"
  shows "caught_up w' t"
proof -
  note eff = pop_due_effect(6,7,9) [OF inv pop]
  show ?thesis
  proof (cases "origin_timestamp w")
    case None
    then have "last_processed_tick w' = 0" "0 \<le> tick_at w' t"
      using cu le wheel_inv_pos [OF inv] by (simp_all add: caught_up_def eff tick_at_eq)
    with None show ?thesis by (simp add: caught_up_def eff)
  next
    case (Some t0)
    then have "tick_at w' t = tick_at w t" by (simp add: tick_at_eq eff)
    with Some cu tick_at_mono [OF inv le] show ?thesis by (auto simp: caught_up_def eff)
  qed
qed

lemma tick_at_schedule: "wheel_inv w \<Longrightarrow> tick_at (scheduled k t w) x = tick_at (schedule_base t w) x"
  using schedule_eq [of w k t] by (auto simp: tick_at_eq split: option.split)

lemma tick_at_base_mono:
  assumes inv: "wheel_inv w" and o1: "origin_timestamp w = Some t1"
  shows "tick_at w x \<le> tick_at (schedule_base t w) x"
proof -
  obtain t0 where "origin_timestamp (schedule_base t w) = Some t0" and "t0 \<le> t1"
    using schedule_base_props(6) [OF inv, of t] o1 by auto
  then show ?thesis
    using wheel_inv_pos [OF inv] o1 schedule_base_props(3) [OF inv, of t]
    by (simp add: tick_at_eq floor_mono divide_right_mono)
qed

lemma schedule_fresh:
  assumes inv: "wheel_inv w" and fresh: "wheel_fresh w" and cu: "caught_up w now" and t: "now \<le> t"
  shows "wheel_fresh (scheduled k t w)"
  unfolding wheel_fresh_def
proof (intro allI impI)
  fix k' d assume d': "deadline (scheduled k t w) k' = Some d"
  have n: "0 < bucket_count w" using wheel_inv_pos [OF inv] by blast
  have l: "last_processed_tick (scheduled k t w) = last_processed_tick w"
    using cu by (simp add: schedule_last [OF inv] caught_up_def)
  have c: "bucket_count (scheduled k t w) = bucket_count w"
    using schedule_eq [OF inv, of k t] schedule_base_props(4) [OF inv] by auto
  have "last_processed_tick w < tick_at (schedule_base t w) d + bucket_count w"
  proof (cases "k' = k")
    case False
    then have d: "deadline w k' = Some d" using d' by (simp add: deadline_schedule [OF inv])
    then obtain t1 where "origin_timestamp w = Some t1" using deadline_origin [OF inv] by blast
    from tick_at_base_mono [OF inv this, of d t] wheel_freshD [OF fresh d] show ?thesis by linarith
  next
    case True
    then have [simp]: "d = t" using d' by (simp add: deadline_schedule [OF inv])
    obtain t0 where t0: "origin_timestamp (schedule_base t w) = Some t0" "t0 \<le> t"
      using schedule_base_props(6) [OF inv] by blast
    then have pos: "0 \<le> tick_at (schedule_base t w) t"
      using wheel_inv_pos [OF inv] schedule_base_props(3) [OF inv, of t] by (simp add: tick_at_eq)
    show ?thesis
    proof (cases "origin_timestamp w")
      case None
      with cu pos n show ?thesis by (simp add: caught_up_def)
    next
      case (Some t1)
      then have "last_processed_tick w \<le> max (- 1) (tick_at w now)"
        using cu by (simp add: caught_up_def)
      moreover have "tick_at w now \<le> tick_at (schedule_base t w) t"
        using tick_at_mono [OF inv t] tick_at_base_mono [OF inv Some, of t t] by linarith
      ultimately show ?thesis using pos n by simp
    qed
  qed
  then show "last_processed_tick (scheduled k t w) <
      tick_at (scheduled k t w) d + bucket_count (scheduled k t w)"
    by (simp add: l c tick_at_schedule [OF inv])
qed

lemma schedule_caught_up:
  assumes inv: "wheel_inv w" and cu: "caught_up w now"
  shows "caught_up (scheduled k t w) now"
proof -
  obtain t0 where t0: "origin_timestamp (schedule_base t w) = Some t0"
    using schedule_base_props(6) [OF inv] by blast
  have o: "origin_timestamp (scheduled k t w) = Some t0"
    using schedule_eq [OF inv, of k t] t0 by auto
  have l: "last_processed_tick (scheduled k t w) = last_processed_tick w"
    using cu by (simp add: schedule_last [OF inv] caught_up_def)
  show ?thesis
  proof (cases "origin_timestamp w")
    case None
    with cu show ?thesis by (simp add: caught_up_def o l)
  next
    case (Some t1)
    with tick_at_base_mono [OF inv Some, of now t] cu show ?thesis
      by (auto simp: caught_up_def o l tick_at_schedule [OF inv])
  qed
qed

section \<open>Properties of the wheel\<close>

text \<open>
  The concrete wheel of the witnesses: four buckets of a tenth of a second, origin 0, and one
  key whose deadline lies in the middle of tick 1.
\<close>

definition sample_wheel :: TimingWheel where
  "sample_wheel = snd (schedule (lit ''k'') (3 / 20)
     (snd (pop_due 0 \<lparr>tick_seconds = 1 / 10, bucket_count = 4, buckets = replicate 4 [],
        entries_by_key = [], last_processed_tick = -1, origin_timestamp = None\<rparr>)))"

lemma sample_wheel_inv: "wheel_inv sample_wheel"
proof -
  let ?w = "\<lparr>tick_seconds = 1 / 10, bucket_count = 4, buckets = replicate 4 [],
    entries_by_key = [], last_processed_tick = -1, origin_timestamp = None\<rparr>"
  have "TimingWheel_init (1 / 10) 4 = Inr ?w" by (simp add: TimingWheel_init_def)
  then have "wheel_inv ?w" using TimingWheel_init_inv by blast
  then have "wheel_inv (snd (pop_due 0 ?w))"
    by (rule wheel.invar_drain) (rule surjective_pairing)
  then show ?thesis unfolding sample_wheel_def by (rule wheel.invar_sched)
qed

lemma sample_wheel_facts:
  "deadline sample_wheel (lit ''k'') = Some (3 / 20)" "tick_at sample_wheel (3 / 20) = 1"
  "tick_at sample_wheel (3 / 25) = 1" "tick_at sample_wheel (2 / 5) = 4"
  "last_processed_tick sample_wheel = 0" "bucket_count sample_wheel = 4"
  "tick_seconds sample_wheel = 1 / 10" "map fst (entries_by_key sample_wheel) = [lit ''k'']"
  by code_simp+

lemma sample_wheel_fresh: "wheel_fresh sample_wheel"
proof -
  have "k = lit ''k''" if "deadline sample_wheel k = Some d" for k d
  proof -
    have "k \<in> set (map fst (entries_by_key sample_wheel))"
      using that by (force simp: deadline_Some_iff dest: map_of_SomeD)
    then show ?thesis unfolding sample_wheel_facts by (simp del: lit_Cons)
  qed
  then have d: "d = 3 / 20" if "deadline sample_wheel k = Some d" for k d
    using that sample_wheel_facts(1) by fastforce
  show ?thesis
    unfolding wheel_fresh_def
  proof (intro allI impI)
    fix k d assume "deadline sample_wheel k = Some d"
    then have d': "d = 3 / 20" by (rule d)
    show "last_processed_tick sample_wheel < tick_at sample_wheel d + bucket_count sample_wheel"
      unfolding d' by (simp add: sample_wheel_facts(2,5,6))
  qed
qed

lemma timer_mem_due_iff:
  assumes inv: "wheel_inv w" and pop: "pop_due now w = (due, w')"
  shows "\<lparr>timer_key = k, timer_expires_at = d\<rparr> \<in> set due \<longleftrightarrow>
    deadline w k = Some d \<and> k \<in> timer_key ` set due"
proof
  assume "\<lparr>timer_key = k, timer_expires_at = d\<rparr> \<in> set due"
  then show "deadline w k = Some d \<and> k \<in> timer_key ` set due"
    using wheel.drain_sound [OF inv pop] by force
next
  assume d: "deadline w k = Some d \<and> k \<in> timer_key ` set due"
  then obtain te where te: "te \<in> set due" "timer_key te = k" by blast
  then have "timer_expires_at te = d" using wheel.drain_sound [OF inv pop te(1)] d by simp
  with te have "te = \<lparr>timer_key = k, timer_expires_at = d\<rparr>" by simp
  with te(1) show "\<lparr>timer_key = k, timer_expires_at = d\<rparr> \<in> set due" by simp
qed

text \<open>
  C10: \<open>pop_due\<close> on a well-formed wheel keeps it well formed, returns a list sorted by
  deadline with no key twice, and forgets exactly the keys it returns. A key with deadline
  \<open>d\<close> is returned iff \<open>d \<le> now\<close> and some tick after the last processed one, up to the
  tick of \<open>now\<close> and not before the tick of \<open>d\<close>, falls into the bucket of \<open>d\<close>.
\<close>
theorem pop_due_spec:
  assumes "wheel_inv w" and "pop_due now w = (due, w')"
  shows "wheel_inv w' \<and> sorted (map timer_expires_at due) \<and> distinct (map timer_key due) \<and>
    (\<forall>k. deadline w' k = (if k \<in> timer_key ` set due then None else deadline w k)) \<and>
    (\<forall>k d. \<lparr>timer_key = k, timer_expires_at = d\<rparr> \<in> set due \<longleftrightarrow>
       deadline w k = Some d \<and> d \<le> now \<and>
       (\<exists>t. last_processed_tick w < t \<and> t \<le> tick_at w now \<and> tick_at w d \<le> t \<and>
          t mod bucket_count w = tick_at w d mod bucket_count w))"
proof -
  have "\<lparr>timer_key = k, timer_expires_at = d\<rparr> \<in> set due \<longleftrightarrow>
      deadline w k = Some d \<and> d \<le> now \<and>
      (\<exists>t. last_processed_tick w < t \<and> t \<le> tick_at w now \<and> tick_at w d \<le> t \<and>
         t mod bucket_count w = tick_at w d mod bucket_count w)" for k d
    using timer_mem_due_iff [OF assms] pop_due_returns_iff [OF assms] by blast
  moreover have "deadline w' k = (if k \<in> timer_key ` set due then None else deadline w k)" for k
    by (simp add: wheel.drain_forgets [OF assms])
  ultimately show ?thesis
    using wheel.invar_drain [OF assms] wheel.drain_sorted [OF assms] wheel.drain_distinct [OF assms]
    by blast
qed

theorem pop_due_spec_witness:
  "sorted (map timer_expires_at (fst (pop_due (1 / 5) sample_wheel))) \<and>
   \<lparr>timer_key = lit ''k'', timer_expires_at = 3 / 20\<rparr> \<in> set (fst (pop_due (1 / 5) sample_wheel))"
proof -
  have "(\<exists>t. last_processed_tick sample_wheel < t \<and> t \<le> tick_at sample_wheel (1 / 5) \<and>
      tick_at sample_wheel (3 / 20) \<le> t \<and>
      t mod bucket_count sample_wheel = tick_at sample_wheel (3 / 20) mod bucket_count sample_wheel)"
    using tick_at_mono [OF sample_wheel_inv, of "3 / 20" "1 / 5"]
    by (intro exI [of _ 1]) (simp add: sample_wheel_facts)
  then show ?thesis
    using pop_due_spec [OF sample_wheel_inv surjective_pairing, of "1 / 5"] sample_wheel_facts(1)
    by simp
qed


lemma drain_prompt:
  assumes "wheel_inv w" and "pop_due now w = (due, w')"
    and "deadline w k = Some d" and "d \<le> now" and "last_processed_tick w < tick_at w d"
  shows "\<lparr>timer_key = k, timer_expires_at = d\<rparr> \<in> set due \<and> deadline w' k = None"
proof -
  have "tick_at w d \<le> tick_at w now" using tick_at_mono assms(1,4) by blast
  then have "k \<in> timer_key ` set due"
    using pop_due_returns_iff [OF assms(1,2,3)] assms(4,5) by blast
  then show ?thesis
    using timer_mem_due_iff [OF assms(1,2)] wheel.drain_forgets [OF assms(1,2)] assms(3) by simp
qed

text \<open>
  A due key whose tick has not been processed yet is returned by the very next call of
  \<open>pop_due\<close>, however far the clock has advanced.
\<close>
theorem pop_due_prompt:
  assumes "wheel_inv w" and "pop_due now w = (due, w')"
    and "deadline w k = Some d" and "d \<le> now" and "last_processed_tick w < tick_at w d"
  shows "\<lparr>timer_key = k, timer_expires_at = d\<rparr> \<in> set due \<and> deadline w' k = None"
  using assms by (rule drain_prompt)

theorem pop_due_prompt_witness:
  "\<lparr>timer_key = lit ''k'', timer_expires_at = 3 / 20\<rparr> \<in> set (fst (pop_due 7 sample_wheel))"
  using pop_due_prompt [OF sample_wheel_inv surjective_pairing sample_wheel_facts(1), of 7]
  by (simp add: sample_wheel_facts)


lemma drain_lateness:
  assumes "wheel_inv w" and "wheel_fresh w" and "pop_due now w = (due, w')"
    and "deadline w' k = Some d"
  shows "wheel_fresh w' \<and> now - d < of_int (bucket_count w) * tick_seconds w"
proof -
  have fresh: "wheel_fresh w'" using assms(1-3) by (rule pop_due_fresh)
  have d: "deadline w k = Some d"
    using assms(4) by (auto simp: wheel.drain_forgets [OF assms(1,3)] restrict_map_def split: if_splits)
  obtain t0 where t0: "origin_timestamp w = Some t0" using deadline_origin [OF assms(1) d] by blast
  note w' = pop_due_effect(6-9) [OF assms(1,3)]
  have ts: "0 < tick_seconds w" using wheel_inv_pos [OF assms(1)] by blast
  have "tick_at w now < tick_at w d + bucket_count w"
    using wheel_freshD [OF fresh assms(4)] t0 by (simp add: tick_at_eq w')
  then have "(now - t0) / tick_seconds w < (d - t0) / tick_seconds w + of_int (bucket_count w)"
    using t0 by (simp add: tick_at_eq) linarith
  then have "(now - t0) / tick_seconds w * tick_seconds w <
      ((d - t0) / tick_seconds w + of_int (bucket_count w)) * tick_seconds w"
    using ts by (rule mult_strict_right_mono)
  then have "now - t0 < d - t0 + of_int (bucket_count w) * tick_seconds w"
    using ts by (simp add: distrib_right)
  with fresh show ?thesis by simp
qed

text \<open>
  The wheel is late by less than one turn. Whatever key is still scheduled after
  \<open>pop_due now\<close> has a deadline after \<open>now - bucket_count * tick_seconds\<close>, provided no
  deadline was more than a turn behind before the call; the call preserves that proviso.
\<close>
theorem pop_due_lateness:
  assumes "wheel_inv w" and "wheel_fresh w" and "pop_due now w = (due, w')"
    and "deadline w' k = Some d"
  shows "wheel_fresh w' \<and> now - d < of_int (bucket_count w) * tick_seconds w"
  using assms by (rule drain_lateness)

theorem pop_due_lateness_witness:
  "deadline (snd (pop_due (3 / 25) sample_wheel)) (lit ''k'') = Some (3 / 20) \<and>
   wheel_fresh (snd (pop_due (3 / 25) sample_wheel)) \<and> (3 / 25 :: rat) - 3 / 20 < 4 * (1 / 10)"
proof -
  have d: "deadline (snd (pop_due (3 / 25) sample_wheel)) (lit ''k'') = Some (3 / 20)"
    by code_simp
  show ?thesis
    using pop_due_lateness [OF sample_wheel_inv sample_wheel_fresh surjective_pairing d] d by simp
qed


text \<open>A sequence of calls of \<open>pop_due\<close>, with what each of them returns.\<close>

primrec pop_due_calls :: "rat list \<Rightarrow> TimingWheel \<Rightarrow> TimerEntry list list \<times> TimingWheel" where
  "pop_due_calls [] w = ([], w)"
| "pop_due_calls (now # nows) w =
     (let (due, w1) = pop_due now w; (dues, w2) = pop_due_calls nows w1 in (due # dues, w2))"

lemma drain_skips_visited:
  assumes inv: "wheel_inv w" and d: "deadline w k = Some d" and pop: "pop_due now w = (due, w')"
    and past: "tick_at w d \<le> last_processed_tick w" and turn: "tick_at w now < tick_at w d + bucket_count w"
  shows "k \<notin> timer_key ` set due" and "deadline w' k = Some d"
proof -
  have "\<not> (last_processed_tick w < t \<and> t \<le> tick_at w now \<and>
      t mod bucket_count w = tick_at w d mod bucket_count w)" for t
  proof
    assume t: "last_processed_tick w < t \<and> t \<le> tick_at w now \<and>
      t mod bucket_count w = tick_at w d mod bucket_count w"
    then have "0 < t - tick_at w d" and "t - tick_at w d < bucket_count w" using past turn by auto
    moreover have "bucket_count w dvd t - tick_at w d" using t by (simp add: mod_eq_dvd_iff)
    ultimately show False using zdvd_not_zless by blast
  qed
  then show "k \<notin> timer_key ` set due" using pop_due_returns_iff [OF inv pop d] by blast
  then show "deadline w' k = Some d" using d wheel.drain_forgets [OF inv pop] by simp
qed

lemma drains_skip_visited:
  assumes "wheel_inv w" and "deadline w k = Some d" and "tick_at w d \<le> last_processed_tick w"
    and "\<forall>now \<in> set nows. tick_at w now < tick_at w d + bucket_count w"
    and "pop_due_calls nows w = (dues, w')"
  shows "(\<forall>due \<in> set dues. k \<notin> timer_key ` set due) \<and> deadline w' k = Some d"
  using assms
proof (induction nows arbitrary: w dues)
  case (Cons now nows)
  obtain due w1 where pop: "pop_due now w = (due, w1)" by fastforce
  obtain dues1 where rest: "pop_due_calls nows w1 = (dues1, w')" and dues: "dues = due # dues1"
    using Cons.prems(5) pop by (cases "pop_due_calls nows w1") simp
  obtain t0 where t0: "origin_timestamp w = Some t0" using deadline_origin Cons.prems(1,2) by blast
  note eff = pop_due_effect [OF Cons.prems(1) pop]
  have tick: "tick_at w1 x = tick_at w x" for x by (simp add: tick_at_eq eff(7,9) t0)
  note S = drain_skips_visited [OF Cons.prems(1,2) pop Cons.prems(3)]
  have "\<forall>now \<in> set nows. tick_at w1 now < tick_at w1 d + bucket_count w1"
    using Cons.prems(4) by (simp add: tick eff(8))
  moreover have "tick_at w1 d \<le> last_processed_tick w1" using Cons.prems(3) by (simp add: tick eff(6))
  ultimately have "(\<forall>due \<in> set dues1. k \<notin> timer_key ` set due) \<and> deadline w' k = Some d"
    using Cons.IH [OF eff(1) _ _ _ rest] S(2) Cons.prems(4) by simp
  then show ?case using S(1) Cons.prems(4) dues by simp
qed simp

lemma early_call_visits:
  assumes inv: "wheel_inv w" and d: "deadline w k = Some d"
    and early: "pop_due now w = (due, w')" "now < d" "tick_at w now = tick_at w d"
  shows "wheel_inv w'" and "k \<notin> timer_key ` set due" and "deadline w' k = Some d"
    and "tick_at w' x = tick_at w x" and "bucket_count w' = bucket_count w"
    and "tick_at w' d \<le> last_processed_tick w'"
proof -
  obtain t0 where t0: "origin_timestamp w = Some t0" using deadline_origin [OF inv d] by blast
  note eff = pop_due_effect [OF inv early(1)]
  show "wheel_inv w'" by (rule eff)
  show tick: "tick_at w' x = tick_at w x" for x by (simp add: tick_at_eq eff(7,9) t0)
  show "k \<notin> timer_key ` set due" using pop_due_returns_iff [OF inv early(1) d] early(2) by simp
  then show "deadline w' k = Some d" using d wheel.drain_forgets [OF inv early(1)] by simp
  show "bucket_count w' = bucket_count w" by (rule eff)
  show "tick_at w' d \<le> last_processed_tick w'" using early(3) by (simp add: tick eff(6))
qed

lemma drain_misses_key:
  assumes inv: "wheel_inv w" and d: "deadline w k = Some d"
    and early: "pop_due now0 w = (due0, w0)" "now0 < d" "tick_at w now0 = tick_at w d"
    and late: "pop_due now1 w0 = (due1, w1)" "tick_at w now1 < tick_at w d + bucket_count w"
  shows "k \<notin> timer_key ` set due0 \<and> k \<notin> timer_key ` set due1 \<and> deadline w1 k = Some d"
  using early_call_visits [OF inv d early] drain_skips_visited [OF _ _ late(1)] late(2) by metis

text \<open>
  C40: a key can be missed. If a call of \<open>pop_due\<close> falls into the tick of a key's deadline but
  before the deadline itself, then neither it nor any of the calls that follow it returns the key,
  however many they are and in whatever order their readings come, as long as none of them reads
  a whole turn of the wheel past that tick; the key stays scheduled, although it may be due all
  that time.
\<close>
theorem due_key_missed_for_a_turn:
  assumes inv: "wheel_inv w" and d: "deadline w k = Some d"
    and early: "pop_due now w = (due, w0)" "now < d" "tick_at w now = tick_at w d"
    and late: "pop_due_calls nows w0 = (dues, w1)"
      "\<forall>now1 \<in> set nows. tick_at w now1 < tick_at w d + bucket_count w"
  shows "(\<forall>due1 \<in> set (due # dues). k \<notin> timer_key ` set due1) \<and> deadline w1 k = Some d"
proof -
  note E = early_call_visits [OF inv d early]
  have "\<forall>now1 \<in> set nows. tick_at w0 now1 < tick_at w0 d + bucket_count w0"
    using late(2) by (simp add: E(4,5))
  from drains_skip_visited [OF E(1,3,6) this late(1)] E(2) show ?thesis by simp
qed

text \<open>The deadline 0.15 is read at 0.12 and then, when it has passed, three times up to 0.4.\<close>

theorem due_key_missed_witness:
  "let w0 = snd (pop_due (3 / 25) sample_wheel); (dues, w1) = pop_due_calls [1 / 5, 3 / 10, 2 / 5] w0
   in dues = [[], [], []] \<and> deadline w1 (lit ''k'') = Some (3 / 20)"
proof -
  let ?nows = "[1 / 5, 3 / 10, 2 / 5] :: rat list"
  let ?p = "pop_due_calls ?nows (snd (pop_due (3 / 25) sample_wheel))"
  have t: "\<forall>now1 \<in> set ?nows. tick_at sample_wheel now1 <
      tick_at sample_wheel (3 / 20) + bucket_count sample_wheel"
    and dues: "fst ?p = [[], [], []]"
    by code_simp+
  have "(3 / 25 :: rat) < 3 / 20" "tick_at sample_wheel (3 / 25) = tick_at sample_wheel (3 / 20)"
    by (simp_all add: sample_wheel_facts)
  from due_key_missed_for_a_turn [OF sample_wheel_inv sample_wheel_facts(1)
      surjective_pairing [of "pop_due (3 / 25) sample_wheel"] this
      surjective_pairing [of ?p] t] dues
  show ?thesis by (simp add: case_prod_beta Let_def del: lit_Cons pop_due_calls.simps)
qed


text \<open>
  \<open>schedule\<close> gives a key its new deadline, whether or not that lies before the wheel's origin, or
  raises \<open>OverflowError\<close> and schedules nothing when it lies too far ahead of it; \<open>cancel\<close> removes a
  deadline. Both change that key only and keep the wheel well formed. So the latest deadline
  of a key that was accepted is the only one it has.
\<close>
theorem schedule_cancel_spec:
  assumes "wheel_inv w"
  shows "wheel_inv (snd (schedule k t w)) \<and>
    fst (schedule k t w) = (if too_far w t then Inl OverflowError else Inr ()) \<and>
    deadline (snd (schedule k t w)) = (if too_far w t then deadline w else (deadline w)(k \<mapsto> t)) \<and>
    wheel_inv (cancel k w) \<and> deadline (cancel k w) = (deadline w)(k := None)"
  using wheel.invar_sched wheel.sched_result wheel.invar_unsched wheel.due_time_sched
    wheel.due_time_unsched assms
  by simp

theorem schedule_cancel_spec_witness:
  "fst (schedule (lit ''k'') (10 ^ 308) sample_wheel) = Inl OverflowError \<and>
   deadline (cancel (lit ''k'') sample_wheel) (lit ''k'') = None"
proof -
  have o: "origin_timestamp sample_wheel = Some 0" "tick_seconds sample_wheel = 1 / 10"
    by code_simp+
  have "too_far sample_wheel (10 ^ 308)"
    by (simp add: too_far_def o float_overflows_def float_int_limit_def)
  then show ?thesis
    using schedule_cancel_spec [OF sample_wheel_inv, of "lit ''k''" "10 ^ 308"] by simp
qed

end
