(* ===== verification/Pystr.thy ===== *)
theory Pystr
  imports Prelude
begin

text \<open>
  The \<open>str\<close> and \<open>int\<close> functions of Python's library that the program uses: white space,
  \<open>strip\<close>, \<open>split\<close>, \<open>upper\<close>, \<open>int(text)\<close> and \<open>str(number)\<close>, on strings as code point
  lists.

  Two of them consult the Unicode character database, which depends on the interpreter's
  version: upper-casing and the decimal digits beyond ASCII. Those two tables are a parameter
  (\<open>unicode_db\<close>); everything about ASCII is written out, and so is the white space set,
  which is the same in all supported versions.
\<close>

record unicode_db =
  uni_upper :: "nat \<Rightarrow> pystr"
  uni_decimal :: "nat \<Rightarrow> nat option"

section \<open>White space, strip and split\<close>

definition py_isspace :: "nat \<Rightarrow> bool" where
  "py_isspace c \<longleftrightarrow> (9 \<le> c \<and> c \<le> 13) \<or> (28 \<le> c \<and> c \<le> 32) \<or> c = 133 \<or> c = 160 \<or> c = 5760 \<or>
     (8192 \<le> c \<and> c \<le> 8202) \<or> c = 8232 \<or> c = 8233 \<or> c = 8239 \<or> c = 8287 \<or> c = 12288"

definition py_strip :: "pystr \<Rightarrow> pystr" where
  "py_strip s = rev (dropWhile py_isspace (rev (dropWhile py_isspace s)))"

lemma dropWhile_word_shorter:
  assumes "dropWhile py_isspace s \<noteq> []"
  shows "length (dropWhile (\<lambda>c. \<not> py_isspace c) (dropWhile py_isspace s)) < length s"
proof -
  obtain c cs where c: "dropWhile py_isspace s = c # cs" using assms by (cases "dropWhile py_isspace s") auto
  then have "\<not> py_isspace c" using hd_dropWhile [of py_isspace s] by simp
  then have "length (dropWhile (\<lambda>c. \<not> py_isspace c) (c # cs)) \<le> length cs"
    by (simp add: length_dropWhile_le)
  also have "length cs < length s" using length_dropWhile_le [of py_isspace s] c by simp
  finally show ?thesis using c by simp
qed

text \<open>\<open>s.split()\<close> and \<open>s.split(maxsplit=n)\<close> (the rest keeps its inner and trailing space).\<close>

function py_split :: "pystr \<Rightarrow> pystr list" where
  "py_split s =
     (let t = dropWhile py_isspace s in
      if t = [] then []
      else takeWhile (\<lambda>c. \<not> py_isspace c) t # py_split (dropWhile (\<lambda>c. \<not> py_isspace c) t))"
  by pat_completeness auto

termination
  by (relation "measure length") (auto simp: dropWhile_word_shorter)

primrec py_split_max :: "nat \<Rightarrow> pystr \<Rightarrow> pystr list" where
  "py_split_max 0 s = (let t = dropWhile py_isspace s in if t = [] then [] else [t])"
| "py_split_max (Suc n) s =
     (let t = dropWhile py_isspace s in
      if t = [] then []
      else takeWhile (\<lambda>c. \<not> py_isspace c) t # py_split_max n (dropWhile (\<lambda>c. \<not> py_isspace c) t))"

declare py_split.simps [simp del]

text \<open>A word: what \<open>split\<close> returns, and what a key of the text protocol is.\<close>

definition is_word :: "pystr \<Rightarrow> bool" where
  "is_word s \<longleftrightarrow> s \<noteq> [] \<and> (\<forall>c \<in> set s. \<not> py_isspace c)"

text \<open>A trimmed text: not empty and with no white space at either end.\<close>

definition is_trimmed :: "pystr \<Rightarrow> bool" where
  "is_trimmed s \<longleftrightarrow> s \<noteq> [] \<and> \<not> py_isspace (hd s) \<and> \<not> py_isspace (last s)"

lemma word_trimmed: "is_word s \<Longrightarrow> is_trimmed s"
  by (simp add: is_word_def is_trimmed_def)

lemma py_isspace_space [simp]: "py_isspace 32" by (simp add: py_isspace_def)

lemma dropWhile_trimmed [simp]: "is_trimmed s \<Longrightarrow> dropWhile py_isspace s = s"
  by (cases s) (auto simp: is_trimmed_def)

lemma trimmed_append:
  "is_trimmed a \<Longrightarrow> is_trimmed b \<Longrightarrow> is_trimmed (a @ x @ b)"
  by (auto simp: is_trimmed_def)

lemma py_strip_trimmed [simp]: "is_trimmed s \<Longrightarrow> py_strip s = s"
proof -
  assume s: "is_trimmed s"
  then have "is_trimmed (rev s)" by (auto simp: is_trimmed_def hd_rev last_rev)
  with s show ?thesis by (simp add: py_strip_def)
qed

lemma py_strip_spaces_end:
  assumes "is_trimmed s" and "\<forall>c \<in> set ws. py_isspace c"
  shows "py_strip (s @ ws) = s"
proof -
  have "dropWhile py_isspace (s @ ws) = s @ ws"
    using assms(1) by (cases s) (auto simp: is_trimmed_def)
  moreover have "dropWhile py_isspace (rev ws @ rev s) = rev s"
  proof -
    have "is_trimmed (rev s)" using assms(1) by (auto simp: is_trimmed_def hd_rev last_rev)
    moreover have "dropWhile py_isspace (rev ws @ rev s) = dropWhile py_isspace (rev s)"
      by (rule dropWhile_append2) (use assms(2) in auto)
    ultimately show ?thesis by simp
  qed
  ultimately show ?thesis by (simp add: py_strip_def)
qed

lemma py_strip_result: "py_strip s = [] \<or> is_trimmed (py_strip s)"
proof (cases "py_strip s = []")
  case False
  let ?t = "dropWhile py_isspace s"
  let ?r = "dropWhile py_isspace (rev ?t)"
  have r: "?r \<noteq> []" using False by (simp add: py_strip_def)
  then have t: "?t \<noteq> []" by (intro notI) simp
  have "\<not> py_isspace (hd ?r)" using r by (rule hd_dropWhile)
  moreover have "last ?r = last (rev ?t)" using r by (metis append_is_Nil_conv last_appendR takeWhile_dropWhile_id)
  then have "last ?r = hd ?t" using t by (simp add: last_rev)
  moreover have "\<not> py_isspace (hd ?t)" using t by (rule hd_dropWhile)
  ultimately show ?thesis using r by (simp add: py_strip_def is_trimmed_def hd_rev last_rev)
qed simp

lemma set_py_strip: "set (py_strip s) \<subseteq> set s"
  by (auto simp: py_strip_def dest!: set_dropWhileD)

text \<open>Splitting a word off the front.\<close>

lemma takeWhile_word [simp]:
  "is_word w \<Longrightarrow> py_isspace c \<Longrightarrow> takeWhile (\<lambda>c. \<not> py_isspace c) (w @ c # r) = w"
  "is_word w \<Longrightarrow> takeWhile (\<lambda>c. \<not> py_isspace c) w = w"
  by (simp_all add: is_word_def takeWhile_append2)

lemma dropWhile_word [simp]:
  "is_word w \<Longrightarrow> py_isspace c \<Longrightarrow> dropWhile (\<lambda>c. \<not> py_isspace c) (w @ c # r) = c # r"
  "is_word w \<Longrightarrow> dropWhile (\<lambda>c. \<not> py_isspace c) w = []"
  by (simp_all add: is_word_def dropWhile_append2)

lemma dropWhile_word_front [simp]: "is_word w \<Longrightarrow> dropWhile py_isspace (w @ r) = w @ r"
  by (cases w) (auto simp: is_word_def)

lemma is_word_nonempty [simp]: "is_word w \<Longrightarrow> w \<noteq> []"
  by (simp add: is_word_def)

lemma py_split_word: "is_word w \<Longrightarrow> py_split w = [w]"
  using dropWhile_word_front [of w "[]"] by (simp add: py_split.simps [of w] py_split.simps [of "[]"])

lemma py_split_Cons_word:
  "is_word w \<Longrightarrow> py_split (w @ 32 # r) = w # py_split r"
  by (simp add: py_split.simps [of "w @ 32 # r"] py_split.simps [of "32 # r"] py_split.simps [of r])

lemma py_split_words: "w \<in> set (py_split s) \<Longrightarrow> is_word w \<and> set w \<subseteq> set s"
proof (induction s rule: py_split.induct)
  case (1 s)
  let ?t = "dropWhile py_isspace s"
  have eq: "py_split s = (if ?t = [] then [] else takeWhile (\<lambda>c. \<not> py_isspace c) ?t #
      py_split (dropWhile (\<lambda>c. \<not> py_isspace c) ?t))"
    by (subst py_split.simps) (simp only: Let_def)
  have t: "?t \<noteq> []"
  proof
    assume "?t = []"
    then have "py_split s = []" unfolding eq by (rule if_P)
    with "1.prems" show False by simp
  qed
  have sub: "set ?t \<subseteq> set s" by (auto dest: set_dropWhileD)
  consider "w = takeWhile (\<lambda>c. \<not> py_isspace c) ?t"
    | "w \<in> set (py_split (dropWhile (\<lambda>c. \<not> py_isspace c) ?t))"
    using "1.prems" unfolding eq using t by (simp only: if_False set_simps insert_iff) blast
  then show ?case
  proof cases
    case 1
    have "\<not> py_isspace (hd ?t)" using t by (rule hd_dropWhile)
    with t have "w \<noteq> []" unfolding 1 by (cases ?t) auto
    moreover have "\<not> py_isspace c \<and> c \<in> set ?t" if "c \<in> set w" for c
      using that unfolding 1 by (rule set_takeWhileD [THEN conj_commute [THEN iffD1]])
    ultimately show ?thesis using sub by (auto simp: is_word_def)
  next
    case 2
    then have "is_word w \<and> set w \<subseteq> set (dropWhile (\<lambda>c. \<not> py_isspace c) ?t)"
      using "1.IH" [OF refl t] by blast
    then show ?thesis using sub by (auto dest: set_dropWhileD)
  qed
qed

text \<open>The parts of a bounded split of a text that does not end in white space.\<close>

lemma takeWhile_is_word:
  "dropWhile py_isspace s \<noteq> [] \<Longrightarrow> is_word (takeWhile (\<lambda>c. \<not> py_isspace c) (dropWhile py_isspace s))"
proof -
  assume ne: "dropWhile py_isspace s \<noteq> []"
  then obtain c cs where c: "dropWhile py_isspace s = c # cs" by (meson neq_Nil_conv)
  then have "\<not> py_isspace c" using hd_dropWhile [OF ne] by simp
  then show ?thesis unfolding c by (auto simp: is_word_def dest: set_takeWhileD)
qed

lemma last_dropWhile: "dropWhile P s \<noteq> [] \<Longrightarrow> last (dropWhile P s) = last s"
  by (metis dropWhile_eq_drop drop_eq_Nil last_drop not_le)

lemma py_split_max_parts:
  assumes "s = [] \<or> \<not> py_isspace (last s)"
  shows "length (py_split_max n s) \<le> Suc n \<and>
    (\<forall>w \<in> set (py_split_max n s). is_trimmed w \<and> set w \<subseteq> set s) \<and>
    (\<forall>i < n. i < length (py_split_max n s) \<longrightarrow> is_word (py_split_max n s ! i))"
  using assms
proof (induction n arbitrary: s)
  case 0
  let ?t = "dropWhile py_isspace s"
  have "is_trimmed ?t" if "?t \<noteq> []"
    using 0 that last_dropWhile [OF that] hd_dropWhile [OF that] by (auto simp: is_trimmed_def)
  then show ?case by (auto simp: Let_def dest: set_dropWhileD)
next
  case (Suc n)
  let ?t = "dropWhile py_isspace s"
  let ?w = "takeWhile (\<lambda>c. \<not> py_isspace c) ?t"
  let ?r = "dropWhile (\<lambda>c. \<not> py_isspace c) ?t"
  show ?case
  proof (cases "?t = []")
    case False
    have w: "is_word ?w" using False by (rule takeWhile_is_word)
    have "?r = [] \<or> \<not> py_isspace (last ?r)"
      using Suc.prems False last_dropWhile [of _ ?t] last_dropWhile [OF False] by fastforce
    note IH = Suc.IH [OF this]
    have sub: "set ?w \<subseteq> set s" "set ?r \<subseteq> set s"
      by (auto dest!: set_takeWhileD set_dropWhileD)
    have eq: "py_split_max (Suc n) s = ?w # py_split_max n ?r" using False by (simp add: Let_def)
    obtain r where r: "py_split_max n ?r = r" by blast
    have IH': "length r \<le> Suc n" "\<forall>x \<in> set r. is_trimmed x \<and> set x \<subseteq> set ?r"
      "\<forall>i < n. i < length r \<longrightarrow> is_word (r ! i)"
      using IH unfolding r by blast+
    have "\<forall>x \<in> set (?w # r). is_trimmed x \<and> set x \<subseteq> set s"
      using IH'(2) word_trimmed [OF w] sub by fastforce
    moreover have "is_word ((?w # r) ! i)" if "i < Suc n" "i < length (?w # r)" for i
      using IH'(3) w that by (cases i) simp_all
    moreover have "length (?w # r) \<le> Suc (Suc n)" using IH'(1) by simp
    ultimately show ?thesis unfolding eq r by blast
  qed (simp add: Let_def)
qed

text \<open>Words joined by single spaces are split again, and a trailing text is kept whole.\<close>

fun join_words :: "pystr list \<Rightarrow> pystr" where
  "join_words [] = []"
| "join_words [w] = w"
| "join_words (w # ws) = w @ 32 # join_words ws"

lemma py_split_join: "\<forall>w \<in> set ws. is_word w \<Longrightarrow> py_split (join_words ws) = ws"
  by (induction ws rule: join_words.induct)
    (simp_all add: py_split_word py_split_Cons_word py_split.simps [of "[]"])

lemma dropWhile_space_trimmed: "is_trimmed r \<Longrightarrow> dropWhile py_isspace (32 # r) = r"
  by simp

lemma py_split_max_word: "is_word w \<Longrightarrow> py_split_max (Suc n) w = [w]"
proof -
  assume w: "is_word w"
  have "py_split_max n [] = []" by (cases n) simp_all
  with w dropWhile_word_front [OF w, of "[]"] show ?thesis by (simp add: Let_def)
qed

lemma py_split_max_Cons:
  "is_word w \<Longrightarrow> py_split_max (Suc n) (w @ 32 # r) = w # py_split_max n (32 # r)"
  by (simp add: Let_def)

lemma py_split_max_drop: "py_split_max n (32 # r) = py_split_max n r"
  by (cases n) simp_all

lemma py_split_max_0_trimmed: "is_trimmed r \<Longrightarrow> py_split_max 0 r = [r]"
  by (auto simp: Let_def is_trimmed_def)

lemma join_words_trimmed: "ws \<noteq> [] \<Longrightarrow> \<forall>w \<in> set ws. is_trimmed w \<Longrightarrow> is_trimmed (join_words ws)"
proof (induction ws rule: join_words.induct)
  case (3 v w ws)
  then show ?case using trimmed_append [of v "join_words (w # ws)" "[32]"] by simp
qed simp_all

lemma py_strip_spaces:
  assumes "is_trimmed s" and "\<forall>c \<in> set ws. py_isspace c" and "\<forall>c \<in> set ws'. py_isspace c"
  shows "py_strip (ws @ s @ ws') = s"
proof -
  have "dropWhile py_isspace (ws @ s @ ws') = dropWhile py_isspace (s @ ws')"
    using assms(2) by (simp add: dropWhile_append2)
  then have "py_strip (ws @ s @ ws') = py_strip (s @ ws')" by (simp add: py_strip_def)
  with py_strip_spaces_end [OF assms(1,3)] show ?thesis by simp
qed

section \<open>Upper case\<close>

definition py_upper_char :: "unicode_db \<Rightarrow> nat \<Rightarrow> pystr" where
  "py_upper_char U c =
     (if c < 128 then if 97 \<le> c \<and> c \<le> 122 then [c - 32] else [c] else uni_upper U c)"

definition py_upper :: "unicode_db \<Rightarrow> pystr \<Rightarrow> pystr" where
  "py_upper U s = concat (map (py_upper_char U) s)"

lemma py_upper_Nil [simp]: "py_upper U [] = []"
  by (simp add: py_upper_def)

lemma py_upper_Cons [simp]: "py_upper U (c # s) = py_upper_char U c @ py_upper U s"
  by (simp add: py_upper_def)

section \<open>Numbers as text\<close>

fun nat_digits :: "nat \<Rightarrow> pystr" where
  "nat_digits n = (if n < 10 then [48 + n] else nat_digits (n div 10) @ [48 + n mod 10])"

declare nat_digits.simps [simp del]

text \<open>\<open>str(n)\<close> for an integer.\<close>

definition py_str_int :: "int \<Rightarrow> pystr" where
  "py_str_int n = (if n < 0 then 45 # nat_digits (nat (- n)) else nat_digits (nat n))"

text \<open>
  \<open>int(text)\<close>: white space around an optional sign and decimal digits, single underscores
  between digits, and no more than 4300 digits; anything else raises \<open>ValueError\<close>.
\<close>

definition int_space :: "nat \<Rightarrow> bool" where
  "int_space c \<longleftrightarrow> (9 \<le> c \<and> c \<le> 13) \<or> c = 32 \<or> (128 \<le> c \<and> py_isspace c)"

definition digit_value :: "unicode_db \<Rightarrow> nat \<Rightarrow> nat option" where
  "digit_value U c =
     (if c < 128 then if 48 \<le> c \<and> c \<le> 57 then Some (c - 48) else None else uni_decimal U c)"

fun int_digits :: "unicode_db \<Rightarrow> pystr \<Rightarrow> nat list option" where
  "int_digits U [] = None"
| "int_digits U [c] = map_option (\<lambda>d. [d]) (digit_value U c)"
| "int_digits U (c # c' # cs) =
     (case digit_value U c of
        None \<Rightarrow> None
      | Some d \<Rightarrow> map_option ((#) d) (int_digits U (if c' = 95 then cs else c' # cs)))"

definition max_str_digits :: nat where
  "max_str_digits = 4300"

definition py_int :: "unicode_db \<Rightarrow> pystr \<Rightarrow> py_exn + int" where
  "py_int U s =
     (let t = rev (dropWhile int_space (rev (dropWhile int_space s)));
          (neg, u) = (case t of [] \<Rightarrow> (False, [])
                      | c # cs \<Rightarrow> if c = 45 then (True, cs) else if c = 43 then (False, cs)
                                  else (False, t))
      in case int_digits U u of
           None \<Rightarrow> Inl ValueError
         | Some ds \<Rightarrow>
             if length ds > max_str_digits then Inl ValueError
             else let n = int (foldl (\<lambda>a d. 10 * a + d) 0 ds) in Inr (if neg then - n else n))"

text \<open>
  An integer in a format string: the same digits as \<open>str\<close>, and \<open>ValueError\<close> when there are
  more than the interpreter's limit.
\<close>

definition py_format_int :: "int \<Rightarrow> py_exn + pystr" where
  "py_format_int n =
     (if length (nat_digits (nat \<bar>n\<bar>)) > max_str_digits then Inl ValueError else Inr (py_str_int n))"

lemma nat_digits_props:
  "nat_digits n \<noteq> [] \<and> (\<forall>c \<in> set (nat_digits n). 48 \<le> c \<and> c \<le> 57) \<and>
   foldl (\<lambda>a d. 10 * a + d) 0 (map (\<lambda>c. c - 48) (nat_digits n)) = n"
proof (induction n rule: nat_digits.induct)
  case (1 n)
  then show ?case by (cases "n < 10") (auto simp: nat_digits.simps [of n])
qed

lemma int_digits_ascii:
  "s \<noteq> [] \<Longrightarrow> \<forall>c \<in> set s. 48 \<le> c \<and> c \<le> 57 \<Longrightarrow> int_digits U s = Some (map (\<lambda>c. c - 48) s)"
  by (induction U s rule: int_digits.induct) (auto simp: digit_value_def)

lemma int_strip_digits:
  assumes "s \<noteq> []" and "\<forall>c \<in> set s. c = 45 \<or> 48 \<le> c \<and> c \<le> 57"
  shows "rev (dropWhile int_space (rev (dropWhile int_space s))) = s"
proof -
  have no: "\<not> int_space c" if "c \<in> set s" for c
    using assms(2) that by (auto simp: int_space_def)
  then have "dropWhile int_space s = s" and "dropWhile int_space (rev s) = rev s"
    using assms(1) by (auto simp: dropWhile_eq_self_iff hd_rev)
  then show ?thesis by simp
qed

text \<open>Printing a number and reading it back.\<close>

lemma py_int_str_int:
  assumes "length (nat_digits (nat \<bar>n\<bar>)) \<le> max_str_digits"
  shows "py_int U (py_str_int n) = Inr n"
proof -
  let ?d = "nat_digits (nat \<bar>n\<bar>)"
  note P = nat_digits_props [of "nat \<bar>n\<bar>"]
  obtain c cs where c: "?d = c # cs" using P by (cases ?d) auto
  have "int_digits U ?d = Some (map (\<lambda>c. c - 48) ?d)" using P by (intro int_digits_ascii) auto
  then have digits: "int_digits U (c # cs) = Some (map (\<lambda>c. c - 48) (c # cs))"
    unfolding c .
  have sign: "c \<noteq> 45" "c \<noteq> 43" using P c by auto
  have val: "int (foldl (\<lambda>a d. 10 * a + d) 0 (map (\<lambda>c. c - 48) (c # cs))) = \<bar>n\<bar>"
    using P c by simp
  show ?thesis
  proof (cases "n < 0")
    case True
    then have s: "py_str_int n = 45 # c # cs" using c by (simp add: py_str_int_def)
    have "rev (dropWhile int_space (rev (dropWhile int_space (45 # c # cs)))) = 45 # c # cs"
      using P c by (intro int_strip_digits) auto
    then show ?thesis using digits val True assms c
      by (simp only: s py_int_def Let_def) simp
  next
    case False
    then have s: "py_str_int n = c # cs" using c by (simp add: py_str_int_def)
    have "rev (dropWhile int_space (rev (dropWhile int_space (c # cs)))) = c # cs"
      using P c by (intro int_strip_digits) auto
    then show ?thesis using digits val sign False assms c
      by (simp only: s py_int_def Let_def) simp
  qed
qed

lemma length_nat_digits: "m < 10 ^ k \<Longrightarrow> 0 < k \<Longrightarrow> length (nat_digits m) \<le> k"
proof (induction m arbitrary: k rule: nat_digits.induct)
  case (1 m)
  show ?case
  proof (cases "m < 10")
    case True
    then show ?thesis using "1.prems" by (simp add: nat_digits.simps [of m])
  next
    case False
    obtain k' where k: "k = Suc k'" using "1.prems" by (cases k) auto
    have "k' \<noteq> 0" using False "1.prems"(1) k by (intro notI) simp
    moreover have "m div 10 < 10 ^ k'"
      using "1.prems"(1) unfolding k by (simp add: less_mult_imp_div_less mult.commute)
    ultimately have "length (nat_digits (m div 10)) \<le> k'" using "1.IH" [OF False] by blast
    then show ?thesis using False k by (simp add: nat_digits.simps [of m])
  qed
qed

lemma py_format_int_small: "\<bar>n\<bar> < 10 ^ k \<Longrightarrow> 0 < k \<Longrightarrow> k \<le> max_str_digits \<Longrightarrow>
    py_format_int n = Inr (py_str_int n)"
proof -
  assume n: "\<bar>n\<bar> < 10 ^ k" and k: "0 < k" "k \<le> max_str_digits"
  have "int (nat \<bar>n\<bar>) < int (10 ^ k)" using n by simp
  then have "nat \<bar>n\<bar> < 10 ^ k" by (simp only: of_nat_less_iff)
  then have "length (nat_digits (nat \<bar>n\<bar>)) \<le> k" using k(1) by (rule length_nat_digits)
  with k(2) show ?thesis by (simp add: py_format_int_def)
qed

text \<open>In particular every number that a deadline can be away is read back.\<close>

lemma py_int_small:
  assumes "\<bar>n\<bar> < 10 ^ k" and "0 < k" and "k \<le> max_str_digits"
  shows "py_int U (py_str_int n) = Inr n"
proof (rule py_int_str_int)
  have "int (nat \<bar>n\<bar>) < int (10 ^ k)" using assms(1) by simp
  then have "nat \<bar>n\<bar> < 10 ^ k" by (simp only: of_nat_less_iff)
  then show "length (nat_digits (nat \<bar>n\<bar>)) \<le> max_str_digits"
    using length_nat_digits [of _ k] assms(2,3) by fastforce
qed

end
