(* ===== verification/Fnmatch.thy ===== *)
theory Fnmatch
  imports Pystr "HOL-Library.Sublist"
begin

text \<open>
  \<open>fnmatch.fnmatch(name, pattern)\<close> of the standard library, which \<open>MemoryStore.keys\<close> calls:
  on a POSIX system, where \<open>normcase\<close> leaves both strings alone. The library translates the
  pattern to a regular expression; the model translates it to a list of items and matches
  those. \<open>*\<close> matches any text, \<open>?\<close> any character, \<open>[...]\<close> one character of a class and
  \<open>[!...]\<close> one outside it; a \<open>[\<close> without a closing bracket stands for itself.
\<close>

section \<open>Translation\<close>

text \<open>A class is a negation flag, the inclusive ranges and the single characters it lists.\<close>

datatype glob_item = GStar | GAny | GLit nat | GClass bool "(nat \<times> nat) list" pystr | GNever

text \<open>
  The text between the brackets is cut at the hyphens that form ranges: never at the first
  character (after \<open>!\<close>), and after a cut not before the third. A trailing hyphen stands for
  itself.
\<close>

lemma glob_chunks_shorter:
  "dropWhile P (drop off s) = c # r \<Longrightarrow> length r < length s"
  using length_dropWhile_le [of P "drop off s"] by simp

function glob_chunks :: "nat \<Rightarrow> pystr \<Rightarrow> pystr list" where
  "glob_chunks off s =
     (let a = takeWhile (\<lambda>c. c \<noteq> 45) (drop off s); b = dropWhile (\<lambda>c. c \<noteq> 45) (drop off s) in
      case b of
        [] \<Rightarrow> [s]
      | _ # r \<Rightarrow> if r = [] then [take off s @ a @ [45]] else (take off s @ a) # glob_chunks 2 r)"
  by pat_completeness auto

termination
  by (relation "measure (\<lambda>(off, s). length s)") (auto dest: glob_chunks_shorter [OF sym])

declare glob_chunks.simps [simp del]

text \<open>Empty ranges (from a larger to a smaller character) are dropped, from the right.\<close>

fun merge_chunks :: "pystr list \<Rightarrow> pystr list" where
  "merge_chunks [] = []"
| "merge_chunks (c # cs) =
     (case merge_chunks cs of
        [] \<Rightarrow> [c]
      | d # ds \<Rightarrow> if hd d < last c then (butlast c @ tl d) # ds else c # d # ds)"

fun chunk_ranges :: "pystr list \<Rightarrow> (nat \<times> nat) list" where
  "chunk_ranges (a # b # cs) = (last a, hd b) # chunk_ranges (b # cs)"
| "chunk_ranges _ = []"

definition glob_class :: "pystr \<Rightarrow> glob_item" where
  "glob_class stuff =
     (let chunks = merge_chunks (glob_chunks (if take 1 stuff = [33] then 2 else 1) stuff) in
      if concat chunks = [] then GNever
      else if chunks = [[33]] then GAny
      else if hd (concat chunks) = 33 then
        let neg = tl (hd chunks) # tl chunks in GClass True (chunk_ranges neg) (concat neg)
      else GClass False (chunk_ranges chunks) (concat chunks))"

text \<open>The part of a class text that may hold a leading \<open>!\<close> and a leading \<open>]\<close>.\<close>

definition class_head :: "pystr \<Rightarrow> pystr" where
  "class_head s =
     (let p = (if take 1 s = [33] then 1 else 0);
          q = (if take 1 (drop p s) = [93] then Suc p else p)
      in take q s)"

definition class_tail :: "pystr \<Rightarrow> pystr" where
  "class_tail s = drop (length (class_head s)) s"

function glob_items :: "pystr \<Rightarrow> glob_item list" where
  "glob_items [] = []"
| "glob_items (c # cs) =
     (if c = 42 then GStar # glob_items cs
      else if c = 63 then GAny # glob_items cs
      else if c = 91 then
        (case dropWhile (\<lambda>c. c \<noteq> 93) (class_tail cs) of
           [] \<Rightarrow> GLit 91 # glob_items cs
         | _ # r \<Rightarrow> glob_class (class_head cs @ takeWhile (\<lambda>c. c \<noteq> 93) (class_tail cs)) # glob_items r)
      else GLit c # glob_items cs)"
  by pat_completeness auto

termination
proof (relation "measure length")
  fix c :: nat and cs x r
  assume "dropWhile (\<lambda>c. c \<noteq> 93) (class_tail cs) = x # r"
  then have "length r < length (class_tail cs)"
    using length_dropWhile_le [of "\<lambda>c. c \<noteq> 93" "class_tail cs"] by simp
  also have "\<dots> \<le> length cs" by (simp add: class_tail_def)
  finally show "(r, c # cs) \<in> measure length" by simp
qed simp_all

section \<open>Matching\<close>

fun item_matches :: "glob_item \<Rightarrow> nat \<Rightarrow> bool" where
  "item_matches GStar c = True"
| "item_matches GAny c = True"
| "item_matches (GLit d) c = (c = d)"
| "item_matches (GClass neg ranges singles) c =
     (neg \<noteq> (c \<in> set singles \<or> (\<exists>(lo, hi) \<in> set ranges. lo \<le> c \<and> c \<le> hi)))"
| "item_matches GNever c = False"

fun glob_match :: "glob_item list \<Rightarrow> pystr \<Rightarrow> bool" where
  "glob_match [] s = (s = [])"
| "glob_match (GStar # is) s =
     (glob_match is s \<or> (case s of [] \<Rightarrow> False | _ # cs \<Rightarrow> glob_match (GStar # is) cs))"
| "glob_match (i # is) [] = False"
| "glob_match (i # is) (c # cs) = (item_matches i c \<and> glob_match is cs)"

definition fnmatch :: "pystr \<Rightarrow> pystr \<Rightarrow> bool" where
  "fnmatch name pat = glob_match (glob_items pat) name"

section \<open>What a pattern means\<close>

text \<open>
  Declaratively, a pattern matches a name when the name is a concatenation of one part per
  item: any text for \<open>*\<close> and one matching character for every other item.
\<close>

definition part_ok :: "glob_item \<Rightarrow> pystr \<Rightarrow> bool" where
  "part_ok i p \<longleftrightarrow> i = GStar \<or> (\<exists>c. p = [c] \<and> item_matches i c)"

lemma part_ok_simps [simp]:
  "part_ok GStar p" "part_ok i [c] \<longleftrightarrow> item_matches i c"
  by (auto simp: part_ok_def)

lemma part_cons:
  assumes "item_matches i c" and "\<exists>parts. list_all2 part_ok is parts \<and> concat parts = cs"
  shows "\<exists>parts. list_all2 part_ok (i # is) parts \<and> concat parts = c # cs"
proof -
  obtain parts where "list_all2 part_ok is parts" "concat parts = cs" using assms(2) by blast
  with assms(1) show ?thesis by (intro exI [of _ "[c] # parts"]) simp
qed

lemma glob_match_sound:
  "glob_match is s \<Longrightarrow> \<exists>parts. list_all2 part_ok is parts \<and> concat parts = s"
proof (induction "is" s rule: glob_match.induct)
  case (2 "is" s)
  show ?case
  proof (cases "glob_match is s")
    case True
    with "2.IH"(1) obtain parts where "list_all2 part_ok is parts" "concat parts = s" by blast
    then show ?thesis by (intro exI [of _ "[] # parts"]) simp
  next
    case False
    with "2.prems" obtain c cs where s: "s = c # cs" "glob_match (GStar # is) cs"
      by (auto split: list.splits)
    with "2.IH"(2) obtain parts where "list_all2 part_ok (GStar # is) parts" "concat parts = cs"
      by blast
    then show ?thesis using s(1)
      by (cases parts) (auto intro!: exI [of _ "(c # hd parts) # tl parts"])
  qed
qed (auto intro!: part_cons)

lemma glob_match_star_append: "glob_match is s \<Longrightarrow> glob_match (GStar # is) (p @ s)"
  by (induction p) (auto split: list.split)

lemma glob_match_complete:
  "list_all2 part_ok is parts \<Longrightarrow> glob_match is (concat parts)"
proof (induction rule: list_all2_induct)
  case (Cons i "is" p parts)
  show ?case
  proof (cases "i = GStar")
    case True
    with Cons.IH show ?thesis by (simp add: glob_match_star_append del: glob_match.simps(2))
  next
    case False
    with Cons.hyps obtain c where "p = [c]" "item_matches i c" by (auto simp: part_ok_def)
    with False Cons.IH show ?thesis by (cases i) auto
  qed
qed simp

lemma fnmatch_iff:
  "fnmatch name pat \<longleftrightarrow> (\<exists>parts. list_all2 part_ok (glob_items pat) parts \<and> concat parts = name)"
  unfolding fnmatch_def using glob_match_sound glob_match_complete by blast

text \<open>The patterns of the documentation: \<open>*\<close>, a plain name, and a prefix.\<close>

definition plain_pattern :: "pystr \<Rightarrow> bool" where
  "plain_pattern p \<longleftrightarrow> 42 \<notin> set p \<and> 63 \<notin> set p \<and> 91 \<notin> set p"

lemma glob_items_plain: "plain_pattern p \<Longrightarrow> glob_items (p @ q) = map GLit p @ glob_items q"
  by (induction p) (auto simp: plain_pattern_def)

lemma glob_match_literals: "glob_match (map GLit p @ is) s \<longleftrightarrow> (\<exists>r. s = p @ r \<and> glob_match is r)"
proof (induction p arbitrary: s)
  case (Cons c p)
  then show ?case by (cases s) auto
qed simp

lemma glob_match_star: "glob_match [GStar] s"
  by (induction s) auto

lemma fnmatch_star [simp]: "fnmatch name [42]"
  by (simp add: fnmatch_def glob_match_star del: glob_match.simps(2))

lemma fnmatch_plain: "plain_pattern p \<Longrightarrow> fnmatch name p \<longleftrightarrow> name = p"
  using glob_items_plain [of p "[]"] glob_match_literals [of p "[]" name]
  by (simp add: fnmatch_def)

lemma fnmatch_prefix: "plain_pattern p \<Longrightarrow> fnmatch name (p @ [42]) \<longleftrightarrow> prefix p name"
  using glob_match_literals [of p "[GStar]" name]
  by (auto simp: fnmatch_def glob_items_plain glob_match_star prefix_def simp del: glob_match.simps(2))

end
