(* ===== verification/Types.thy ===== *)
theory Types
  imports Prelude
begin

text \<open>
  The shared contract types of src/src/types.py, the error classes of src/src/errors.py and
  the configuration record of src/src/config.py. Every enum is a \<^theory_text>\<open>datatype\<close>
  with its members in the source's order and a \<open>value\<close> function for the string behind
  each member; every dataclass is a \<^theory_text>\<open>record\<close> with a constructor function that
  fills in the defaults.
\<close>

section \<open>Enumerations\<close>

datatype CommandName = PING | SET | GET | DEL | EXPIRE | TTL | MGET | KEYS | FLUSHALL

primrec CommandName_value :: "CommandName \<Rightarrow> pystr" where
  "CommandName_value PING = lit ''PING''"
| "CommandName_value SET = lit ''SET''"
| "CommandName_value GET = lit ''GET''"
| "CommandName_value DEL = lit ''DEL''"
| "CommandName_value EXPIRE = lit ''EXPIRE''"
| "CommandName_value TTL = lit ''TTL''"
| "CommandName_value MGET = lit ''MGET''"
| "CommandName_value KEYS = lit ''KEYS''"
| "CommandName_value FLUSHALL = lit ''FLUSHALL''"

definition all_commands :: "CommandName list" where
  "all_commands = [PING, SET, GET, DEL, EXPIRE, TTL, MGET, KEYS, FLUSHALL]"

text \<open>\<open>CommandName(text)\<close>: the member with this value, else \<open>ValueError\<close>.\<close>

definition CommandName_of :: "pystr \<Rightarrow> py_exn + CommandName" where
  "CommandName_of s =
     (case find (\<lambda>c. CommandName_value c = s) all_commands of
        None \<Rightarrow> Inl ValueError | Some c \<Rightarrow> Inr c)"

lemma CommandName_of_value [simp]: "CommandName_of (CommandName_value c) = Inr c"
  by (cases c) (simp_all add: CommandName_of_def all_commands_def)

lemma CommandName_of_Inr: "CommandName_of s = Inr c \<longleftrightarrow> s = CommandName_value c"
proof
  assume "CommandName_of s = Inr c"
  then have "find (\<lambda>c. CommandName_value c = s) all_commands = Some c"
    by (simp add: CommandName_of_def split: option.splits)
  then show "s = CommandName_value c"
    unfolding find_Some_iff by blast
qed simp

lemma CommandName_value_inject [simp]:
  "CommandName_value a = CommandName_value b \<longleftrightarrow> a = b"
  by (metis CommandName_of_value sum.inject(2))

text \<open>The argument counts each command accepts.\<close>

primrec arity_ok :: "CommandName \<Rightarrow> nat \<Rightarrow> bool" where
  "arity_ok PING n = (n = 0)"
| "arity_ok SET n = (n = 2)"
| "arity_ok GET n = (n = 1)"
| "arity_ok DEL n = (n = 1)"
| "arity_ok EXPIRE n = (n = 2)"
| "arity_ok TTL n = (n = 1)"
| "arity_ok MGET n = (n \<ge> 1)"
| "arity_ok KEYS n = (n \<le> 1)"
| "arity_ok FLUSHALL n = (n = 0)"

datatype ResponseKind = SIMPLE_STRING | BULK_STRING | INTEGER | NULL | ERROR | ARRAY

datatype FsyncPolicy = NEVER | ALWAYS | EVERY_N

datatype ErrorCode = INVALID_REQUEST | UNKNOWN_COMMAND | WRONG_ARITY | KEY_NOT_FOUND
  | EXPIRED_KEY | STORAGE_ERROR | PERSISTENCE_ERROR | ROUTING_ERROR | WORKER_ERROR
  | INTERNAL_ERROR

primrec ErrorCode_value :: "ErrorCode \<Rightarrow> pystr" where
  "ErrorCode_value INVALID_REQUEST = lit ''INVALID_REQUEST''"
| "ErrorCode_value UNKNOWN_COMMAND = lit ''UNKNOWN_COMMAND''"
| "ErrorCode_value WRONG_ARITY = lit ''WRONG_ARITY''"
| "ErrorCode_value KEY_NOT_FOUND = lit ''KEY_NOT_FOUND''"
| "ErrorCode_value EXPIRED_KEY = lit ''EXPIRED_KEY''"
| "ErrorCode_value STORAGE_ERROR = lit ''STORAGE_ERROR''"
| "ErrorCode_value PERSISTENCE_ERROR = lit ''PERSISTENCE_ERROR''"
| "ErrorCode_value ROUTING_ERROR = lit ''ROUTING_ERROR''"
| "ErrorCode_value WORKER_ERROR = lit ''WORKER_ERROR''"
| "ErrorCode_value INTERNAL_ERROR = lit ''INTERNAL_ERROR''"

text \<open>
  The command names are finitely many and ordered as the code orders them: as strings,
  since the enum's members are \<open>str\<close>.
\<close>

instantiation CommandName :: linorder
begin

definition less_eq_CommandName :: "CommandName \<Rightarrow> CommandName \<Rightarrow> bool" where
  "a \<le> b \<longleftrightarrow> CommandName_value a \<le> CommandName_value b"

definition less_CommandName :: "CommandName \<Rightarrow> CommandName \<Rightarrow> bool" where
  "a < b \<longleftrightarrow> CommandName_value a < CommandName_value b"

instance
  by standard (auto simp: less_eq_CommandName_def less_CommandName_def less_le)

end

section \<open>Requests, responses and records\<close>

record CommandRequest =
  req_command :: CommandName
  req_args :: "pystr list"
  req_request_id :: "pystr option"
  req_client_id :: "pystr option"

definition mk_request :: "CommandName \<Rightarrow> pystr list \<Rightarrow> CommandRequest" where
  "mk_request c a = \<lparr>req_command = c, req_args = a, req_request_id = None, req_client_id = None\<rparr>"

record CommandResponse =
  resp_kind :: ResponseKind
  resp_message :: "pystr option"
  resp_value :: "pystr option"
  resp_integer :: "int option"
  resp_error_code :: "ErrorCode option"
  resp_request_id :: "pystr option"
  resp_values :: "pystr option list"

definition mk_response :: "ResponseKind \<Rightarrow> CommandResponse" where
  "mk_response k = \<lparr>resp_kind = k, resp_message = None, resp_value = None,
     resp_integer = None, resp_error_code = None, resp_request_id = None, resp_values = []\<rparr>"

record PersistRecord =
  rec_sequence :: int
  rec_request :: CommandRequest

record KeyRoute =
  partition_id :: int
  route_worker_id :: pystr

record WorkerStats =
  stats_worker_id :: pystr
  stats_partition_id :: int
  stats_in_flight :: int
  stats_queued :: int

record ErrorDetails =
  details_code :: ErrorCode
  details_message :: pystr
  details_context :: "(pystr \<times> pystr) list"

record WorkerRequest =
  wreq_request_id :: pystr
  wreq_command :: CommandName
  wreq_args :: "pystr list"
  wreq_client_id :: "pystr option"

text \<open>A worker's response has no \<open>values\<close> field, unlike a command's response.\<close>

record WorkerResponse =
  wresp_request_id :: pystr
  wresp_kind :: ResponseKind
  wresp_message :: "pystr option"
  wresp_value :: "pystr option"
  wresp_integer :: "int option"
  wresp_error_code :: "ErrorCode option"

record WorkerControl =
  ctl_action :: pystr
  ctl_request_id :: "pystr option"

lemma mk_request_simps [simp]:
  "req_command (mk_request c a) = c" "req_args (mk_request c a) = a"
  "req_request_id (mk_request c a) = None" "req_client_id (mk_request c a) = None"
  by (simp_all add: mk_request_def)

lemma mk_response_simps [simp]:
  "resp_kind (mk_response k) = k" "resp_message (mk_response k) = None"
  "resp_value (mk_response k) = None" "resp_integer (mk_response k) = None"
  "resp_error_code (mk_response k) = None" "resp_request_id (mk_response k) = None"
  "resp_values (mk_response k) = []"
  by (simp_all add: mk_response_def)

section \<open>The error classes\<close>

text \<open>
  A raised \<open>LiteStoreError\<close>: which class of src/src/errors.py it is, and the attributes its
  constructor stores. The base constructor turns a missing context into an empty one.
\<close>

datatype error_class = LiteStoreErrorClass | InvalidRequestErrorClass | UnknownCommandErrorClass
  | WrongArityErrorClass | StorageErrorClass | PersistenceErrorClass | RoutingErrorClass
  | WorkerErrorClass

record LiteStoreError =
  err_class :: error_class
  err_code :: ErrorCode
  err_message :: pystr
  err_context :: "(pystr \<times> pystr) list"

definition LiteStoreError_init ::
    "error_class \<Rightarrow> ErrorCode \<Rightarrow> pystr \<Rightarrow> (pystr \<times> pystr) list option \<Rightarrow> LiteStoreError" where
  "LiteStoreError_init cls code msg ctx = \<lparr>err_class = cls, err_code = code, err_message = msg,
     err_context = (case ctx of None \<Rightarrow> [] | Some c \<Rightarrow> c)\<rparr>"

definition to_details :: "LiteStoreError \<Rightarrow> ErrorDetails" where
  "to_details e = \<lparr>details_code = err_code e, details_message = err_message e,
     details_context = err_context e\<rparr>"

definition InvalidRequestError :: "pystr \<Rightarrow> (pystr \<times> pystr) list option \<Rightarrow> LiteStoreError" where
  "InvalidRequestError = LiteStoreError_init InvalidRequestErrorClass INVALID_REQUEST"

definition UnknownCommandError :: "pystr \<Rightarrow> (pystr \<times> pystr) list option \<Rightarrow> LiteStoreError" where
  "UnknownCommandError = LiteStoreError_init UnknownCommandErrorClass UNKNOWN_COMMAND"

definition WrongArityError :: "pystr \<Rightarrow> (pystr \<times> pystr) list option \<Rightarrow> LiteStoreError" where
  "WrongArityError = LiteStoreError_init WrongArityErrorClass WRONG_ARITY"

definition StorageError :: "pystr \<Rightarrow> (pystr \<times> pystr) list option \<Rightarrow> LiteStoreError" where
  "StorageError = LiteStoreError_init StorageErrorClass STORAGE_ERROR"

definition PersistenceError :: "pystr \<Rightarrow> (pystr \<times> pystr) list option \<Rightarrow> LiteStoreError" where
  "PersistenceError = LiteStoreError_init PersistenceErrorClass PERSISTENCE_ERROR"

definition RoutingError :: "pystr \<Rightarrow> (pystr \<times> pystr) list option \<Rightarrow> LiteStoreError" where
  "RoutingError = LiteStoreError_init RoutingErrorClass ROUTING_ERROR"

definition WorkerError :: "pystr \<Rightarrow> (pystr \<times> pystr) list option \<Rightarrow> LiteStoreError" where
  "WorkerError = LiteStoreError_init WorkerErrorClass WORKER_ERROR"

lemmas error_class_defs = InvalidRequestError_def UnknownCommandError_def WrongArityError_def
  StorageError_def PersistenceError_def RoutingError_def WorkerError_def LiteStoreError_init_def

lemma err_code_simps [simp]:
  "err_code (InvalidRequestError m c) = INVALID_REQUEST"
  "err_code (UnknownCommandError m c) = UNKNOWN_COMMAND"
  "err_code (WrongArityError m c) = WRONG_ARITY"
  by (simp_all add: error_class_defs)

lemma err_message_simps [simp]:
  "err_message (InvalidRequestError m c) = m"
  "err_message (UnknownCommandError m c) = m"
  "err_message (WrongArityError m c) = m"
  by (simp_all add: error_class_defs)

text \<open>What can be raised: one of the program's own errors, or one of Python's.\<close>

datatype raised = OwnError LiteStoreError | PyError py_exn

section \<open>Configuration\<close>

record LiteStoreConfig =
  cfg_host :: pystr
  cfg_port :: int
  cfg_metrics_host :: pystr
  cfg_metrics_port :: int
  cfg_worker_count :: int
  cfg_aof_path :: pystr
  cfg_metrics_refresh_interval_seconds :: rat
  cfg_use_multiprocessing :: bool

definition default_config :: LiteStoreConfig where
  "default_config = \<lparr>cfg_host = lit ''127.0.0.1'', cfg_port = 6379,
     cfg_metrics_host = lit ''127.0.0.1'', cfg_metrics_port = 9100, cfg_worker_count = 4,
     cfg_aof_path = lit ''data/litestore.aof'', cfg_metrics_refresh_interval_seconds = 5,
     cfg_use_multiprocessing = True\<rparr>"

end
