(* ===== verification/Interfaces.thy ===== *)
theory Interfaces
  imports Types
begin

text \<open>
  The protocols of src/src/interfaces.py. A Python protocol is a set of methods that an object
  provides; here it is a record of functions on the provider's state type, which the clients
  (the command layer, the workers) take as an argument, and a locale that states what the
  clients rely on beyond the types. The contract of the store is stated here; those of the other
  protocols are stated in the theories of the classes that implement them, over the records below.
\<close>

section \<open>Persistence, routing and workers\<close>

record 'p PersistenceInterface =
  op_append :: "PersistRecord \<Rightarrow> 'p \<Rightarrow> (py_exn + unit) \<times> 'p"
  op_replay :: "'p \<Rightarrow> PersistRecord list \<times> py_exn option"
  op_close :: "'p \<Rightarrow> (py_exn + unit) \<times> 'p"

record 'r RouterInterface =
  op_route_key :: "'r \<Rightarrow> pystr \<Rightarrow> py_exn + KeyRoute"
  op_route_request :: "'r \<Rightarrow> CommandRequest \<Rightarrow> py_exn + KeyRoute"

text \<open>The asynchronous methods of a worker are its synchronous ones here.\<close>

record 'w WorkerInterface =
  op_worker_id :: "'w \<Rightarrow> pystr"
  op_partition_id :: "'w \<Rightarrow> int"
  op_start :: "'w \<Rightarrow> 'w"
  op_stop :: "'w \<Rightarrow> 'w"
  op_execute :: "CommandRequest \<Rightarrow> 'w \<Rightarrow> (py_exn + CommandResponse) \<times> 'w"
  op_run_expiration_cycle :: "rat option \<Rightarrow> 'w \<Rightarrow> int \<times> 'w"
  op_worker_snapshot :: "'w \<Rightarrow> (pystr \<times> pystr) list \<times> 'w"
  op_stats :: "'w \<Rightarrow> WorkerStats"

section \<open>The store\<close>

record 's StoreInterface =
  op_set :: "pystr \<Rightarrow> pystr \<Rightarrow> 's \<Rightarrow> 's"
  op_get :: "pystr \<Rightarrow> 's \<Rightarrow> pystr option \<times> 's"
  op_delete :: "pystr \<Rightarrow> 's \<Rightarrow> bool \<times> 's"
  op_expire :: "pystr \<Rightarrow> int \<Rightarrow> 's \<Rightarrow> (py_exn + bool) \<times> 's"
  op_ttl :: "pystr \<Rightarrow> 's \<Rightarrow> int \<times> 's"
  op_process_expirations :: "rat option \<Rightarrow> 's \<Rightarrow> int \<times> 's"
  op_keys :: "pystr \<Rightarrow> 's \<Rightarrow> pystr list \<times> 's"
  op_flush :: "'s \<Rightarrow> int \<times> 's"
  op_snapshot :: "'s \<Rightarrow> (pystr \<times> pystr) list \<times> 's"

text \<open>
  The contract. \<open>content\<close> is the map a store stands for and \<open>expiry\<close> the deadlines of its
  keys; \<open>swept\<close> is the state after the expiration processing every operation starts with.
  That processing only removes keys, and only keys with a deadline; what an operation then does
  is said on the map. An EXPIRE fails when its number is no float or its deadline is too far
  ahead for the provider; it may have given the key that deadline by then.
\<close>

locale store_contract =
  fixes ops :: "'s StoreInterface"
    and invar :: "'s \<Rightarrow> bool"
    and content :: "'s \<Rightarrow> pystr \<rightharpoonup> pystr"
    and expiry :: "'s \<Rightarrow> pystr \<rightharpoonup> rat"
    and swept :: "'s \<Rightarrow> 's"
    and matches :: "pystr \<Rightarrow> pystr \<Rightarrow> bool"
    and too_far_ahead :: "'s \<Rightarrow> int \<Rightarrow> bool"
  assumes invar_swept: "invar s \<Longrightarrow> invar (swept s)"
    and content_swept: "invar s \<Longrightarrow> content (swept s) \<subseteq>\<^sub>m content s"
    and swept_keeps: "invar s \<Longrightarrow> expiry s k = None \<Longrightarrow> content (swept s) k = content s k"
    and expiry_swept: "invar s \<Longrightarrow> expiry (swept s) \<subseteq>\<^sub>m expiry s"
    and invar_set: "invar s \<Longrightarrow> invar (op_set ops k v s)"
    and content_set: "invar s \<Longrightarrow> content (op_set ops k v s) = (content (swept s))(k \<mapsto> v)"
    and expiry_set: "invar s \<Longrightarrow> expiry (op_set ops k v s) = (expiry (swept s))(k := None)"
    and get_eq: "invar s \<Longrightarrow> op_get ops k s = (content (swept s) k, swept s)"
    and invar_delete: "invar s \<Longrightarrow> invar (snd (op_delete ops k s))"
    and delete_result: "invar s \<Longrightarrow> fst (op_delete ops k s) = (content (swept s) k \<noteq> None)"
    and content_delete: "invar s \<Longrightarrow> content (snd (op_delete ops k s)) = (content (swept s))(k := None)"
    and expiry_delete: "invar s \<Longrightarrow> expiry (snd (op_delete ops k s)) = (expiry (swept s))(k := None)"
    and invar_expire: "invar s \<Longrightarrow> invar (snd (op_expire ops k n s))"
    and expire_absent: "invar s \<Longrightarrow> content (swept s) k = None \<Longrightarrow>
      op_expire ops k n s = (Inr False, swept s)"
    and expire_nonpos: "invar s \<Longrightarrow> content (swept s) k \<noteq> None \<Longrightarrow> n \<le> 0 \<Longrightarrow>
      fst (op_expire ops k n s) = Inr True \<and> content (snd (op_expire ops k n s)) k = None"
    and expire_pos: "invar s \<Longrightarrow> content (swept s) k \<noteq> None \<Longrightarrow> 0 < n \<Longrightarrow> n < float_int_limit \<Longrightarrow>
      fst (op_expire ops k n s) =
        (if too_far_ahead (swept s) n then Inl OverflowError else Inr True) \<and>
      content (snd (op_expire ops k n s)) = content (swept s) \<and>
      expiry (snd (op_expire ops k n s)) k \<noteq> None"
    and expire_overflow: "invar s \<Longrightarrow> content (swept s) k \<noteq> None \<Longrightarrow> float_int_limit \<le> n \<Longrightarrow>
      fst (op_expire ops k n s) = Inl OverflowError \<and>
      content (snd (op_expire ops k n s)) = content (swept s)"
    and invar_ttl: "invar s \<Longrightarrow> invar (snd (op_ttl ops k s))"
    and ttl_absent: "invar s \<Longrightarrow> content (swept s) k = None \<Longrightarrow> op_ttl ops k s = (- 2, swept s)"
    and ttl_persistent: "invar s \<Longrightarrow> content (swept s) k \<noteq> None \<Longrightarrow> expiry (swept s) k = None \<Longrightarrow>
      op_ttl ops k s = (- 1, swept s)"
    and invar_process: "invar s \<Longrightarrow> invar (snd (op_process_expirations ops t s))"
    and process_eq: "invar s \<Longrightarrow> snd (op_process_expirations ops None s) = swept s"
    and keys_eq: "invar s \<Longrightarrow> snd (op_keys ops p s) = swept s \<and>
      set (fst (op_keys ops p s)) = {k \<in> dom (content (swept s)). matches k p} \<and>
      distinct (fst (op_keys ops p s))"
    and invar_flush: "invar s \<Longrightarrow> invar (snd (op_flush ops s))"
    and flush_result: "invar s \<Longrightarrow> fst (op_flush ops s) = int (card (dom (content (swept s))))"
    and content_flush: "invar s \<Longrightarrow> content (snd (op_flush ops s)) = Map.empty"
    and expiry_flush: "invar s \<Longrightarrow> expiry (snd (op_flush ops s)) = Map.empty"
    and snapshot_eq: "invar s \<Longrightarrow> snd (op_snapshot ops s) = swept s \<and>
      map_of (fst (op_snapshot ops s)) = content (swept s)"
begin

text \<open>Reading back what was written, whatever the clock does in between.\<close>

lemma get_set_same: "invar s \<Longrightarrow> fst (op_get ops k (op_set ops k v s)) = Some v"
proof -
  assume s: "invar s"
  then have "invar (op_set ops k v s)" by (rule invar_set)
  moreover have "expiry (op_set ops k v s) k = None" using s by (simp add: expiry_set)
  ultimately show ?thesis using s by (simp add: get_eq swept_keeps content_set)
qed

lemma get_set_other:
  "invar s \<Longrightarrow> k' \<noteq> k \<Longrightarrow> fst (op_get ops k' (op_set ops k v s)) = Some x \<Longrightarrow>
     content s k' = Some x"
  using content_swept [of "op_set ops k v s"] content_swept [of s]
  by (auto simp: get_eq invar_set content_set map_le_def dom_def)

lemma get_delete_same: "invar s \<Longrightarrow> fst (op_get ops k (snd (op_delete ops k s))) = None"
proof -
  assume s: "invar s"
  let ?s = "snd (op_delete ops k s)"
  have s': "invar ?s" using s by (rule invar_delete)
  have "content (swept ?s) k = None"
    using content_swept [OF s'] s by (auto simp: content_delete map_le_def dom_def)
  then show ?thesis using s' by (simp add: get_eq)
qed

lemma get_flush: "invar s \<Longrightarrow> fst (op_get ops k (snd (op_flush ops s))) = None"
proof -
  assume s: "invar s"
  let ?s = "snd (op_flush ops s)"
  have s': "invar ?s" using s by (rule invar_flush)
  have "content (swept ?s) k = None"
    using content_swept [OF s'] s by (auto simp: content_flush map_le_def dom_def)
  then show ?thesis using s' by (simp add: get_eq)
qed

end

end
