(* ===== verification/Store.thy ===== *)
theory Store
  imports Timing_Wheel Fnmatch Interfaces
begin

text \<open>
  The in-memory store of src/src/store.py over the timing wheel, and the store contract
  discharged for it.

  The state is the \<open>MemoryStore\<close> object. Its \<open>time_source\<close> is a function Python calls; each
  call may return a later time. The model numbers the calls: \<open>time_source n\<close> is what call
  number \<open>n\<close> returns and \<open>clock_reads\<close> how many calls were made, so two readings within one
  operation may differ, as they do in the code.
\<close>

section \<open>State and operations\<close>

record MemoryStore =
  time_source :: "nat \<Rightarrow> rat"
  clock_reads :: nat
  store_data :: "(pystr \<times> pystr) list"
  store_expires_at :: "(pystr \<times> rat) list"
  timing_wheel :: TimingWheel

definition MemoryStore_init :: "(nat \<Rightarrow> rat) \<Rightarrow> TimingWheel option \<Rightarrow> MemoryStore" where
  "MemoryStore_init clock wheel = \<lparr>time_source = clock, clock_reads = 0, store_data = [],
     store_expires_at = [],
     timing_wheel = (case wheel of Some w \<Rightarrow> w | None \<Rightarrow> default_wheel)\<rparr>"

definition read_time :: "MemoryStore \<Rightarrow> rat \<times> MemoryStore" where
  "read_time s = (time_source s (clock_reads s), s\<lparr>clock_reads := Suc (clock_reads s)\<rparr>)"

text \<open>The loop body of \<open>process_expirations\<close> for one entry the wheel returned.\<close>

definition expire_entry ::
    "rat \<Rightarrow> TimerEntry \<Rightarrow> (pystr \<times> pystr) list \<times> (pystr \<times> rat) list \<times> int \<Rightarrow>
     (pystr \<times> pystr) list \<times> (pystr \<times> rat) list \<times> int" where
  "expire_entry current_time entry = (\<lambda>(data, expires, expired_count).
     case map_of expires (timer_key entry) of
       None \<Rightarrow> (data, expires, expired_count)
     | Some expires_at \<Rightarrow>
         if expires_at > current_time then (data, expires, expired_count)
         else if map_of data (timer_key entry) \<noteq> None then
           (AList.delete (timer_key entry) data, AList.delete (timer_key entry) expires,
            expired_count + 1)
         else (data, AList.delete (timer_key entry) expires, expired_count))"

definition process_expirations :: "rat option \<Rightarrow> MemoryStore \<Rightarrow> int \<times> MemoryStore" where
  "process_expirations now s =
     (let (current_time, s1) = (case now of None \<Rightarrow> read_time s | Some t \<Rightarrow> (t, s));
          (due, w) = pop_due current_time (timing_wheel s1);
          (data, expires, expired_count) =
            fold (expire_entry current_time) due (store_data s1, store_expires_at s1, 0)
      in (expired_count,
          s1\<lparr>store_data := data, store_expires_at := expires, timing_wheel := w\<rparr>))"

definition clear_expiry :: "pystr \<Rightarrow> MemoryStore \<Rightarrow> MemoryStore" where
  "clear_expiry key s = s\<lparr>store_expires_at := AList.delete key (store_expires_at s),
     timing_wheel := cancel key (timing_wheel s)\<rparr>"

definition store_set :: "pystr \<Rightarrow> pystr \<Rightarrow> MemoryStore \<Rightarrow> MemoryStore" where
  "store_set key value s =
     (let (_, s1) = process_expirations None s
      in clear_expiry key (s1\<lparr>store_data := AList.update key value (store_data s1)\<rparr>))"

definition store_get :: "pystr \<Rightarrow> MemoryStore \<Rightarrow> pystr option \<times> MemoryStore" where
  "store_get key s =
     (let (_, s1) = process_expirations None s in (map_of (store_data s1) key, s1))"

definition store_delete :: "pystr \<Rightarrow> MemoryStore \<Rightarrow> bool \<times> MemoryStore" where
  "store_delete key s =
     (let (_, s1) = process_expirations None s in
      if map_of (store_data s1) key = None then (False, s1)
      else (True, clear_expiry key (s1\<lparr>store_data := AList.delete key (store_data s1)\<rparr>)))"

text \<open>
  EXPIRE stores the deadline in the dictionary first and schedules it then; both the conversion of
  the number to a float and the wheel can raise, the wheel when the dictionary has changed already.
\<close>

definition store_expire :: "pystr \<Rightarrow> int \<Rightarrow> MemoryStore \<Rightarrow> (py_exn + bool) \<times> MemoryStore" where
  "store_expire key ttl_seconds s =
     (let (_, s1) = process_expirations None s in
      if map_of (store_data s1) key = None then (Inr False, s1)
      else if ttl_seconds \<le> 0 then (Inr True, snd (store_delete key s1))
      else let (t, s2) = read_time s1 in
        case py_float_of_int ttl_seconds of
          Inl exn \<Rightarrow> (Inl exn, s2)
        | Inr seconds \<Rightarrow>
            let expires_at = t + seconds;
                s3 = s2\<lparr>store_expires_at := AList.update key expires_at (store_expires_at s2)\<rparr>
            in case schedule key expires_at (timing_wheel s3) of
                 (Inl exn, w) \<Rightarrow> (Inl exn, s3\<lparr>timing_wheel := w\<rparr>)
               | (Inr _, w) \<Rightarrow> (Inr True, s3\<lparr>timing_wheel := w\<rparr>))"

definition store_ttl :: "pystr \<Rightarrow> MemoryStore \<Rightarrow> int \<times> MemoryStore" where
  "store_ttl key s =
     (let (_, s1) = process_expirations None s in
      if map_of (store_data s1) key = None then (- 2, s1)
      else case map_of (store_expires_at s1) key of
          None \<Rightarrow> (- 1, s1)
        | Some expires_at \<Rightarrow>
            let (t, s2) = read_time s1; remaining = py_trunc (expires_at - t) in
            if remaining < 0 then (- 2, snd (store_delete key s2))
            else (remaining, s2))"

definition store_snapshot :: "MemoryStore \<Rightarrow> (pystr \<times> pystr) list \<times> MemoryStore" where
  "store_snapshot s = (let (_, s1) = process_expirations None s in (store_data s1, s1))"

definition store_keys :: "pystr \<Rightarrow> MemoryStore \<Rightarrow> pystr list \<times> MemoryStore" where
  "store_keys pattern s =
     (let (_, s1) = process_expirations None s
      in (filter (\<lambda>k. fnmatch k pattern) (map fst (store_data s1)), s1))"

definition store_flush :: "MemoryStore \<Rightarrow> int \<times> MemoryStore" where
  "store_flush s =
     (let (_, s1) = process_expirations None s in
      (int (length (store_data s1)),
       s1\<lparr>store_data := [], store_expires_at := [], timing_wheel := default_wheel\<rparr>))"

text \<open>
  Replaying one persisted request: only the overflow of a huge deadline can escape;
  \<open>int()\<close>'s \<open>ValueError\<close> is caught and ends the call.
\<close>

definition apply_replay_request ::
    "unicode_db \<Rightarrow> CommandRequest \<Rightarrow> MemoryStore \<Rightarrow> (py_exn + unit) \<times> MemoryStore" where
  "apply_replay_request U request s =
     (let (_, s1) = process_expirations None s in
      if req_command request = SET \<and> length (req_args request) = 2 then
        (Inr (), store_set (req_args request ! 0) (req_args request ! 1) s1)
      else if req_command request = DEL \<and> length (req_args request) = 1 then
        (Inr (), snd (store_delete (req_args request ! 0) s1))
      else if req_command request = EXPIRE \<and> length (req_args request) = 2 then
        (case py_int U (req_args request ! 1) of
           Inl _ \<Rightarrow> (Inr (), s1)
         | Inr seconds \<Rightarrow>
             (case store_expire (req_args request ! 0) seconds s1 of
                (Inl exn, s2) \<Rightarrow> (Inl exn, s2)
              | (Inr _, s2) \<Rightarrow> (Inr (), s2)))
      else if req_command request = FLUSHALL \<and> length (req_args request) = 0 then
        (Inr (), snd (store_flush s1))
      else (Inr (), s1))"

text \<open>The store as a provider of the store interface.\<close>

definition memory_store_ops :: "MemoryStore StoreInterface" where
  "memory_store_ops = \<lparr>op_set = store_set, op_get = store_get, op_delete = store_delete,
     op_expire = store_expire, op_ttl = store_ttl,
     op_process_expirations = process_expirations, op_keys = store_keys,
     op_flush = store_flush, op_snapshot = store_snapshot\<rparr>"

section \<open>The representation invariant\<close>

abbreviation content :: "MemoryStore \<Rightarrow> pystr \<rightharpoonup> pystr" where
  "content s \<equiv> map_of (store_data s)"

abbreviation expiry :: "MemoryStore \<Rightarrow> pystr \<rightharpoonup> rat" where
  "expiry s \<equiv> map_of (store_expires_at s)"

text \<open>
  Only keys with a deadline are in the wheel. The wheel has the deadline the dictionary has, except
  where EXPIRE failed because that deadline is too far ahead for the wheel: then the wheel still
  has the deadline before, if there was one. And only stored keys have deadlines.
\<close>

definition deadlines_agree :: "MemoryStore \<Rightarrow> bool" where
  "deadlines_agree s \<longleftrightarrow>
     (\<forall>k d. expiry s k = Some d \<longrightarrow> deadline (timing_wheel s) k = Some d \<or> too_far (timing_wheel s) d) \<and>
     dom (deadline (timing_wheel s)) \<subseteq> dom (expiry s)"

definition store_inv :: "MemoryStore \<Rightarrow> bool" where
  "store_inv s \<longleftrightarrow> dict_ok (store_data s) \<and> dict_ok (store_expires_at s) \<and>
     wheel_inv (timing_wheel s) \<and> deadlines_agree s \<and> dom (expiry s) \<subseteq> dom (content s)"

text \<open>The next clock reading, and the state after the expiration processing it triggers.\<close>

definition now_of :: "MemoryStore \<Rightarrow> rat" where
  "now_of s = time_source s (clock_reads s)"

definition swept :: "MemoryStore \<Rightarrow> MemoryStore" where
  "swept s = snd (process_expirations None s)"

text \<open>The keys a drain at time \<open>now\<close> removes: the wheel returns them and the dictionary agrees.\<close>

definition purged :: "rat \<Rightarrow> MemoryStore \<Rightarrow> pystr set" where
  "purged now s = {k \<in> timer_key ` set (fst (pop_due now (timing_wheel s))).
     \<exists>d. expiry s k = Some d \<and> d \<le> now}"

text \<open>
  The loop of \<open>process_expirations\<close>, for any scheduler that meets the contract: it removes exactly
  the keys the scheduler returned whose deadline in the dictionary has passed.
\<close>

lemma delete_eq_filter: "AList.delete k d = filter (\<lambda>(k', v). k' \<noteq> k) d"
  by (auto simp: AList.delete_eq intro!: filter_cong)

definition passed :: "rat \<Rightarrow> (pystr \<rightharpoonup> rat) \<Rightarrow> pystr set \<Rightarrow> pystr set" where
  "passed now expires ks = {k \<in> ks. \<exists>d. expires k = Some d \<and> d \<le> now}"

lemma passed_insert:
  "passed now expires (insert k ks) =
     (if \<exists>d. expires k = Some d \<and> d \<le> now then insert k (passed now expires ks)
      else passed now expires ks)"
  by (auto simp: passed_def)

lemma passed_without: "k \<notin> ks \<Longrightarrow> passed now (expires(k := None)) ks = passed now expires ks"
  by (auto simp: passed_def)

lemma passed_subset: "passed now expires ks \<subseteq> ks"
  by (auto simp: passed_def)

lemma fold_expire_entry:
  fixes now :: rat
  assumes "distinct (map timer_key due)" and "dom (map_of expires) \<subseteq> dom (map_of data)"
  defines "R \<equiv> passed now (map_of expires) (timer_key ` set due)"
  shows "fold (expire_entry now) due (data, expires, n) =
    (filter (\<lambda>(k, v). k \<notin> R) data, filter (\<lambda>(k, v). k \<notin> R) expires, n + int (card R))"
  using assms(1,2) unfolding R_def
proof (induction due arbitrary: data expires n)
  case Nil
  then show ?case by (simp add: passed_def case_prod_beta)
next
  case (Cons te due)
  let ?k = "timer_key te" and ?ks = "timer_key ` set due"
  have k: "?k \<notin> ?ks" using Cons.prems(1) by simp
  show ?case
  proof (cases "\<exists>d. map_of expires ?k = Some d \<and> d \<le> now")
    case False
    then have "expire_entry now te (data, expires, n) = (data, expires, n)"
      by (auto simp: expire_entry_def not_le split: option.split)
    moreover have "passed now (map_of expires) (timer_key ` set (te # due)) =
        passed now (map_of expires) ?ks"
      using False by (auto simp: passed_def)
    ultimately show ?thesis using Cons.IH [of expires data n] Cons.prems by (simp only: fold_simps) simp
  next
    case True
    then have "map_of data ?k \<noteq> None" using Cons.prems(2) by auto
    with True have step: "expire_entry now te (data, expires, n) =
        (AList.delete ?k data, AList.delete ?k expires, n + 1)"
      by (auto simp: expire_entry_def)
    have same: "passed now (map_of (AList.delete ?k expires)) ?ks = passed now (map_of expires) ?ks"
      unfolding AList.delete_conv' using k by (rule passed_without)
    have "finite (passed now (map_of expires) ?ks)" "?k \<notin> passed now (map_of expires) ?ks"
      using k passed_subset [of now "map_of expires" ?ks] by (auto intro: finite_subset)
    moreover have "dom (map_of (AList.delete ?k expires)) \<subseteq> dom (map_of (AList.delete ?k data))"
      using Cons.prems(2) by (auto simp: AList.delete_conv')
    ultimately show ?thesis
      using Cons.IH [of "AList.delete ?k expires" "AList.delete ?k data" "n + 1"] Cons.prems(1) True step
      by (simp add: passed_insert same [unfolded delete_eq_filter] delete_eq_filter case_prod_beta conj_commute)
  qed
qed

lemma map_of_drop_keys:
  "dict_ok xs \<Longrightarrow> map_of (filter (\<lambda>(k, v). k \<notin> R) xs) = map_of xs |` (- R)"
  by (auto simp: map_of_filter_key restrict_map_def fun_eq_iff split: option.split)

context expiry_scheduler
begin

lemma purge_matches_drain:
  assumes "invar w" and "drain now w = (due, w')" and "dict_ok data" and "dict_ok expires"
    and agree: "\<forall>k d. map_of expires k = Some d \<longrightarrow> due_time w k = Some d \<or> far w d"
    and sub: "dom (due_time w) \<subseteq> dom (map_of expires)" and "dom (map_of expires) \<subseteq> dom (map_of data)"
    and "fold (expire_entry now) due (data, expires, 0) = (data', expires', n)"
  defines "R \<equiv> passed now (map_of expires) (timer_key ` set due)"
  shows "map_of data' = map_of data |` (- R)" and "map_of expires' = map_of expires |` (- R)"
    and "n = int (card R)" and "dict_ok data'" and "dict_ok expires'"
    and "\<forall>k d. map_of expires' k = Some d \<longrightarrow> due_time w' k = Some d \<or> far w' d"
    and "dom (due_time w') \<subseteq> dom (map_of expires')" and "dom (map_of expires') \<subseteq> dom (map_of data')"
proof -
  note F = fold_expire_entry [OF drain_distinct [OF assms(1,2)] assms(7), of now 0]
  have d: "data' = filter (\<lambda>(k, v). k \<notin> R) data" and e: "expires' = filter (\<lambda>(k, v). k \<notin> R) expires"
    and n: "n = int (card R)"
    using assms(8) F by (simp_all add: R_def)
  show D: "map_of data' = map_of data |` (- R)" using assms(3) by (simp add: d map_of_drop_keys)
  show E: "map_of expires' = map_of expires |` (- R)" using assms(4) by (simp add: e map_of_drop_keys)
  show "n = int (card R)" by (rule n)
  show "dict_ok data'" "dict_ok expires'" using assms(3,4) by (auto simp: d e)
  show "dom (map_of expires') \<subseteq> dom (map_of data')" using assms(7) unfolding D E by auto
  note forget = drain_forgets [OF assms(1,2)]
  have "R \<subseteq> timer_key ` set due" by (simp add: R_def passed_subset)
  then show "dom (due_time w') \<subseteq> dom (map_of expires')" using sub unfolding E forget by auto
  show "\<forall>k d. map_of expires' k = Some d \<longrightarrow> due_time w' k = Some d \<or> far w' d"
  proof (intro allI impI)
    fix k x assume "map_of expires' k = Some x"
    then have x: "map_of expires k = Some x" "k \<notin> R" by (auto simp: E restrict_map_def split: if_splits)
    show "due_time w' k = Some x \<or> far w' x"
    proof (cases "k \<in> timer_key ` set due")
      case True
      then obtain te where "te \<in> set due" "timer_key te = k" by blast
      then have "due_time w k = Some (timer_expires_at te)" "timer_expires_at te \<le> now"
        using drain_sound [OF assms(1,2)] by auto
      moreover have "\<not> x \<le> now" using True x by (auto simp: R_def passed_def)
      ultimately have "far w x" using agree x(1) by fastforce
      then show ?thesis using far_drain [OF assms(1,2)] by blast
    next
      case False
      then show ?thesis using agree x(1) far_drain [OF assms(1,2)] by (auto simp: forget)
    qed
  qed
qed

end

section \<open>What each operation does\<close>

lemma store_invI:
  "dict_ok (store_data s) \<Longrightarrow> dict_ok (store_expires_at s) \<Longrightarrow> wheel_inv (timing_wheel s) \<Longrightarrow>
   deadlines_agree s \<Longrightarrow> dom (expiry s) \<subseteq> dom (content s) \<Longrightarrow> store_inv s"
  by (simp add: store_inv_def)

lemma store_invD:
  assumes "store_inv s"
  shows "dict_ok (store_data s)" "dict_ok (store_expires_at s)" "wheel_inv (timing_wheel s)"
    "deadlines_agree s" "dom (expiry s) \<subseteq> dom (content s)"
  using assms unfolding store_inv_def by blast+

lemma deadlines_agreeI:
  "(\<And>k d. expiry s k = Some d \<Longrightarrow> deadline (timing_wheel s) k = Some d \<or> too_far (timing_wheel s) d) \<Longrightarrow>
   (\<And>k d. deadline (timing_wheel s) k = Some d \<Longrightarrow> expiry s k \<noteq> None) \<Longrightarrow> deadlines_agree s"
  unfolding deadlines_agree_def by blast

lemma deadlines_agreeD:
  assumes "deadlines_agree s"
  shows "expiry s k = Some d \<Longrightarrow> deadline (timing_wheel s) k = Some d \<or> too_far (timing_wheel s) d"
    and "deadline (timing_wheel s) k = Some d \<Longrightarrow> \<exists>d'. expiry s k = Some d'"
  using assms unfolding deadlines_agree_def by blast+

lemma process_expirations_effect:
  assumes inv: "store_inv s" and p: "process_expirations at_time s = (n, s')"
  defines "t \<equiv> (case at_time of None \<Rightarrow> now_of s | Some t \<Rightarrow> t)"
  shows "store_inv s'"
    and "content s' = content s |` (- purged t s)"
    and "expiry s' = expiry s |` (- purged t s)"
    and "n = int (card (purged t s))"
    and "timing_wheel s' = snd (pop_due t (timing_wheel s))"
    and "time_source s' = time_source s"
    and "clock_reads s' = (if at_time = None then Suc (clock_reads s) else clock_reads s)"
proof -
  obtain due w where pop: "pop_due t (timing_wheel s) = (due, w)" by fastforce
  obtain data expires m where f: "fold (expire_entry t) due (store_data s, store_expires_at s, 0) =
      (data, expires, m)"
    by (metis prod_cases3)
  have s': "s' = s\<lparr>clock_reads := (if at_time = None then Suc (clock_reads s) else clock_reads s),
      store_data := data, store_expires_at := expires, timing_wheel := w\<rparr>" and m: "n = m"
    using p pop f by (auto simp: process_expirations_def read_time_def t_def now_of_def split: option.splits)
  have K: "purged t s = passed t (expiry s) (timer_key ` set due)" by (simp add: purged_def passed_def pop)
  note A = store_invD(4) [OF inv, unfolded deadlines_agree_def]
  note P = wheel.purge_matches_drain [OF store_invD(3) [OF inv] pop store_invD(1,2) [OF inv]
      conjunct1 [OF A] conjunct2 [OF A] store_invD(5) [OF inv] f]
  have w: "wheel_inv w" using wheel.invar_drain [OF store_invD(3) [OF inv] pop] .
  have "deadlines_agree s'" using P(6,7) by (simp add: s' deadlines_agree_def)
  then show "store_inv s'" by (intro store_invI) (use P w in \<open>simp_all add: s'\<close>)
  show "content s' = content s |` (- purged t s)" using P(1) by (simp add: s' K)
  show "expiry s' = expiry s |` (- purged t s)" using P(2) by (simp add: s' K)
  show "n = int (card (purged t s))" using P(3) by (simp add: m K)
  show "timing_wheel s' = snd (pop_due t (timing_wheel s))" by (simp add: s' pop)
  show "time_source s' = time_source s" by (simp add: s')
  show "clock_reads s' = (if at_time = None then Suc (clock_reads s) else clock_reads s)"
    by (simp add: s')
qed

text \<open>A purged key had a deadline, and it has passed.\<close>

lemma purged_due: "k \<in> purged t s \<Longrightarrow> \<exists>d. expiry s k = Some d \<and> d \<le> t"
  by (simp add: purged_def)

named_theorems store_simps \<open>what the store operations do to content, expiry and clock\<close>

lemma process_expirations_None:
  "process_expirations None s = (fst (process_expirations None s), swept s)"
  by (simp add: swept_def)

lemma swept_effect [store_simps]:
  assumes "store_inv s"
  shows "store_inv (swept s)"
    and "content (swept s) = content s |` (- purged (now_of s) s)"
    and "expiry (swept s) = expiry s |` (- purged (now_of s) s)"
    and "timing_wheel (swept s) = snd (pop_due (now_of s) (timing_wheel s))"
    and "time_source (swept s) = time_source s"
    and "clock_reads (swept s) = Suc (clock_reads s)"
  using process_expirations_effect [OF assms process_expirations_None] by simp_all

text \<open>
  The numbers of seconds that give a deadline too far ahead for the wheel, counted from the next
  reading of the clock.
\<close>

definition deadline_too_far :: "MemoryStore \<Rightarrow> int \<Rightarrow> bool" where
  "deadline_too_far s n \<longleftrightarrow> too_far (timing_wheel s) (now_of s + of_int n)"

text \<open>Every operation in terms of the swept state.\<close>

lemma store_set_eq: "store_set k v s =
    clear_expiry k ((swept s)\<lparr>store_data := AList.update k v (store_data (swept s))\<rparr>)"
  by (subst store_set_def, subst process_expirations_None) simp

lemma store_get_eq: "store_get k s = (content (swept s) k, swept s)"
  by (subst store_get_def, subst process_expirations_None) simp

lemma store_delete_eq: "store_delete k s =
    (if content (swept s) k = None then (False, swept s)
     else (True, clear_expiry k ((swept s)\<lparr>store_data := AList.delete k (store_data (swept s))\<rparr>)))"
  by (subst store_delete_def, subst process_expirations_None) simp

lemma store_expire_eq: "store_expire k n s =
    (if content (swept s) k = None then (Inr False, swept s)
     else if n \<le> 0 then (Inr True, snd (store_delete k (swept s)))
     else let s2 = (swept s)\<lparr>clock_reads := Suc (clock_reads (swept s))\<rparr> in
       if n < float_int_limit then
         let d = now_of (swept s) + of_int n; x = schedule k d (timing_wheel s2) in
         (map_sum id (\<lambda>_. True) (fst x),
          s2\<lparr>store_expires_at := AList.update k d (store_expires_at s2), timing_wheel := snd x\<rparr>)
       else (Inl OverflowError, s2))"
  by (subst store_expire_def, subst process_expirations_None)
    (simp add: read_time_def now_of_def py_float_of_int_def Let_def case_prod_beta split: sum.split)

lemma store_ttl_eq: "store_ttl k s =
    (if content (swept s) k = None then (- 2, swept s)
     else case expiry (swept s) k of
         None \<Rightarrow> (- 1, swept s)
       | Some d \<Rightarrow>
           let s2 = (swept s)\<lparr>clock_reads := Suc (clock_reads (swept s))\<rparr>;
               remaining = py_trunc (d - now_of (swept s)) in
           if remaining < 0 then (- 2, snd (store_delete k s2)) else (remaining, s2))"
  by (subst store_ttl_def, subst process_expirations_None)
    (simp add: read_time_def now_of_def Let_def split: option.split)

lemma store_keys_eq: "store_keys p s =
    (filter (\<lambda>k. fnmatch k p) (map fst (store_data (swept s))), swept s)"
  by (subst store_keys_def, subst process_expirations_None) simp

lemma store_snapshot_eq: "store_snapshot s = (store_data (swept s), swept s)"
  by (subst store_snapshot_def, subst process_expirations_None) simp

lemma store_flush_eq: "store_flush s = (int (length (store_data (swept s))),
    (swept s)\<lparr>store_data := [], store_expires_at := [], timing_wheel := default_wheel\<rparr>)"
  by (subst store_flush_def, subst process_expirations_None) simp

lemmas store_op_eqs = store_set_eq store_get_eq store_delete_eq store_expire_eq store_ttl_eq
  store_keys_eq store_snapshot_eq store_flush_eq

section \<open>Every operation keeps the invariant\<close>

lemma store_inv_clock [simp]: "store_inv (s\<lparr>clock_reads := n\<rparr>) = store_inv s"
  by (simp add: store_inv_def deadlines_agree_def)

lemma clear_expiry_fields [simp]:
  "store_data (clear_expiry k s) = store_data s"
  "store_expires_at (clear_expiry k s) = AList.delete k (store_expires_at s)"
  "timing_wheel (clear_expiry k s) = cancel k (timing_wheel s)"
  "time_source (clear_expiry k s) = time_source s"
  "clock_reads (clear_expiry k s) = clock_reads s"
  by (simp_all add: clear_expiry_def)

lemma clear_expiry_inv:
  assumes inv: "store_inv s" and data: "dict_ok d" and sub: "dom (content s) \<subseteq> insert k (dom (map_of d))"
  shows "store_inv (clear_expiry k (s\<lparr>store_data := d\<rparr>))"
proof (rule store_invI)
  note I = store_invD [OF inv]
  show "dict_ok (store_data (clear_expiry k (s\<lparr>store_data := d\<rparr>)))" using data by simp
  show "dict_ok (store_expires_at (clear_expiry k (s\<lparr>store_data := d\<rparr>)))"
    using I(2) by (simp add: dict_ok_delete)
  show "wheel_inv (timing_wheel (clear_expiry k (s\<lparr>store_data := d\<rparr>)))" using I(3) by simp
  show "deadlines_agree (clear_expiry k (s\<lparr>store_data := d\<rparr>))"
  proof (rule deadlines_agreeI)
    fix k' x
    show "deadline (timing_wheel (clear_expiry k (s\<lparr>store_data := d\<rparr>))) k' = Some x \<or>
        too_far (timing_wheel (clear_expiry k (s\<lparr>store_data := d\<rparr>))) x"
      if "expiry (clear_expiry k (s\<lparr>store_data := d\<rparr>)) k' = Some x"
      using that deadlines_agreeD(1) [OF I(4)] wheel.far_unsched [OF I(3)]
      by (auto simp: AList.delete_conv' wheel.due_time_unsched [OF I(3)] split: if_splits)
    show "expiry (clear_expiry k (s\<lparr>store_data := d\<rparr>)) k' \<noteq> None"
      if "deadline (timing_wheel (clear_expiry k (s\<lparr>store_data := d\<rparr>))) k' = Some x"
      using that deadlines_agreeD(2) [OF I(4)]
      by (auto simp: AList.delete_conv' wheel.due_time_unsched [OF I(3)] split: if_splits)
  qed
  show "dom (expiry (clear_expiry k (s\<lparr>store_data := d\<rparr>))) \<subseteq>
      dom (content (clear_expiry k (s\<lparr>store_data := d\<rparr>)))"
    using I(5) sub by (simp add: AList.delete_conv') blast
qed

lemma store_inv_set: "store_inv s \<Longrightarrow> store_inv (store_set k v s)"
  unfolding store_set_eq
  by (rule clear_expiry_inv)
    (use swept_effect(1) [of s] store_invD(1) [of "swept s"] in \<open>auto simp: AList.update_conv'\<close>)

lemma store_inv_delete: "store_inv s \<Longrightarrow> store_inv (snd (store_delete k s))"
proof -
  assume "store_inv s"
  then have inv: "store_inv (swept s)" by (rule swept_effect)
  have "store_inv (clear_expiry k ((swept s)\<lparr>store_data := AList.delete k (store_data (swept s))\<rparr>))"
    by (rule clear_expiry_inv [OF inv])
      (use store_invD(1) [OF inv] in \<open>auto simp: AList.delete_conv'\<close>)
  with inv show ?thesis by (simp add: store_delete_eq)
qed

lemma store_inv_schedule:
  assumes inv: "store_inv s" and k: "content s k \<noteq> None"
  shows "store_inv (s\<lparr>store_expires_at := AList.update k d (store_expires_at s),
    timing_wheel := snd (schedule k d (timing_wheel s))\<rparr>)"
proof (rule store_invI)
  note I = store_invD [OF inv]
  let ?s = "s\<lparr>store_expires_at := AList.update k d (store_expires_at s),
    timing_wheel := snd (schedule k d (timing_wheel s))\<rparr>"
  show "dict_ok (store_data ?s)" "dict_ok (store_expires_at ?s)" using I(1,2) by auto
  show "wheel_inv (timing_wheel ?s)" using wheel.invar_sched [OF I(3)] by simp
  show "deadlines_agree ?s"
  proof (rule deadlines_agreeI)
    fix k' x
    show "deadline (timing_wheel ?s) k' = Some x \<or> too_far (timing_wheel ?s) x" if "expiry ?s k' = Some x"
      using that deadlines_agreeD(1) [OF I(4), of k' x] wheel.far_sched [OF I(3), of x k d]
      by (auto simp: AList.update_conv' wheel.due_time_sched [OF I(3)] split: if_splits)
    show "expiry ?s k' \<noteq> None" if "deadline (timing_wheel ?s) k' = Some x"
      using that deadlines_agreeD(2) [OF I(4), of k' x]
      by (auto simp: AList.update_conv' wheel.due_time_sched [OF I(3)] split: if_splits)
  qed
  show "dom (expiry ?s) \<subseteq> dom (content ?s)" using I(5) k by (auto simp: AList.update_conv')
qed

lemma store_inv_expire: "store_inv s \<Longrightarrow> store_inv (snd (store_expire k n s))"
proof -
  assume "store_inv s"
  then have inv: "store_inv (swept s)" by (rule swept_effect)
  then have clock: "store_inv ((swept s)\<lparr>clock_reads := c\<rparr>)" for c by simp
  show ?thesis
    using inv store_inv_delete [OF inv] store_inv_schedule [OF clock, of _ k]
    by (simp add: store_expire_eq Let_def)
qed

text \<open>EXPIRE of a stored key with a positive number, in the two cases of the wheel.\<close>

lemma store_expire_pos:
  assumes inv: "store_inv s" and k: "content (swept s) k \<noteq> None" and n: "0 < n" "n < float_int_limit"
  shows "fst (store_expire k n s) =
      (if deadline_too_far (swept s) n then Inl OverflowError else Inr True)"
    and "content (snd (store_expire k n s)) = content (swept s)"
    and "expiry (snd (store_expire k n s)) = (expiry (swept s))(k \<mapsto> now_of (swept s) + of_int n)"
    and "deadline (timing_wheel (snd (store_expire k n s))) =
      (if deadline_too_far (swept s) n then deadline (timing_wheel (swept s))
       else (deadline (timing_wheel (swept s)))(k \<mapsto> now_of (swept s) + of_int n))"
proof -
  note W = store_invD(3) [OF swept_effect(1) [OF inv]]
  show "fst (store_expire k n s) = (if deadline_too_far (swept s) n then Inl OverflowError else Inr True)"
    using k n by (simp add: store_expire_eq Let_def wheel.sched_result [OF W] deadline_too_far_def)
  show "content (snd (store_expire k n s)) = content (swept s)"
    and "expiry (snd (store_expire k n s)) = (expiry (swept s))(k \<mapsto> now_of (swept s) + of_int n)"
    using k n by (auto simp: store_expire_eq Let_def AList.update_conv')
  show "deadline (timing_wheel (snd (store_expire k n s))) =
      (if deadline_too_far (swept s) n then deadline (timing_wheel (swept s))
       else (deadline (timing_wheel (swept s)))(k \<mapsto> now_of (swept s) + of_int n))"
    using k n by (auto simp: store_expire_eq Let_def wheel.due_time_sched [OF W] deadline_too_far_def)
qed

lemma store_inv_ttl: "store_inv s \<Longrightarrow> store_inv (snd (store_ttl k s))"
proof -
  assume "store_inv s"
  then have inv: "store_inv (swept s)" by (rule swept_effect)
  then have clock: "store_inv ((swept s)\<lparr>clock_reads := c\<rparr>)" for c by simp
  show ?thesis
    using inv store_inv_delete [OF clock] by (simp add: store_ttl_eq Let_def split: option.split)
qed

lemma store_inv_flush: "store_inv s \<Longrightarrow> store_inv (snd (store_flush s))"
  by (simp add: store_flush_eq store_inv_def deadlines_agree_def fun_eq_iff deadline_def dom_def)

lemma store_inv_process: "store_inv s \<Longrightarrow> store_inv (snd (process_expirations t s))"
  using process_expirations_effect(1) by (metis surjective_pairing)

lemma apply_replay_eq: "apply_replay_request U r s = (let s1 = swept s in
      if req_command r = SET \<and> length (req_args r) = 2 then
        (Inr (), store_set (req_args r ! 0) (req_args r ! 1) s1)
      else if req_command r = DEL \<and> length (req_args r) = 1 then
        (Inr (), snd (store_delete (req_args r ! 0) s1))
      else if req_command r = EXPIRE \<and> length (req_args r) = 2 then
        (case py_int U (req_args r ! 1) of
           Inl _ \<Rightarrow> (Inr (), s1)
         | Inr seconds \<Rightarrow>
             (map_sum id (\<lambda>_. ()) (fst (store_expire (req_args r ! 0) seconds s1)),
              snd (store_expire (req_args r ! 0) seconds s1)))
      else if req_command r = FLUSHALL \<and> length (req_args r) = 0 then
        (Inr (), snd (store_flush s1))
      else (Inr (), s1))"
  by (subst apply_replay_request_def, subst process_expirations_None)
    (auto simp: Let_def split: sum.split prod.split)

lemma store_inv_replay: "store_inv s \<Longrightarrow> store_inv (snd (apply_replay_request U r s))"
proof -
  assume "store_inv s"
  then have "store_inv (swept s)" by (rule swept_effect)
  then show ?thesis
    by (auto simp: apply_replay_eq Let_def store_inv_set store_inv_delete store_inv_expire
        store_inv_flush split: sum.split)
qed

lemma store_inv_init: "(\<forall>w. wheel = Some w \<longrightarrow> wheel_inv w \<and> entries_by_key w = []) \<Longrightarrow>
    store_inv (MemoryStore_init clock wheel)"
  by (auto simp: MemoryStore_init_def store_inv_def deadlines_agree_def deadline_def split: option.split)

lemmas store_inv_ops = store_inv_set store_inv_delete store_inv_expire store_inv_ttl store_inv_flush
  store_inv_process store_inv_replay swept_effect(1)

section \<open>The store meets its contract\<close>

lemma swept_sub:
  assumes "store_inv s"
  shows "content (swept s) \<subseteq>\<^sub>m content s" and "expiry (swept s) \<subseteq>\<^sub>m expiry s"
  by (auto simp: swept_effect(2,3) [OF assms] map_le_def restrict_map_def split: if_splits)

lemma swept_persistent:
  assumes "store_inv s" and "expiry s k = None"
  shows "content (swept s) k = content s k"
  using purged_due [of k "now_of s" s] assms(2)
  by (auto simp: swept_effect(2) [OF assms(1)] restrict_map_def)

lemma content_set: "content (store_set k v s) = (content (swept s))(k \<mapsto> v)"
  by (simp add: store_set_eq AList.update_conv')

lemma expiry_set: "expiry (store_set k v s) = (expiry (swept s))(k := None)"
  by (simp add: store_set_eq AList.delete_conv')

lemma content_delete: "content (snd (store_delete k s)) = (content (swept s))(k := None)"
  by (auto simp: store_delete_eq AList.delete_conv')

lemma expiry_delete:
  "store_inv s \<Longrightarrow> expiry (snd (store_delete k s)) = (expiry (swept s))(k := None)"
  using store_invD(5) [OF swept_effect(1), of s]
  by (auto simp: store_delete_eq AList.delete_conv' fun_eq_iff)

lemma content_delete_self: "store_inv s \<Longrightarrow> content (snd (store_delete k s)) k = None"
  by (simp add: content_delete)

lemma float_int_limit_gt_0: "n \<le> 0 \<Longrightarrow> n < float_int_limit"
  using float_int_limit_pos by linarith

lemma card_dom_content: "store_inv s \<Longrightarrow> card (dom (content s)) = length (store_data s)"
  by (simp add: dom_map_of_conv_image_fst distinct_card store_invD flip: set_map)

interpretation memory_store: store_contract memory_store_ops store_inv content expiry swept fnmatch
  deadline_too_far
proof unfold_locales
  fix s :: MemoryStore and k v :: pystr and n :: int and t :: "rat option" and p :: pystr
  assume inv: "store_inv s"
  have inv': "store_inv (swept s)" using inv by (rule swept_effect)
  show "store_inv (swept s)" by (rule inv')
  show "content (swept s) \<subseteq>\<^sub>m content s" "expiry (swept s) \<subseteq>\<^sub>m expiry s"
    using inv by (rule swept_sub)+
  show "content (swept s) k = content s k" if "expiry s k = None"
    using inv that by (rule swept_persistent)
  show "store_inv (op_set memory_store_ops k v s)"
    "store_inv (snd (op_delete memory_store_ops k s))"
    "store_inv (snd (op_expire memory_store_ops k n s))"
    "store_inv (snd (op_ttl memory_store_ops k s))"
    "store_inv (snd (op_process_expirations memory_store_ops t s))"
    "store_inv (snd (op_flush memory_store_ops s))"
    using inv by (simp_all add: memory_store_ops_def store_inv_ops)
  show "content (op_set memory_store_ops k v s) = (content (swept s))(k \<mapsto> v)"
    "expiry (op_set memory_store_ops k v s) = (expiry (swept s))(k := None)"
    by (simp_all add: memory_store_ops_def content_set expiry_set)
  show "op_get memory_store_ops k s = (content (swept s) k, swept s)"
    by (simp add: memory_store_ops_def store_get_eq)
  show "fst (op_delete memory_store_ops k s) = (content (swept s) k \<noteq> None)"
    "content (snd (op_delete memory_store_ops k s)) = (content (swept s))(k := None)"
    by (simp_all add: memory_store_ops_def content_delete, simp add: store_delete_eq)
  show "expiry (snd (op_delete memory_store_ops k s)) = (expiry (swept s))(k := None)"
    using inv by (simp add: memory_store_ops_def expiry_delete)
  show "expiry (snd (op_flush memory_store_ops s)) = Map.empty"
    by (simp add: memory_store_ops_def store_flush_eq)
  show "op_expire memory_store_ops k n s = (Inr False, swept s)" if "content (swept s) k = None"
    using that by (simp add: memory_store_ops_def store_expire_eq)
  show "fst (op_expire memory_store_ops k n s) = Inr True \<and>
      content (snd (op_expire memory_store_ops k n s)) k = None"
    if "content (swept s) k \<noteq> None" "n \<le> 0"
    using that inv' by (simp add: memory_store_ops_def store_expire_eq content_delete)
  show "fst (op_expire memory_store_ops k n s) =
        (if deadline_too_far (swept s) n then Inl OverflowError else Inr True) \<and>
      content (snd (op_expire memory_store_ops k n s)) = content (swept s) \<and>
      expiry (snd (op_expire memory_store_ops k n s)) k \<noteq> None"
    if "content (swept s) k \<noteq> None" "0 < n" "n < float_int_limit"
    using that store_expire_pos [OF inv that] by (simp add: memory_store_ops_def)
  show "fst (op_expire memory_store_ops k n s) = Inl OverflowError \<and>
      content (snd (op_expire memory_store_ops k n s)) = content (swept s)"
    if "content (swept s) k \<noteq> None" "float_int_limit \<le> n"
    using that float_int_limit_gt_0 [of n] by (auto simp: memory_store_ops_def store_expire_eq Let_def)
  show "op_ttl memory_store_ops k s = (- 2, swept s)" if "content (swept s) k = None"
    using that by (simp add: memory_store_ops_def store_ttl_eq)
  show "op_ttl memory_store_ops k s = (- 1, swept s)"
    if "content (swept s) k \<noteq> None" "expiry (swept s) k = None"
    using that by (simp add: memory_store_ops_def store_ttl_eq)
  show "snd (op_process_expirations memory_store_ops None s) = swept s"
    by (simp add: memory_store_ops_def swept_def)
  show "snd (op_keys memory_store_ops p s) = swept s \<and>
      set (fst (op_keys memory_store_ops p s)) = {k \<in> dom (content (swept s)). fnmatch k p} \<and>
      distinct (fst (op_keys memory_store_ops p s))"
    using store_invD(1) [OF inv']
    by (auto simp: memory_store_ops_def store_keys_eq dom_map_of_conv_image_fst)
  show "fst (op_flush memory_store_ops s) = int (card (dom (content (swept s))))"
    "content (snd (op_flush memory_store_ops s)) = Map.empty"
    by (simp_all add: memory_store_ops_def store_flush_eq card_dom_content [OF inv'])
  show "snd (op_snapshot memory_store_ops s) = swept s \<and>
      map_of (fst (op_snapshot memory_store_ops s)) = content (swept s)"
    by (simp add: memory_store_ops_def store_snapshot_eq)
qed

end
