(* ===== verification/Store_Expiry.thy ===== *)
theory Store_Expiry
  imports Store
begin

text \<open>
  When the store of src/src/store.py drops an expired key. \<open>store_timely\<close> is the second
  invariant of the store: with a clock that does not go backwards, the wheel has never run
  ahead of the clock and no deadline is more than a turn behind it. Together with the
  representation invariant it bounds how long an expired key can still be read.
\<close>

section \<open>Timeliness\<close>

definition store_timely :: "MemoryStore \<Rightarrow> bool" where
  "store_timely s \<longleftrightarrow> mono (time_source s) \<and> wheel_fresh (timing_wheel s) \<and>
     caught_up (timing_wheel s) (now_of s)"

lemma store_timelyI:
  "mono (time_source s) \<Longrightarrow> wheel_fresh (timing_wheel s) \<Longrightarrow>
   caught_up (timing_wheel s) (now_of s) \<Longrightarrow> store_timely s"
  by (simp add: store_timely_def)

lemma store_timelyD:
  assumes "store_timely s"
  shows "mono (time_source s)" "wheel_fresh (timing_wheel s)" "caught_up (timing_wheel s) (now_of s)"
  using assms by (simp_all add: store_timely_def)

lemma now_of_le:
  assumes "mono (time_source s)" and "time_source s' = time_source s"
    and "clock_reads s \<le> clock_reads s'"
  shows "now_of s \<le> now_of s'"
  using assms by (simp add: now_of_def monoD)

lemma timely_later:
  assumes "wheel_inv (timing_wheel s)" and "store_timely s" and "clock_reads s \<le> c"
  shows "store_timely (s\<lparr>clock_reads := c\<rparr>)"
proof (rule store_timelyI)
  note T = store_timelyD [OF assms(2)]
  have "now_of s \<le> now_of (s\<lparr>clock_reads := c\<rparr>)" using T(1) assms(3) by (simp add: now_of_le)
  then show "caught_up (timing_wheel (s\<lparr>clock_reads := c\<rparr>)) (now_of (s\<lparr>clock_reads := c\<rparr>))"
    using caught_up_mono [OF assms(1) T(3)] by simp
qed (use store_timelyD [OF assms(2)] in simp_all)

lemma timely_swept:
  assumes "store_inv s" and "store_timely s"
  shows "store_timely (swept s)"
proof (rule store_timelyI)
  note T = store_timelyD [OF assms(2)] and S = swept_effect [OF assms(1)]
  have inv: "wheel_inv (timing_wheel s)" using assms(1) by (rule store_invD)
  obtain due w where pop: "pop_due (now_of s) (timing_wheel s) = (due, w)" by fastforce
  show "mono (time_source (swept s))" using T S by simp
  show "wheel_fresh (timing_wheel (swept s))"
    using pop_due_fresh [OF inv T(2) pop] pop by (simp add: S)
  have "now_of s \<le> now_of (swept s)" using T(1) S by (intro now_of_le) auto
  with pop_due_caught_up [OF inv T(3) pop] caught_up_mono store_invD(3) [OF S(1)] pop
  show "caught_up (timing_wheel (swept s)) (now_of (swept s))" by (metis S(4) snd_conv)
qed

lemma timely_clear_expiry:
  "store_timely s \<Longrightarrow> store_timely (clear_expiry k (s\<lparr>store_data := d\<rparr>))"
  by (simp add: store_timely_def wheel_fresh_cancel caught_up_cancel now_of_def)

lemma timely_set: "store_inv s \<Longrightarrow> store_timely s \<Longrightarrow> store_timely (store_set k v s)"
  by (simp add: store_set_eq timely_clear_expiry timely_swept)

lemma timely_delete: "store_inv s \<Longrightarrow> store_timely s \<Longrightarrow> store_timely (snd (store_delete k s))"
  by (simp add: store_delete_eq timely_clear_expiry timely_swept)

lemma timely_schedule:
  assumes "wheel_inv (timing_wheel s)" and "store_timely s" and "now_of s \<le> d"
  shows "store_timely (s\<lparr>store_expires_at := e, timing_wheel := snd (schedule k d (timing_wheel s))\<rparr>)"
  using store_timelyD [OF assms(2)] schedule_fresh [OF assms(1) _ _ assms(3), of k]
    schedule_caught_up [OF assms(1), of "now_of s" k d]
  by (simp add: store_timely_def now_of_def schedule_alt [OF assms(1)])

lemma timely_expire:
  assumes "store_inv s" and "store_timely s"
  shows "store_timely (snd (store_expire k n s))"
proof -
  note inv = swept_effect(1) [OF assms(1)] and T = timely_swept [OF assms]
  let ?s2 = "(swept s)\<lparr>clock_reads := Suc (clock_reads (swept s))\<rparr>"
  note W = store_invD(3) [OF inv]
  have T2: "store_timely ?s2" using timely_later [OF W T] by simp
  have "store_timely (?s2\<lparr>store_expires_at := AList.update k d (store_expires_at ?s2),
      timing_wheel := snd (schedule k d (timing_wheel ?s2))\<rparr>)" if "now_of (swept s) \<le> d" for d
  proof -
    have "store_timely ((swept s)\<lparr>store_expires_at := AList.update k d (store_expires_at ?s2),
        timing_wheel := snd (schedule k d (timing_wheel (swept s)))\<rparr>)" (is "store_timely ?s3")
      using timely_schedule [OF W T that] .
    moreover have "wheel_inv (timing_wheel ?s3)" using wheel.invar_sched [OF W] by simp
    ultimately have "store_timely (?s3\<lparr>clock_reads := Suc (clock_reads (swept s))\<rparr>)"
      by (intro timely_later) simp_all
    then show ?thesis by (simp add: store_timely_def now_of_def)
  qed
  then show ?thesis
    using T T2 timely_delete [OF inv T] by (simp add: store_expire_eq Let_def)
qed

lemma timely_ttl:
  assumes "store_inv s" and "store_timely s"
  shows "store_timely (snd (store_ttl k s))"
proof -
  note inv = swept_effect(1) [OF assms(1)] and T = timely_swept [OF assms]
  let ?s2 = "(swept s)\<lparr>clock_reads := Suc (clock_reads (swept s))\<rparr>"
  have T2: "store_timely ?s2" using timely_later [OF store_invD(3) [OF inv] T] by simp
  have "store_timely (snd (store_delete k ?s2))" using T2 inv by (intro timely_delete) simp_all
  then show ?thesis using T T2 by (simp add: store_ttl_eq Let_def split: option.split)
qed

lemma caught_up_default [simp]: "caught_up default_wheel t"
  by (simp add: caught_up_def default_wheel_def)

lemma timely_flush:
  assumes "store_inv s" and "store_timely s"
  shows "store_timely (snd (store_flush s))"
  using store_timelyD [OF timely_swept [OF assms]] by (simp add: store_timely_def store_flush_eq)

lemma timely_init: "mono clock \<Longrightarrow> store_timely (MemoryStore_init clock None)"
  by (simp add: store_timely_def MemoryStore_init_def)

lemmas store_timely_ops = timely_set timely_delete timely_expire timely_ttl timely_flush timely_swept

section \<open>How long an expired key can be read\<close>

lemma swept_keeps_live:
  assumes "store_inv s" and "content s k = Some v" and "\<And>d. expiry s k = Some d \<Longrightarrow> now_of s < d"
  shows "content (swept s) k = Some v" and "expiry (swept s) k = expiry s k"
  using purged_due [of k "now_of s" s] assms(2,3)
  by (force simp: swept_effect(2,3) [OF assms(1)] restrict_map_def)+

lemma swept_drops_due:
  assumes "store_inv s" and "expiry s k = Some d" and "d \<le> now_of s"
    and "\<not> too_far (timing_wheel s) d"
    and "last_processed_tick (timing_wheel s) < tick_at (timing_wheel s) d"
  shows "content (swept s) k = None"
proof -
  obtain due w where pop: "pop_due (now_of s) (timing_wheel s) = (due, w)" by fastforce
  have "deadline (timing_wheel s) k = Some d"
    using deadlines_agreeD(1) [OF store_invD(4) [OF assms(1)] assms(2)] assms(4) by blast
  then have "\<lparr>timer_key = k, timer_expires_at = d\<rparr> \<in> set due"
    using drain_prompt [OF store_invD(3) [OF assms(1)] pop _ assms(3,5)] by blast
  then have "k \<in> purged (now_of s) s" using assms(2,3) by (force simp: purged_def pop)
  then show ?thesis by (simp add: swept_effect(2) [OF assms(1)])
qed

lemma swept_lateness:
  assumes "store_inv s" and "store_timely s" and "expiry (swept s) k = Some d"
    and "\<not> too_far (timing_wheel s) (now_of s)"
  shows "now_of s - d < of_int (bucket_count (timing_wheel s)) * tick_seconds (timing_wheel s)"
proof -
  obtain due w where pop: "pop_due (now_of s) (timing_wheel s) = (due, w)" by fastforce
  note S = swept_effect [OF assms(1)] and W = store_invD(3) [OF assms(1)]
  have w: "timing_wheel (swept s) = w" using S(4) pop by simp
  consider "deadline w k = Some d" | "too_far w d"
    using deadlines_agreeD(1) [OF store_invD(4) [OF S(1)] assms(3)] w by blast
  then show ?thesis
  proof cases
    case 1
    then show ?thesis using drain_lateness [OF W store_timelyD(2) [OF assms(2)] pop] by blast
  next
    case 2
    have "\<not> too_far w (now_of s)"
      using assms(4) by (auto simp: too_far_def pop_due_effect(7,9) [OF W pop] split: option.splits)
    then have "\<not> d \<le> now_of s"
      using too_far_later [OF _ 2] store_invD(3) [OF S(1)] w by blast
    moreover have "0 < of_int (bucket_count (timing_wheel s)) * tick_seconds (timing_wheel s)"
      using wheel_inv_pos [OF W] by simp
    ultimately show ?thesis by linarith
  qed
qed

lemma swept_skips_due:
  assumes "store_inv s" and "deadline (timing_wheel s) k = Some d"
    and "now_of s < d" and "tick_at (timing_wheel s) (now_of s) = tick_at (timing_wheel s) d"
    and "tick_at (timing_wheel s) (now_of (swept s)) <
      tick_at (timing_wheel s) d + bucket_count (timing_wheel s)"
  shows "content (swept (swept s)) k = content s k"
proof -
  obtain due0 w0 where p0: "pop_due (now_of s) (timing_wheel s) = (due0, w0)" by fastforce
  obtain due1 w1 where p1: "pop_due (now_of (swept s)) w0 = (due1, w1)" by fastforce
  note S = swept_effect [OF assms(1)]
  from drain_misses_key [OF store_invD(3) [OF assms(1)] assms(2) p0 assms(3,4) p1 assms(5)]
  show ?thesis
    using p0 p1 by (simp add: swept_effect(2) [OF S(1)] S(2,4) purged_def restrict_map_def)
qed

text \<open>Expiration processing at a given time, and the replay of one request.\<close>

lemma timely_process:
  assumes "store_inv s" and "store_timely s" and "\<forall>t'. t = Some t' \<longrightarrow> t' \<le> now_of s"
  shows "store_timely (snd (process_expirations t s))"
proof (cases t)
  case None
  then show ?thesis using timely_swept [OF assms(1,2)] by (simp add: swept_def)
next
  case (Some t1)
  note T = store_timelyD [OF assms(2)] and W = store_invD(3) [OF assms(1)]
  note P = process_expirations_effect [OF assms(1) surjective_pairing, of t]
  obtain due w where pop: "pop_due t1 (timing_wheel s) = (due, w)" by fastforce
  have w: "timing_wheel (snd (process_expirations t s)) = w" using P(5) pop Some by simp
  have "caught_up w (now_of s)"
    using drain_caught_up_later [OF W T(3) pop] assms(3) Some by simp
  then show ?thesis
    using pop_due_fresh [OF W T(2) pop] T(1) P(6,7) w Some by (simp add: store_timely_def now_of_def)
qed

lemma timely_replay:
  assumes "store_inv s" and "store_timely s"
  shows "store_timely (snd (apply_replay_request U r s))"
proof -
  note inv = swept_effect(1) [OF assms(1)] and T = timely_swept [OF assms]
  show ?thesis
    by (auto simp: apply_replay_eq Let_def T timely_set [OF inv T] timely_delete [OF inv T]
        timely_expire [OF inv T] timely_flush [OF inv T] split: sum.split)
qed

section \<open>A store for the witnesses\<close>

text \<open>A clock that returns the readings of a list, and its last one from then on.\<close>

definition clock_of :: "rat list \<Rightarrow> nat \<Rightarrow> rat" where
  "clock_of xs n = xs ! min n (length xs - 1)"

lemma mono_clock_of: "xs \<noteq> [] \<Longrightarrow> sorted xs \<Longrightarrow> mono (clock_of xs)"
proof (rule monoI)
  fix m n :: nat
  assume xs: "xs \<noteq> []" "sorted xs" and mn: "m \<le> n"
  have "min m (length xs - 1) \<le> min n (length xs - 1)" using mn by simp
  moreover have "min n (length xs - 1) < length xs" using xs(1) by (cases xs) simp_all
  ultimately show "clock_of xs m \<le> clock_of xs n"
    using xs(2) by (simp add: clock_of_def sorted_nth_mono)
qed

text \<open>
  SET k v at time 0 and EXPIRE k 1 whose two readings are 0.01 and 0.05, on the default wheel;
  the next readings are 1.02 and 1.2. So the deadline is 1.05.
\<close>

definition demo_store :: MemoryStore where
  "demo_store = snd (store_expire (lit ''k'') 1 (store_set (lit ''k'') (lit ''v'')
     (MemoryStore_init (clock_of [0, 1 / 100, 1 / 20, 51 / 50, 6 / 5]) None)))"

lemma demo_store_inv: "store_inv demo_store"
  unfolding demo_store_def by (intro store_inv_expire store_inv_set store_inv_init) simp

lemma demo_store_timely: "store_timely demo_store"
  unfolding demo_store_def
  by (intro timely_expire timely_set store_inv_set store_inv_init timely_init mono_clock_of) simp_all

lemma demo_store_facts:
  "content demo_store (lit ''k'') = Some (lit ''v'')"
  "expiry demo_store (lit ''k'') = Some (21 / 20)"
  "now_of demo_store = 51 / 50" "now_of (swept demo_store) = 6 / 5"
  "tick_at (timing_wheel demo_store) (51 / 50) = 10"
  "tick_at (timing_wheel demo_store) (21 / 20) = 10"
  "tick_at (timing_wheel demo_store) (6 / 5) = 12"
  "bucket_count (timing_wheel demo_store) = 512"
  "tick_seconds (timing_wheel demo_store) = 1 / 10"
  "last_processed_tick (timing_wheel demo_store) = 0"
  "deadline (timing_wheel demo_store) (lit ''k'') = Some (21 / 20)"
  by code_simp+

section \<open>Properties of the store\<close>

text \<open>
  C9: every operation of the store keeps both of its invariants, those that raise included. The
  first is the representation: only stored keys have deadlines, and the wheel has the deadline the
  dictionary has, except for a deadline too far ahead for the wheel, which EXPIRE leaves in the
  dictionary alone. The second is timeliness under a clock that does not go backwards; expiration
  processing keeps it when the time it is given is none or not ahead of the clock.
\<close>
theorem store_operations_keep_invariants:
  assumes "store_inv s" and "store_timely s"
  shows "store_inv (store_set k v s) \<and> store_timely (store_set k v s) \<and>
    store_inv (snd (store_get k s)) \<and> store_timely (snd (store_get k s)) \<and>
    store_inv (snd (store_delete k s)) \<and> store_timely (snd (store_delete k s)) \<and>
    store_inv (snd (store_expire k n s)) \<and> store_timely (snd (store_expire k n s)) \<and>
    store_inv (snd (store_ttl k s)) \<and> store_timely (snd (store_ttl k s)) \<and>
    store_inv (snd (store_keys p s)) \<and> store_timely (snd (store_keys p s)) \<and>
    store_inv (snd (store_snapshot s)) \<and> store_timely (snd (store_snapshot s)) \<and>
    store_inv (snd (store_flush s)) \<and> store_timely (snd (store_flush s)) \<and>
    store_inv (snd (apply_replay_request U r s)) \<and> store_timely (snd (apply_replay_request U r s)) \<and>
    store_inv (snd (process_expirations t s)) \<and>
    ((\<forall>t'. t = Some t' \<longrightarrow> t' \<le> now_of s) \<longrightarrow> store_timely (snd (process_expirations t s)))"
  using assms store_inv_ops store_timely_ops timely_replay timely_process
  by (simp add: store_get_eq store_keys_eq store_snapshot_eq)

theorem store_operations_keep_invariants_witness:
  "store_inv (snd (store_expire (lit ''k'') (10 ^ 308) demo_store)) \<and>
   store_timely (snd (store_flush demo_store))"
  using store_operations_keep_invariants [OF demo_store_inv demo_store_timely] by blast

text \<open>
  C18: read your writes. After SET the key reads back its new value and has no deadline, whatever
  deadline it had and whatever the clock does; another key that has no deadline keeps its value,
  and no operation invents a value for another key.
\<close>
theorem store_set_get:
  assumes "store_inv s"
  shows "fst (store_get k (store_set k v s)) = Some v \<and> fst (store_ttl k (store_set k v s)) = -1 \<and>
    (\<forall>k'. k' \<noteq> k \<longrightarrow> expiry s k' = None \<longrightarrow> fst (store_get k' (store_set k v s)) = content s k') \<and>
    (\<forall>k' x. k' \<noteq> k \<longrightarrow> fst (store_get k' (store_set k v s)) = Some x \<longrightarrow> content s k' = Some x)"
proof -
  have inv: "store_inv (store_set k v s)" using assms by (rule store_inv_set)
  have e: "expiry (store_set k v s) k' = None" if "k' = k \<or> expiry s k' = None" for k'
    using that swept_sub(2) [OF assms] by (auto simp: expiry_set map_le_def dom_def)
  have c: "content (swept (store_set k v s)) k = Some v"
    using swept_persistent [OF inv e] by (simp add: content_set)
  have "expiry (swept (store_set k v s)) k = None"
    using swept_sub(2) [OF inv] e [of k] by (auto simp: map_le_def dom_def)
  then have ttl: "fst (store_ttl k (store_set k v s)) = -1" using c by (simp add: store_ttl_eq)
  have "fst (store_get k' (store_set k v s)) = content s k'" if "k' \<noteq> k" "expiry s k' = None" for k'
    using swept_persistent [OF inv e] swept_persistent [OF assms that(2)] that
    by (simp add: store_get_eq content_set)
  then show ?thesis
    using c ttl memory_store.get_set_other [OF assms] by (simp add: store_get_eq memory_store_ops_def)
qed

theorem store_set_get_witness:
  "fst (store_get (lit ''k'') (store_set (lit ''k'') (lit ''w'') demo_store)) = Some (lit ''w'')"
  using store_set_get [OF demo_store_inv] by blast

text \<open>
  C11: no early expiry. A stored key that has no deadline, or whose deadline lies after the time
  the operation reads, is returned by GET with its value and keeps its deadline; and a key that
  GET does not find was not stored or its deadline has passed.
\<close>
theorem store_never_expires_early:
  assumes "store_inv s"
  shows "(content s k = Some v \<and> (expiry s k = None \<or> now_of s < the (expiry s k)) \<longrightarrow>
      fst (store_get k s) = Some v \<and> expiry (snd (store_get k s)) k = expiry s k) \<and>
    (fst (store_get k s) = None \<longrightarrow>
      content s k = None \<or> (\<exists>d. expiry s k = Some d \<and> d \<le> now_of s))"
proof (intro conjI impI)
  assume live: "content s k = Some v \<and> (expiry s k = None \<or> now_of s < the (expiry s k))"
  then have "now_of s < d" if "expiry s k = Some d" for d using that by simp
  with live swept_keeps_live [OF assms, of k v]
  show "fst (store_get k s) = Some v" and "expiry (snd (store_get k s)) k = expiry s k"
    by (simp_all add: store_get_eq)
next
  assume "fst (store_get k s) = None"
  then have none: "content (swept s) k = None" by (simp add: store_get_eq)
  show "content s k = None \<or> (\<exists>d. expiry s k = Some d \<and> d \<le> now_of s)"
  proof (rule ccontr)
    assume live: "\<not> (content s k = None \<or> (\<exists>d. expiry s k = Some d \<and> d \<le> now_of s))"
    then obtain x where "content s k = Some x" by (cases "content s k") simp_all
    moreover have "now_of s < d" if "expiry s k = Some d" for d using live that by fastforce
    ultimately show False using swept_keeps_live(1) [OF assms, of k x] none by simp
  qed
qed

theorem store_never_expires_early_witness:
  "fst (store_get (lit ''k'') demo_store) = Some (lit ''v'')"
proof -
  have "content demo_store (lit ''k'') = Some (lit ''v'') \<and>
      (expiry demo_store (lit ''k'') = None \<or> now_of demo_store < the (expiry demo_store (lit ''k'')))"
    unfolding demo_store_facts by simp
  then show ?thesis using store_never_expires_early [OF demo_store_inv] by blast
qed

text \<open>
  C22: prompt expiry. If the tick of a key's deadline has not been processed when the deadline
  passes, the next GET does not find the key and TTL reports -2.
\<close>
theorem store_expires_unvisited_tick:
  assumes "store_inv s" and "expiry s k = Some d" and "d \<le> now_of s"
    and "fst (tick_for_timestamp d (timing_wheel s)) = Inr tick"
    and "last_processed_tick (timing_wheel s) < tick"
  shows "fst (store_get k s) = None \<and> fst (store_ttl k s) = -2 \<and> content (snd (store_get k s)) k = None"
  using swept_drops_due [OF assms(1-3)] tick_for_timestamp_Inr [OF assms(4)] assms(5)
  by (simp add: store_get_eq store_ttl_eq)

text \<open>The witness skips the reading 1.02 of the demo store and reads at 1.2.\<close>

theorem store_expires_unvisited_tick_witness:
  "fst (store_get (lit ''k'') (snd (read_time demo_store))) = None"
proof -
  have "store_inv (snd (read_time demo_store))" using demo_store_inv by (simp add: read_time_def)
  moreover have "expiry (snd (read_time demo_store)) (lit ''k'') = Some (21 / 20)"
    and "21 / 20 \<le> now_of (snd (read_time demo_store))"
    and "last_processed_tick (timing_wheel (snd (read_time demo_store))) < 10"
    by code_simp+
  moreover have "fst (tick_for_timestamp (21 / 20) (timing_wheel (snd (read_time demo_store)))) = Inr 10"
    by code_simp
  ultimately show ?thesis using store_expires_unvisited_tick by blast
qed

text \<open>
  C21: late expiry is bounded by one turn of the wheel, for a clock that never goes backwards (part
  of the timeliness invariant) and a reading that has a tick, as every realistic one does. If GET
  still returns a key that has a deadline, that deadline is less than
  \<open>bucket_count * tick_seconds\<close> (51.2 seconds by default) before the time GET read.
\<close>
theorem store_lateness_bound:
  assumes "store_inv s" and "store_timely s"
    and "fst (tick_for_timestamp (now_of s) (timing_wheel s)) = Inr tick"
    and "fst (store_get k s) = Some v" and "expiry (snd (store_get k s)) k = Some d"
  shows "now_of s - d < of_int (bucket_count (timing_wheel s)) * tick_seconds (timing_wheel s)"
  using swept_lateness [OF assms(1,2)] tick_for_timestamp_Inr(2) [OF assms(3)] assms(5)
  by (simp add: store_get_eq)

theorem store_lateness_bound_witness:
  "fst (store_get (lit ''k'') (swept demo_store)) = Some (lit ''v'') \<and>
   (6 / 5 :: rat) - 21 / 20 < 512 * (1 / 10)"
proof -
  have g: "fst (store_get (lit ''k'') (swept demo_store)) = Some (lit ''v'')"
    "expiry (snd (store_get (lit ''k'') (swept demo_store))) (lit ''k'') = Some (21 / 20)"
    "bucket_count (timing_wheel (swept demo_store)) = 512"
    "tick_seconds (timing_wheel (swept demo_store)) = 1 / 10"
    "fst (tick_for_timestamp (now_of (swept demo_store)) (timing_wheel (swept demo_store))) = Inr 12"
    by code_simp+
  have "store_inv (swept demo_store)" "store_timely (swept demo_store)"
    using demo_store_inv demo_store_timely by (simp_all add: swept_effect timely_swept)
  from store_lateness_bound [OF this g(5,1,2)] g(1) show ?thesis
    by (simp only: g demo_store_facts) simp
qed

text \<open>
  An expired key can be read. If a GET falls into the tick of a key's deadline but before
  the deadline, then the next GET returns the same value, also when the deadline has passed by
  then, as long as it comes before the clock has moved a whole turn of the wheel past that
  tick.
\<close>
theorem store_reads_expired_key:
  assumes "store_inv s" and "deadline (timing_wheel s) k = Some d"
    and "now_of s < d" and "tick_at (timing_wheel s) (now_of s) = tick_at (timing_wheel s) d"
    and "tick_at (timing_wheel s) (now_of (snd (store_get k s))) <
      tick_at (timing_wheel s) d + bucket_count (timing_wheel s)"
  shows "fst (store_get k (snd (store_get k s))) = content s k \<and> content s k \<noteq> None"
proof -
  have "content (swept (swept s)) k = content s k"
    using swept_skips_due [OF assms(1-4)] assms(5) by (simp add: store_get_eq)
  moreover have "content s k \<noteq> None"
    using store_invD(5) [OF assms(1)] deadlines_agreeD(2) [OF store_invD(4) [OF assms(1)] assms(2)] by blast
  ultimately show ?thesis by (simp add: store_get_eq)
qed

theorem store_reads_expired_key_witness:
  "fst (store_get (lit ''k'') (snd (store_get (lit ''k'') demo_store))) = Some (lit ''v'')"
proof -
  have g: "snd (store_get (lit ''k'') demo_store) = swept demo_store" by (simp add: store_get_eq)
  show ?thesis
    using store_reads_expired_key [OF demo_store_inv demo_store_facts(11)]
    unfolding g demo_store_facts by simp
qed

text \<open>
  C19: EXPIRE on every branch. On a key that is not found it changes nothing else and reports
  false; with a number that is not positive it removes the key. A number beyond the range of a
  double raises with no deadline changed. With any other positive number the key keeps its value
  and the dictionary's deadline of the key becomes the next clock reading plus the number, and of no
  other key; the wheel follows and EXPIRE reports true, unless that deadline is too far ahead for the
  wheel: then EXPIRE raises \<open>OverflowError\<close> with the dictionary changed and the wheel as it was.
\<close>
theorem store_expire_spec:
  fixes k :: pystr and n :: int
  assumes "store_inv s"
  defines "s' \<equiv> snd (store_expire k n s)"
    and "d \<equiv> time_source s (Suc (clock_reads s)) + of_int n"
  shows "if content (swept s) k = None then store_expire k n s = (Inr False, swept s)
    else if n \<le> 0 then fst (store_expire k n s) = Inr True \<and> content s' k = None \<and> expiry s' k = None
    else if float_int_limit \<le> n then fst (store_expire k n s) = Inl OverflowError \<and>
      content s' = content (swept s) \<and> expiry s' = expiry (swept s) \<and>
      timing_wheel s' = timing_wheel (swept s)
    else content s' = content (swept s) \<and> expiry s' = (expiry (swept s))(k \<mapsto> d) \<and>
      (if too_far (timing_wheel (swept s)) d
       then fst (store_expire k n s) = Inl OverflowError \<and>
         deadline (timing_wheel s') = deadline (timing_wheel (swept s))
       else fst (store_expire k n s) = Inr True \<and>
         deadline (timing_wheel s') = (deadline (timing_wheel (swept s)))(k \<mapsto> d))"
proof -
  note S = swept_effect [OF assms(1)]
  have t: "now_of (swept s) + of_int n = d" by (simp add: now_of_def S d_def)
  consider "content (swept s) k = None" | "content (swept s) k \<noteq> None" "n \<le> 0"
    | "content (swept s) k \<noteq> None" "0 < n" "n < float_int_limit"
    | "content (swept s) k \<noteq> None" "float_int_limit \<le> n"
    by linarith
  then show ?thesis
  proof cases
    case 1
    then show ?thesis by (simp add: store_expire_eq)
  next
    case 2
    have "expiry (snd (store_delete k (swept s))) k = None"
      using store_invD(5) [OF store_inv_delete [OF S(1)]] content_delete_self [OF S(1)] by blast
    with 2 S(1) show ?thesis by (simp add: store_expire_eq content_delete s'_def)
  next
    case 3
    then show ?thesis
      using store_expire_pos [OF assms(1) 3] by (auto simp: s'_def t deadline_too_far_def)
  next
    case 4
    then show ?thesis
      using float_int_limit_gt_0 [of n] by (auto simp: store_expire_eq Let_def s'_def)
  qed
qed

theorem store_expire_spec_witness:
  "expiry (snd (store_expire (lit ''k'') (10 ^ 308) demo_store)) (lit ''k'') = Some (6 / 5 + 10 ^ 308) \<and>
   deadline (timing_wheel (snd (store_expire (lit ''k'') (10 ^ 308) demo_store))) (lit ''k'') = Some (21 / 20) \<and>
   fst (store_expire (lit ''k'') (10 ^ 308) demo_store) = Inl OverflowError"
proof -
  have c: "content (swept demo_store) (lit ''k'') = Some (lit ''v'')"
    and t: "time_source demo_store (Suc (clock_reads demo_store)) = 6 / 5"
    and w: "origin_timestamp (timing_wheel (swept demo_store)) = Some 0"
      "tick_seconds (timing_wheel (swept demo_store)) = 1 / 10"
      "deadline (timing_wheel (swept demo_store)) (lit ''k'') = Some (21 / 20)"
    by code_simp+
  have "\<not> float_int_limit \<le> 10 ^ 308" and far: "too_far (timing_wheel (swept demo_store)) (6 / 5 + of_int (10 ^ 308))"
    by (simp_all add: too_far_def w float_overflows_def float_int_limit_def)
  then show ?thesis
    using store_expire_spec [OF demo_store_inv, of "lit ''k''" "10 ^ 308"] c t w(3)
    by (simp del: lit_Cons)
qed

text \<open>
  An EXPIRE that fails can still take effect. When EXPIRE raises because the deadline is too far
  ahead for the wheel, the key has that deadline all the same: GET finds the key until then, with
  no regard to the deadline it had before, which the wheel still holds.
\<close>
theorem failed_expire_takes_effect:
  assumes "store_inv s" and "content (swept s) k = Some v" and "0 < n" and "n < float_int_limit"
    and far: "too_far (timing_wheel (swept s)) (now_of (swept s) + of_int n)"
    and "time_source s (clock_reads s + 2) < now_of (swept s) + of_int n"
  shows "fst (store_expire k n s) = Inl OverflowError \<and>
    fst (store_get k (snd (store_expire k n s))) = Some v \<and>
    expiry (snd (store_get k (snd (store_expire k n s)))) k = Some (now_of (swept s) + of_int n)"
proof -
  let ?s1 = "snd (store_expire k n s)"
  have k: "content (swept s) k \<noteq> None" using assms(2) by simp
  note E = store_expire_pos [OF assms(1) k assms(3,4)] and S = swept_effect [OF assms(1)]
  have inv: "store_inv ?s1" using assms(1) by (rule store_inv_expire)
  have "now_of ?s1 = time_source s (clock_reads s + 2)"
    using k assms(3,4) by (auto simp: now_of_def store_expire_eq Let_def S)
  then have "content (swept ?s1) k = Some v" "expiry (swept ?s1) k = expiry ?s1 k"
    using swept_keeps_live [OF inv, of k v] E(2,3) assms(2,6) by simp_all
  then show ?thesis using E(1,3) far by (simp add: store_get_eq deadline_too_far_def)
qed

theorem failed_expire_takes_effect_witness:
  "fst (store_get (lit ''k'') (snd (store_expire (lit ''k'') (10 ^ 308) demo_store))) = Some (lit ''v'')"
proof -
  have c: "content (swept demo_store) (lit ''k'') = Some (lit ''v'')"
    and t: "time_source demo_store (clock_reads demo_store + 2) = 6 / 5"
    and w: "origin_timestamp (timing_wheel (swept demo_store)) = Some 0"
      "tick_seconds (timing_wheel (swept demo_store)) = 1 / 10"
    by code_simp+
  have "(10 ^ 308 :: int) < float_int_limit"
    "too_far (timing_wheel (swept demo_store)) (6 / 5 + of_int (10 ^ 308))"
    by (simp_all add: too_far_def w float_overflows_def float_int_limit_def)
  then show ?thesis
    using failed_expire_takes_effect [OF demo_store_inv c, of "10 ^ 308"] t demo_store_facts(4)
    by (simp del: lit_Cons)
qed

text \<open>
  C20: the TTL contract. TTL answers -2 for a key that is not found, -1 for one without a
  deadline, and otherwise the whole seconds left at its second clock reading; a deadline that
  passed less than a second before that reading counts as 0 seconds left, and one that passed
  earlier makes TTL remove the key and answer -2. In every other case TTL changes no key.
\<close>
theorem store_ttl_spec:
  assumes "store_inv s"
  defines "t \<equiv> time_source s (Suc (clock_reads s))"
  shows "if content (swept s) k = None then store_ttl k s = (-2, swept s)
    else case expiry (swept s) k of
        None \<Rightarrow> store_ttl k s = (-1, swept s)
      | Some d \<Rightarrow>
          if d \<le> t - 1 then fst (store_ttl k s) = -2 \<and>
            content (snd (store_ttl k s)) k = None \<and> expiry (snd (store_ttl k s)) k = None
          else fst (store_ttl k s) = max 0 \<lfloor>d - t\<rfloor> \<and>
            content (snd (store_ttl k s)) = content (swept s) \<and>
            expiry (snd (store_ttl k s)) = expiry (swept s)"
proof -
  note S = swept_effect [OF assms(1)]
  have t: "now_of (swept s) = t" by (simp add: now_of_def S t_def)
  let ?s2 = "(swept s)\<lparr>clock_reads := Suc (clock_reads (swept s))\<rparr>"
  have inv2: "store_inv ?s2" using S(1) by simp
  have gone: "content (snd (store_delete k ?s2)) k = None" "expiry (snd (store_delete k ?s2)) k = None"
    using content_delete_self [OF inv2] store_invD(5) [OF store_inv_delete [OF inv2]] by blast+
  have trunc: "(py_trunc x < 0) = (x \<le> -1)" "\<not> x \<le> -1 \<Longrightarrow> py_trunc x = max 0 \<lfloor>x\<rfloor>" for x
    by (auto simp: py_trunc_def) linarith+
  show ?thesis
  proof (cases "content (swept s) k = None \<or> expiry (swept s) k = None")
    case True
    then show ?thesis by (auto simp: store_ttl_eq)
  next
    case False
    then obtain d v where d: "expiry (swept s) k = Some d" and "content (swept s) k = Some v"
      by fastforce
    moreover have "(d - t \<le> -1) = (d \<le> t - 1)" by linarith
    ultimately show ?thesis using gone by (simp add: store_ttl_eq Let_def trunc t)
  qed
qed

theorem store_ttl_spec_witness:
  "fst (store_ttl (lit ''k'') demo_store) = 0"
proof -
  have f: "content (swept demo_store) (lit ''k'') = Some (lit ''v'')"
    "expiry (swept demo_store) (lit ''k'') = Some (21 / 20)"
    "time_source demo_store (Suc (clock_reads demo_store)) = 6 / 5"
    by code_simp+
  have "\<not> (21 / 20 :: rat) \<le> 6 / 5 - 1" and "max 0 \<lfloor>21 / 20 - 6 / 5 :: rat\<rfloor> = 0"
    by code_simp+
  then show ?thesis
    using store_ttl_spec [OF demo_store_inv, of "lit ''k''"] unfolding f by simp
qed

text \<open>
  TTL after EXPIRE. When EXPIRE k n (with n positive and representable, whether or not the
  wheel takes the deadline) finds the key and
  the two readings of the TTL that follows come before the new deadline, TTL answers the floor
  of what is left of n seconds since EXPIRE's second reading, a number from 0 to n.
\<close>
theorem store_expire_then_ttl:
  assumes "store_inv s" and "store_timely s" and "content (swept s) k \<noteq> None"
    and "0 < n" and "n < float_int_limit"
    and "time_source s (clock_reads s + 3) < time_source s (clock_reads s + 1) + of_int n"
  shows "fst (store_ttl k (snd (store_expire k n s))) =
      \<lfloor>time_source s (clock_reads s + 1) + of_int n - time_source s (clock_reads s + 3)\<rfloor> \<and>
    fst (store_ttl k (snd (store_expire k n s))) \<in> {0..n}"
proof -
  let ?s1 = "snd (store_expire k n s)"
  let ?d = "time_source s (clock_reads s + 1) + of_int n"
  note S = swept_effect [OF assms(1)] and T = store_timelyD [OF assms(2)]
  have inv1: "store_inv ?s1" using assms(1) by (rule store_inv_expire)
  obtain v where v: "content (swept s) k = Some v" using assms(3) by blast
  have s1: "content ?s1 k = Some v" "expiry ?s1 k = Some ?d" "time_source ?s1 = time_source s"
    "clock_reads ?s1 = clock_reads s + 2"
    using v assms(4,5) S store_expire_pos(2,3) [OF assms(1,3-5)]
    by (simp_all add: store_expire_eq Let_def now_of_def)
  have mono: "time_source s (clock_reads s + i) \<le> time_source s (clock_reads s + j)" if "i \<le> j" for i j
    using T(1) that by (simp add: monoD)
  have "now_of ?s1 < ?d" using mono [of 2 3] assms(6) by (simp add: now_of_def s1)
  with swept_keeps_live [OF inv1 s1(1)] s1(2)
  have live: "content (swept ?s1) k = Some v" "expiry (swept ?s1) k = Some ?d" by simp_all
  have t: "now_of (swept ?s1) = time_source s (clock_reads s + 3)"
    by (simp add: now_of_def swept_effect [OF inv1] s1 eval_nat_numeral)
  let ?r = "?d - time_source s (clock_reads s + 3)"
  have r: "0 \<le> ?r" "?r \<le> of_int n" using assms(6) mono [of 1 3] by simp_all
  then have f: "0 \<le> \<lfloor>?r\<rfloor>" "\<lfloor>?r\<rfloor> \<le> n" by (simp, linarith)
  have "fst (store_ttl k ?s1) = \<lfloor>?r\<rfloor>"
    using live r f by (simp add: store_ttl_eq Let_def t py_trunc_nonneg)
  with f show ?thesis by simp
qed

theorem store_expire_then_ttl_witness:
  "fst (store_ttl (lit ''k'') (snd (store_expire (lit ''k'') 3 demo_store))) = 3"
proof -
  have c: "content (swept demo_store) (lit ''k'') \<noteq> None"
    and t: "time_source demo_store (clock_reads demo_store + 1) = 6 / 5"
      "time_source demo_store (clock_reads demo_store + 3) = 6 / 5"
    by code_simp+
  have "(3 :: int) < float_int_limit" by (rule small_fits_float [of 3, simplified])
  from store_expire_then_ttl [OF demo_store_inv demo_store_timely c _ this] show ?thesis
    unfolding t by simp
qed

text \<open>
  DEL, KEYS and FLUSHALL on the map the store stands for. DEL reports whether it found the
  key and removes that key only; KEYS lists exactly the found keys that match the pattern, each
  once; flushing reports how many keys it removed and leaves no key and no deadline.
\<close>
theorem store_delete_keys_flush_spec:
  assumes "store_inv s"
  shows "fst (store_delete k s) = (content (swept s) k \<noteq> None) \<and>
    content (snd (store_delete k s)) = (content (swept s))(k := None) \<and>
    expiry (snd (store_delete k s)) = (expiry (swept s))(k := None) \<and>
    set (fst (store_keys p s)) = {x. content (swept s) x \<noteq> None \<and> fnmatch x p} \<and>
    distinct (fst (store_keys p s)) \<and> content (snd (store_keys p s)) = content (swept s) \<and>
    fst (store_flush s) = int (card (dom (content (swept s)))) \<and>
    content (snd (store_flush s)) = Map.empty \<and> expiry (snd (store_flush s)) = Map.empty"
proof -
  have inv: "store_inv (swept s)" using assms by (rule swept_effect)
  have e: "expiry (snd (store_delete k s)) = (expiry (swept s))(k := None)"
    using assms by (rule expiry_delete)
  have d: "fst (store_delete k s) = (content (swept s) k \<noteq> None)" by (simp add: store_delete_eq)
  have ks: "set (fst (store_keys p s)) = {x. content (swept s) x \<noteq> None \<and> fnmatch x p}"
    by (auto simp: store_keys_eq key_in_dict_iff)
  have "distinct (fst (store_keys p s))" "content (snd (store_keys p s)) = content (swept s)"
    using store_invD(1) [OF inv] by (simp_all add: store_keys_eq)
  moreover have "fst (store_flush s) = int (card (dom (content (swept s))))"
    "content (snd (store_flush s)) = Map.empty" "expiry (snd (store_flush s)) = Map.empty"
    by (simp_all add: store_flush_eq card_dom_content [OF inv])
  ultimately show ?thesis using e d ks content_delete [of k s] by blast
qed

theorem store_delete_keys_flush_witness:
  "fst (store_delete (lit ''k'') demo_store) \<and> fst (store_flush demo_store) = 1"
proof -
  have "content (swept demo_store) (lit ''k'') \<noteq> None" "length (store_data (swept demo_store)) = 1"
    by code_simp+
  then show ?thesis
    using store_delete_keys_flush_spec [OF demo_store_inv, of "lit ''k''" "lit ''*''"]
      card_dom_content [OF swept_effect(1) [OF demo_store_inv]]
    by (simp del: lit_Cons)
qed

end
