(* ===== verification/Commands.thy ===== *)
theory Commands
  imports Store_Expiry
begin

text \<open>
  The command layer of src/src/commands.py. \<open>execute_command\<close> takes the store as the record
  of operations its caller passes (\<open>StoreInterface\<close>) and is the code's chain of tests in its
  order, with the fall-through branch no member of the enum reaches. A response may instead be
  an exception of Python that the code does not catch.

  The lemmas about it are proved in the store contract, once, and hold for the store of
  src/src/store.py by its interpretation.
\<close>

section \<open>The handler\<close>

definition has_arity :: "CommandRequest \<Rightarrow> nat \<Rightarrow> bool" where
  "has_arity request expected = (length (req_args request) = expected)"

definition wrong_arity_response :: "CommandRequest \<Rightarrow> nat \<Rightarrow> CommandResponse" where
  "wrong_arity_response request expected =
     (mk_response ERROR)\<lparr>resp_error_code := Some WRONG_ARITY,
       resp_message := Some (CommandName_value (req_command request) @ lit '' expects '' @
         py_str_int (int expected) @ lit '' argument(s), received '' @
         py_str_int (int (length (req_args request)))),
       resp_request_id := req_request_id request\<rparr>"

definition parse_ttl_seconds :: "unicode_db \<Rightarrow> pystr \<Rightarrow> int option" where
  "parse_ttl_seconds U seconds_raw =
     (case py_int U seconds_raw of Inl _ \<Rightarrow> None | Inr n \<Rightarrow> Some n)"

text \<open>The generator of MGET: the keys are read one after the other.\<close>

primrec get_all :: "'s StoreInterface \<Rightarrow> pystr list \<Rightarrow> 's \<Rightarrow> pystr option list \<times> 's" where
  "get_all ops [] s = ([], s)"
| "get_all ops (k # ks) s =
     (let (v, s1) = op_get ops k s; (vs, s2) = get_all ops ks s1 in (v # vs, s2))"

definition execute_command ::
    "unicode_db \<Rightarrow> 's StoreInterface \<Rightarrow> CommandRequest \<Rightarrow> 's \<Rightarrow> (py_exn + CommandResponse) \<times> 's" where
  "execute_command U ops request s =
     (let cmd = req_command request; args = req_args request; rid = req_request_id request in
      if cmd = PING then
        if \<not> has_arity request 0 then (Inr (wrong_arity_response request 0), s)
        else (Inr ((mk_response SIMPLE_STRING)\<lparr>resp_message := Some (lit ''PONG''),
                resp_request_id := rid\<rparr>), s)
      else if cmd = SET then
        if \<not> has_arity request 2 then (Inr (wrong_arity_response request 2), s)
        else (Inr ((mk_response SIMPLE_STRING)\<lparr>resp_message := Some (lit ''OK''),
                resp_request_id := rid\<rparr>), op_set ops (args ! 0) (args ! 1) s)
      else if cmd = GET then
        if \<not> has_arity request 1 then (Inr (wrong_arity_response request 1), s)
        else let (result, s1) = op_get ops (args ! 0) s in
          (case result of
             None \<Rightarrow> (Inr ((mk_response NULL)\<lparr>resp_request_id := rid\<rparr>), s1)
           | Some v \<Rightarrow> (Inr ((mk_response BULK_STRING)\<lparr>resp_value := Some v,
                          resp_request_id := rid\<rparr>), s1))
      else if cmd = DEL then
        if \<not> has_arity request 1 then (Inr (wrong_arity_response request 1), s)
        else let (deleted, s1) = op_delete ops (args ! 0) s in
          (Inr ((mk_response INTEGER)\<lparr>resp_integer := Some (if deleted then 1 else 0),
             resp_request_id := rid\<rparr>), s1)
      else if cmd = EXPIRE then
        if \<not> has_arity request 2 then (Inr (wrong_arity_response request 2), s)
        else (case parse_ttl_seconds U (args ! 1) of
            None \<Rightarrow> (Inr ((mk_response ERROR)\<lparr>resp_error_code := Some INVALID_REQUEST,
                     resp_message := Some (lit ''EXPIRE seconds must be an integer''),
                     resp_request_id := rid\<rparr>), s)
          | Some seconds \<Rightarrow>
              (case op_expire ops (args ! 0) seconds s of
                 (Inl exn, s1) \<Rightarrow> (Inl exn, s1)
               | (Inr expired_set, s1) \<Rightarrow>
                   (Inr ((mk_response INTEGER)\<lparr>resp_integer := Some (if expired_set then 1 else 0),
                      resp_request_id := rid\<rparr>), s1)))
      else if cmd = TTL then
        if \<not> has_arity request 1 then (Inr (wrong_arity_response request 1), s)
        else let (remaining, s1) = op_ttl ops (args ! 0) s in
          (Inr ((mk_response INTEGER)\<lparr>resp_integer := Some remaining, resp_request_id := rid\<rparr>), s1)
      else if cmd = MGET then
        if length args < 1 then
          (Inr ((mk_response ERROR)\<lparr>resp_error_code := Some WRONG_ARITY,
             resp_message := Some (lit ''MGET requires at least 1 key''), resp_request_id := rid\<rparr>), s)
        else let (vals, s1) = get_all ops args s in
          (Inr ((mk_response ARRAY)\<lparr>resp_values := vals, resp_request_id := rid\<rparr>), s1)
      else if cmd = KEYS then
        if length args > 1 then
          (Inr ((mk_response ERROR)\<lparr>resp_error_code := Some WRONG_ARITY,
             resp_message := Some (lit ''KEYS accepts 0 or 1 arguments''), resp_request_id := rid\<rparr>), s)
        else let pattern = (if args \<noteq> [] then args ! 0 else lit ''*'');
                 (matched, s1) = op_keys ops pattern s in
          (Inr ((mk_response ARRAY)\<lparr>resp_values := map Some matched, resp_request_id := rid\<rparr>), s1)
      else if cmd = FLUSHALL then
        if \<not> has_arity request 0 then (Inr (wrong_arity_response request 0), s)
        else let (count, s1) = op_flush ops s in
          (Inr ((mk_response INTEGER)\<lparr>resp_integer := Some count, resp_request_id := rid\<rparr>), s1)
      else
        (Inr ((mk_response ERROR)\<lparr>resp_error_code := Some UNKNOWN_COMMAND,
           resp_message := Some (lit ''Unsupported command: '' @ CommandName_value cmd),
           resp_request_id := rid\<rparr>), s))"

section \<open>Arity\<close>

lemma execute_wrong_arity:
  "\<not> arity_ok (req_command r) (length (req_args r)) \<Longrightarrow>
     \<exists>resp. execute_command U ops r s = (Inr resp, s) \<and> resp_kind resp = ERROR \<and>
       resp_error_code resp = Some WRONG_ARITY \<and> resp_request_id resp = req_request_id r"
  by (cases "req_command r")
    (auto simp: execute_command_def has_arity_def wrong_arity_response_def Let_def
      less_Suc_eq_0_disj not_le)

text \<open>The answer always carries the request's id, and always has the fields its kind needs.\<close>

definition response_ok :: "CommandResponse \<Rightarrow> bool" where
  "response_ok r = (case resp_kind r of
      SIMPLE_STRING \<Rightarrow> resp_message r \<noteq> None
    | BULK_STRING \<Rightarrow> resp_value r \<noteq> None
    | INTEGER \<Rightarrow> resp_integer r \<noteq> None
    | NULL \<Rightarrow> True
    | ERROR \<Rightarrow> resp_error_code r \<noteq> None \<and> resp_message r \<noteq> None
    | ARRAY \<Rightarrow> True)"

lemma execute_response_ok:
  "execute_command U ops r s = (Inr resp, s') \<Longrightarrow>
     resp_request_id resp = req_request_id r \<and> response_ok resp"
  by (auto simp: execute_command_def response_ok_def wrong_arity_response_def Let_def
      split: if_splits option.splits sum.splits prod.splits)

text \<open>The well-formed requests, command by command.\<close>

lemma execute_eqs:
  "req_command r = PING \<Longrightarrow> req_args r = [] \<Longrightarrow> execute_command U ops r s =
     (Inr ((mk_response SIMPLE_STRING)\<lparr>resp_message := Some (lit ''PONG''),
        resp_request_id := req_request_id r\<rparr>), s)"
  "req_command r = SET \<Longrightarrow> req_args r = [k, v] \<Longrightarrow> execute_command U ops r s =
     (Inr ((mk_response SIMPLE_STRING)\<lparr>resp_message := Some (lit ''OK''),
        resp_request_id := req_request_id r\<rparr>), op_set ops k v s)"
  "req_command r = GET \<Longrightarrow> req_args r = [k] \<Longrightarrow> execute_command U ops r s =
     (Inr (case fst (op_get ops k s) of
         None \<Rightarrow> (mk_response NULL)\<lparr>resp_request_id := req_request_id r\<rparr>
       | Some v \<Rightarrow> (mk_response BULK_STRING)\<lparr>resp_value := Some v, resp_request_id := req_request_id r\<rparr>),
      snd (op_get ops k s))"
  "req_command r = DEL \<Longrightarrow> req_args r = [k] \<Longrightarrow> execute_command U ops r s =
     (Inr ((mk_response INTEGER)\<lparr>resp_integer := Some (if fst (op_delete ops k s) then 1 else 0),
        resp_request_id := req_request_id r\<rparr>), snd (op_delete ops k s))"
  "req_command r = EXPIRE \<Longrightarrow> req_args r = [k, x] \<Longrightarrow> parse_ttl_seconds U x = Some n \<Longrightarrow>
     execute_command U ops r s =
       (map_sum id (\<lambda>b. (mk_response INTEGER)\<lparr>resp_integer := Some (if b then 1 else 0),
          resp_request_id := req_request_id r\<rparr>) (fst (op_expire ops k n s)), snd (op_expire ops k n s))"
  "req_command r = EXPIRE \<Longrightarrow> req_args r = [k, x] \<Longrightarrow> parse_ttl_seconds U x = None \<Longrightarrow>
     execute_command U ops r s =
       (Inr ((mk_response ERROR)\<lparr>resp_error_code := Some INVALID_REQUEST,
          resp_message := Some (lit ''EXPIRE seconds must be an integer''),
          resp_request_id := req_request_id r\<rparr>), s)"
  "req_command r = TTL \<Longrightarrow> req_args r = [k] \<Longrightarrow> execute_command U ops r s =
     (Inr ((mk_response INTEGER)\<lparr>resp_integer := Some (fst (op_ttl ops k s)),
        resp_request_id := req_request_id r\<rparr>), snd (op_ttl ops k s))"
  "req_command r = MGET \<Longrightarrow> req_args r = k # ks \<Longrightarrow> execute_command U ops r s =
     (Inr ((mk_response ARRAY)\<lparr>resp_values := fst (get_all ops (k # ks) s),
        resp_request_id := req_request_id r\<rparr>), snd (get_all ops (k # ks) s))"
  "req_command r = KEYS \<Longrightarrow> req_args r = [p] \<Longrightarrow> execute_command U ops r s =
     (Inr ((mk_response ARRAY)\<lparr>resp_values := map Some (fst (op_keys ops p s)),
        resp_request_id := req_request_id r\<rparr>), snd (op_keys ops p s))"
  "req_command r = KEYS \<Longrightarrow> req_args r = [] \<Longrightarrow> execute_command U ops r s =
     (Inr ((mk_response ARRAY)\<lparr>resp_values := map Some (fst (op_keys ops (lit ''*'') s)),
        resp_request_id := req_request_id r\<rparr>), snd (op_keys ops (lit ''*'') s))"
  "req_command r = FLUSHALL \<Longrightarrow> req_args r = [] \<Longrightarrow> execute_command U ops r s =
     (Inr ((mk_response INTEGER)\<lparr>resp_integer := Some (fst (op_flush ops s)),
        resp_request_id := req_request_id r\<rparr>), snd (op_flush ops s))"
  by (simp_all add: execute_command_def has_arity_def Let_def case_prod_beta
      split: option.split sum.split prod.split)

lemma execute_shape:
  obtains "\<not> arity_ok (req_command r) (length (req_args r))"
  | "req_command r = PING" "req_args r = []"
  | k v where "req_command r = SET" "req_args r = [k, v]"
  | k where "req_command r \<in> {GET, DEL, TTL}" "req_args r = [k]"
  | k x where "req_command r = EXPIRE" "req_args r = [k, x]"
  | k ks where "req_command r = MGET" "req_args r = k # ks"
  | "req_command r = KEYS" "req_args r = []"
  | p where "req_command r = KEYS" "req_args r = [p]"
  | "req_command r = FLUSHALL" "req_args r = []"
  by (cases "req_command r"; cases "req_args r" rule: remdups_adj.cases)
    (auto simp: numeral_2_eq_2)

section \<open>A dictionary as the specification\<close>

text \<open>
  What a store without deadlines is to its clients: a dictionary \<open>m\<close>, the response to a request
  and the dictionary after it. EXPIRE is not an operation of a dictionary.
\<close>

definition dict_command ::
    "(pystr \<Rightarrow> pystr \<Rightarrow> bool) \<Rightarrow> CommandRequest \<Rightarrow> (pystr \<rightharpoonup> pystr) \<Rightarrow> CommandResponse \<Rightarrow>
     (pystr \<rightharpoonup> pystr) \<Rightarrow> bool" where
  "dict_command matches r m resp m' \<longleftrightarrow> resp_request_id resp = req_request_id r \<and>
     (let args = req_args r; kind = resp_kind resp in
      if \<not> arity_ok (req_command r) (length args) then
        kind = ERROR \<and> resp_error_code resp = Some WRONG_ARITY \<and> m' = m
      else case req_command r of
        PING \<Rightarrow> kind = SIMPLE_STRING \<and> resp_message resp = Some (lit ''PONG'') \<and> m' = m
      | SET \<Rightarrow> kind = SIMPLE_STRING \<and> resp_message resp = Some (lit ''OK'') \<and>
               m' = m(args ! 0 \<mapsto> args ! 1)
      | GET \<Rightarrow> kind = (if m (args ! 0) = None then NULL else BULK_STRING) \<and>
               resp_value resp = m (args ! 0) \<and> m' = m
      | DEL \<Rightarrow> kind = INTEGER \<and>
               resp_integer resp = Some (if m (args ! 0) = None then 0 else 1) \<and>
               m' = m(args ! 0 := None)
      | EXPIRE \<Rightarrow> False
      | TTL \<Rightarrow> kind = INTEGER \<and>
               resp_integer resp = Some (if m (args ! 0) = None then - 2 else - 1) \<and> m' = m
      | MGET \<Rightarrow> kind = ARRAY \<and> resp_values resp = map m args \<and> m' = m
      | KEYS \<Rightarrow> kind = ARRAY \<and> m' = m \<and>
                (\<exists>ks. resp_values resp = map Some ks \<and> distinct ks \<and>
                   set ks = {k \<in> dom m. matches k (if args = [] then lit ''*'' else args ! 0)})
      | FLUSHALL \<Rightarrow> kind = INTEGER \<and> resp_integer resp = Some (int (card (dom m))) \<and> m' = Map.empty)"

primrec dict_run ::
    "(pystr \<Rightarrow> pystr \<Rightarrow> bool) \<Rightarrow> CommandRequest list \<Rightarrow> (pystr \<rightharpoonup> pystr) \<Rightarrow> CommandResponse list \<Rightarrow>
     (pystr \<rightharpoonup> pystr) \<Rightarrow> bool" where
  "dict_run matches [] m resps m' \<longleftrightarrow> resps = [] \<and> m' = m"
| "dict_run matches (r # rs) m resps m' \<longleftrightarrow>
     (\<exists>resp resps1 m1. resps = resp # resps1 \<and> dict_command matches r m resp m1 \<and>
        dict_run matches rs m1 resps1 m')"

text \<open>A sequence of requests, up to the first exception.\<close>

primrec run_commands ::
    "unicode_db \<Rightarrow> 's StoreInterface \<Rightarrow> CommandRequest list \<Rightarrow> 's \<Rightarrow>
     (py_exn + CommandResponse list) \<times> 's" where
  "run_commands U ops [] s = (Inr [], s)"
| "run_commands U ops (r # rs) s =
     (case execute_command U ops r s of
        (Inl e, s1) \<Rightarrow> (Inl e, s1)
      | (Inr resp, s1) \<Rightarrow>
          (case run_commands U ops rs s1 of
             (Inl e, s2) \<Rightarrow> (Inl e, s2)
           | (Inr resps, s2) \<Rightarrow> (Inr (resp # resps), s2)))"

section \<open>Every command under the store contract\<close>

context store_contract
begin

lemma get_all_invar: "invar s \<Longrightarrow> invar (snd (get_all ops ks s))"
  by (induction ks arbitrary: s) (auto simp: get_eq invar_swept case_prod_beta Let_def)

lemma get_all_length: "length (fst (get_all ops ks s)) = length ks"
  by (induction ks arbitrary: s) (simp_all add: case_prod_beta Let_def)

lemma content_antimono: "invar s \<Longrightarrow> content (swept s) k = Some v \<Longrightarrow> content s k = Some v"
  using content_swept [of s] by (auto simp: map_le_def dom_def)

text \<open>
  MGET reads with one sweep per key: keys may expire between two reads, none appears, and keys
  without a deadline are all read as they are.
\<close>

lemma get_all_sound:
  "invar s \<Longrightarrow> i < length ks \<Longrightarrow> fst (get_all ops ks s) ! i = Some v \<Longrightarrow> content s (ks ! i) = Some v"
proof (induction ks arbitrary: s i)
  case (Cons k ks)
  show ?case
  proof (cases i)
    case 0
    with Cons.prems show ?thesis by (simp add: get_eq case_prod_beta Let_def content_antimono)
  next
    case (Suc j)
    with Cons.prems have "content (swept s) (ks ! j) = Some v"
      by (intro Cons.IH) (simp_all add: get_eq invar_swept case_prod_beta Let_def)
    with Cons.prems Suc show ?thesis by (simp add: content_antimono)
  qed
qed simp

lemma get_all_persistent_nth:
  "invar s \<Longrightarrow> i < length ks \<Longrightarrow> expiry s (ks ! i) = None \<Longrightarrow>
     fst (get_all ops ks s) ! i = content s (ks ! i)"
proof (induction ks arbitrary: s i)
  case (Cons k ks)
  show ?case
  proof (cases i)
    case 0
    with Cons.prems show ?thesis by (simp add: get_eq case_prod_beta Let_def swept_keeps)
  next
    case (Suc j)
    have k: "expiry s (ks ! j) = None" using Cons.prems(3) Suc by simp
    then have "expiry (swept s) (ks ! j) = None"
      using map_le_implies_dom_le [OF expiry_swept [OF Cons.prems(1)]] by blast
    with Cons.IH [OF invar_swept [OF Cons.prems(1)], of j] Cons.prems Suc k show ?thesis
      by (simp add: get_eq case_prod_beta Let_def swept_keeps)
  qed
qed simp

lemma execute_invar: "invar s \<Longrightarrow> invar (snd (execute_command U ops r s))"
  by (auto simp: execute_command_def Let_def case_prod_beta invar_set invar_swept get_eq
      invar_delete invar_expire invar_ttl get_all_invar keys_eq invar_flush
      split: option.splits sum.splits)

text \<open>
  No command raises, but for an EXPIRE of a stored key with a number beyond the floats or a deadline
  too far ahead for the store.
\<close>

lemma expire_raises:
  assumes s: "invar s"
  shows "fst (op_expire ops k n s) = Inl e \<longleftrightarrow> e = OverflowError \<and> content (swept s) k \<noteq> None \<and>
    (float_int_limit \<le> n \<or> 0 < n \<and> too_far_ahead (swept s) n)"
proof -
  consider "content (swept s) k = None" | "content (swept s) k \<noteq> None" "n \<le> 0"
    | "content (swept s) k \<noteq> None" "0 < n" "n < float_int_limit"
    | "content (swept s) k \<noteq> None" "float_int_limit \<le> n"
    by linarith
  then show ?thesis
  proof cases
    case 1
    then show ?thesis using s by (simp add: expire_absent)
  next
    case 2
    have "n < float_int_limit" using 2(2) float_int_limit_pos by linarith
    then show ?thesis using expire_nonpos [OF s 2] 2(2) by simp
  next
    case 3
    then show ?thesis using expire_pos [OF s 3] by auto
  next
    case 4
    then show ?thesis using expire_overflow [OF s 4] by auto
  qed
qed

lemma execute_raises_iff:
  "invar s \<Longrightarrow> fst (execute_command U ops r s) = Inl e \<longleftrightarrow>
     e = OverflowError \<and> req_command r = EXPIRE \<and> length (req_args r) = 2 \<and>
     (\<exists>n. parse_ttl_seconds U (req_args r ! 1) = Some n \<and>
        (float_int_limit \<le> n \<or> 0 < n \<and> too_far_ahead (swept s) n)) \<and>
     content (swept s) (req_args r ! 0) \<noteq> None"
proof -
  assume s: "invar s"
  show ?thesis
  proof (cases r rule: execute_shape)
    case 1
    then show ?thesis using execute_wrong_arity [OF 1, of U ops s] by (cases "req_command r") auto
  next
    case (5 k x)
    show ?thesis
    proof (cases "parse_ttl_seconds U x")
      case (Some n)
      have "map_sum id f z = Inl e \<longleftrightarrow> z = Inl e" for f :: "bool \<Rightarrow> CommandResponse" and z and e :: py_exn
        by (cases z) auto
      then show ?thesis using expire_raises [OF s, of k n e] 5 Some by (auto simp: execute_eqs)
    qed (simp add: execute_eqs 5)
  qed (auto simp: execute_eqs)
qed

text \<open>
  A store none of whose keys has a deadline is a dictionary: every command but EXPIRE answers
  and changes it as \<open>dict_command\<close> says, and gives no key a deadline.
\<close>

lemma swept_dict:
  assumes "invar s" and "expiry s = Map.empty"
  shows "content (swept s) = content s" and "expiry (swept s) = Map.empty"
  using swept_keeps [OF assms(1)] map_le_implies_dom_le [OF expiry_swept [OF assms(1)]] assms(2)
  by auto

lemma get_all_dict:
  "invar s \<Longrightarrow> expiry s = Map.empty \<Longrightarrow> fst (get_all ops ks s) = map (content s) ks \<and>
     content (snd (get_all ops ks s)) = content s \<and> expiry (snd (get_all ops ks s)) = Map.empty"
proof (induction ks arbitrary: s)
  case (Cons k ks)
  show ?case
    using Cons.IH [OF invar_swept [OF Cons.prems(1)] swept_dict(2) [OF Cons.prems]]
    by (simp add: get_eq [OF Cons.prems(1)] swept_dict [OF Cons.prems] case_prod_beta Let_def)
qed simp

lemma execute_dict:
  assumes inv: "invar s" and e: "expiry s = Map.empty" and c: "req_command r \<noteq> EXPIRE"
    and x: "execute_command U ops r s = (res, s')"
  shows "\<exists>resp. res = Inr resp \<and> dict_command matches r (content s) resp (content s') \<and>
    expiry s' = Map.empty"
proof (cases r rule: execute_shape)
  case 1
  then show ?thesis
    using execute_wrong_arity [OF 1, of U ops s] x e by (auto simp: dict_command_def)
next
  case (4 k)
  have "op_ttl ops k s = (if content s k = None then - 2 else - 1, swept s)"
    using inv by (simp add: ttl_absent ttl_persistent swept_dict [OF inv e])
  with 4 x inv c e swept_dict [OF inv e] show ?thesis
    by (auto simp: execute_eqs dict_command_def get_eq delete_result content_delete expiry_delete
        split: option.splits)
next
  case (6 k ks)
  with x inv e get_all_dict [OF inv e, of "k # ks"] show ?thesis
    by (auto simp: execute_eqs dict_command_def simp del: get_all.simps)
qed (use x inv e c swept_dict [OF inv e] keys_eq in \<open>auto simp: execute_eqs dict_command_def content_set
      expiry_set flush_result content_flush expiry_flush\<close>)

lemma run_commands_dict:
  "invar s \<Longrightarrow> expiry s = Map.empty \<Longrightarrow> \<forall>r \<in> set rs. req_command r \<noteq> EXPIRE \<Longrightarrow>
     \<exists>resps s'. run_commands U ops rs s = (Inr resps, s') \<and>
       dict_run matches rs (content s) resps (content s') \<and> expiry s' = Map.empty"
proof (induction rs arbitrary: s)
  case (Cons r rs)
  obtain res s1 where x: "execute_command U ops r s = (res, s1)" by fastforce
  then obtain resp where r: "res = Inr resp" "dict_command matches r (content s) resp (content s1)"
    "expiry s1 = Map.empty"
    using execute_dict [OF Cons.prems(1,2) _ x] Cons.prems(3) by auto
  have "invar s1" using execute_invar [OF Cons.prems(1), of U r] x by simp
  from Cons.IH [OF this r(3)] Cons.prems(3)
  obtain resps s' where "run_commands U ops rs s1 = (Inr resps, s')"
    "dict_run matches rs (content s1) resps (content s')" "expiry s' = Map.empty"
    by auto
  with x r show ?case by auto
qed simp

end

section \<open>Properties of the command layer\<close>

text \<open>
  C1: the store behind the commands refines a dictionary. Starting from a store in which no key
  has a deadline, any sequence of requests without EXPIRE, of any arity, is answered without an
  exception exactly as the dictionary machine answers it, whatever the clock does meanwhile, and
  the store then holds what the dictionary holds.
\<close>
theorem commands_refine_dictionary:
  assumes "store_inv s" and "expiry s = Map.empty" and "\<forall>r \<in> set rs. req_command r \<noteq> EXPIRE"
  shows "\<exists>resps s'. run_commands U memory_store_ops rs s = (Inr resps, s') \<and>
    dict_run fnmatch rs (content s) resps (content s') \<and> expiry s' = Map.empty"
  using assms by (rule memory_store.run_commands_dict)

theorem commands_refine_dictionary_witness:
  "\<exists>resps s'. run_commands \<lparr>uni_upper = \<lambda>c. [c], uni_decimal = \<lambda>c. None\<rparr> memory_store_ops
      [mk_request SET [lit ''a'', lit ''1''], mk_request GET [lit ''a''], mk_request GET []]
      (MemoryStore_init (\<lambda>n. of_nat n) None) = (Inr resps, s') \<and>
    dict_run fnmatch
      [mk_request SET [lit ''a'', lit ''1''], mk_request GET [lit ''a''], mk_request GET []]
      Map.empty resps (content s')"
proof -
  let ?s = "MemoryStore_init (\<lambda>n. of_nat n) None"
  have "store_inv ?s" by (rule store_inv_init) simp
  moreover have "expiry ?s = Map.empty" "content ?s = Map.empty" by (simp_all add: MemoryStore_init_def)
  ultimately show ?thesis
    using commands_refine_dictionary [of ?s
        "[mk_request SET [lit ''a'', lit ''1''], mk_request GET [lit ''a''], mk_request GET []]"
        "\<lparr>uni_upper = \<lambda>c. [c], uni_decimal = \<lambda>c. None\<rparr>"]
    by (simp del: run_commands.simps dict_run.simps lit_Cons) blast
qed

text \<open>
  C28: which requests raise. On a well-formed store, and while the readings of the clock have a
  tick, \<open>execute_command\<close> always answers, except for
  an EXPIRE with two arguments whose number parses, on a key that is found, when the number is at
  least 2^1024 - 2^970 (then converting it to a float raises) or when the deadline it gives is too
  far ahead for the wheel: the time from the wheel's origin to it, or the number of ticks that is,
  reaches the same bound. Such an EXPIRE raises \<open>OverflowError\<close>, which no caller of the command
  layer expects.
\<close>
theorem execute_command_raises_iff:
  assumes "store_inv s"
  defines "wheel \<equiv> timing_wheel (swept s)"
    and "deadline_in \<equiv> \<lambda>n. time_source s (Suc (clock_reads s)) + of_int n"
  shows "fst (execute_command U memory_store_ops r s) = Inl e \<longleftrightarrow>
     e = OverflowError \<and> req_command r = EXPIRE \<and> length (req_args r) = 2 \<and>
     content (swept s) (req_args r ! 0) \<noteq> None \<and>
     (\<exists>n. parse_ttl_seconds U (req_args r ! 1) = Some n \<and> 0 < n \<and>
        (2 ^ 1024 - 2 ^ 970 \<le> n \<or>
         (\<exists>t0. origin_timestamp wheel = Some t0 \<and> t0 \<le> deadline_in n \<and>
            2 ^ 1024 - 2 ^ 970 \<le> max (deadline_in n - t0) ((deadline_in n - t0) / tick_seconds wheel))))"
proof -
  have d: "now_of (swept s) + of_int n = deadline_in n" for n
    by (simp add: deadline_in_def now_of_def swept_effect [OF assms(1)])
  have ts: "0 < tick_seconds wheel"
    using wheel_inv_pos [OF store_invD(3) [OF swept_effect(1) [OF assms(1)]]] by (simp add: wheel_def)
  have limit: "float_overflows x \<longleftrightarrow> 2 ^ 1024 - 2 ^ 970 \<le> x" if "0 \<le> x" for x
    using that by (simp add: float_overflows_def float_int_limit_def)
  have "deadline_too_far (swept s) n \<longleftrightarrow>
      (\<exists>t0. origin_timestamp wheel = Some t0 \<and> t0 \<le> deadline_in n \<and>
         2 ^ 1024 - 2 ^ 970 \<le> max (deadline_in n - t0) ((deadline_in n - t0) / tick_seconds wheel))" for n
    using ts limit
    by (auto simp: deadline_too_far_def too_far_def d wheel_def [symmetric] le_max_iff_disj split: option.split)
  moreover have "0 < n" if "float_int_limit \<le> n" for n
    using that float_int_limit_pos by linarith
  ultimately show ?thesis
    using memory_store.execute_raises_iff [OF assms(1), of U r e] unfolding float_int_limit_def by blast
qed

theorem execute_command_raises_witness:
  "fst (execute_command \<lparr>uni_upper = \<lambda>c. [c], uni_decimal = \<lambda>c. None\<rparr> memory_store_ops
     (mk_request EXPIRE [lit ''k'', py_str_int (10 ^ 308)]) demo_store) = Inl OverflowError"
proof -
  let ?U = "\<lparr>uni_upper = \<lambda>c. [c], uni_decimal = \<lambda>c. None\<rparr>"
  have "py_int ?U (py_str_int (10 ^ 308)) = Inr (10 ^ 308)"
    by (rule py_int_small [of _ 309]) (simp_all add: max_str_digits_def)
  then have p: "parse_ttl_seconds ?U (py_str_int (10 ^ 308)) = Some (10 ^ 308)"
    by (simp only: parse_ttl_seconds_def sum.case)
  have c: "content (swept demo_store) (lit ''k'') \<noteq> None" by code_simp
  have w: "origin_timestamp (timing_wheel (swept demo_store)) = Some 0"
    "tick_seconds (timing_wheel (swept demo_store)) = 1 / 10"
    "time_source demo_store (Suc (clock_reads demo_store)) = 6 / 5"
    by code_simp+
  have big: "(2 :: rat) ^ 1024 - 2 ^ 970 \<le> max (6 / 5 + of_int (10 ^ 308) - 0) ((6 / 5 + of_int (10 ^ 308) - 0) / (1 / 10))"
    by (simp add: le_max_iff_disj)
  let ?r = "mk_request EXPIRE [lit ''k'', py_str_int (10 ^ 308)]"
  have r: "req_args ?r ! 1 = py_str_int (10 ^ 308)" "req_args ?r ! 0 = lit ''k''"
    "length (req_args ?r) = 2" "req_command ?r = EXPIRE"
    by (simp_all del: lit_Cons)
  have "(0 :: int) < 10 ^ 308" "(0 :: rat) \<le> 6 / 5 + of_int (10 ^ 308)" by simp_all
  with p c big show ?thesis
    unfolding execute_command_raises_iff [OF demo_store_inv, of ?U ?r] w r by blast
qed

text \<open>
  Requests that cannot be executed do not touch the store. A wrong number of arguments is
  answered with WRONG_ARITY and an EXPIRE whose number does not parse with INVALID_REQUEST, with
  the store (its clock included) as it was, whatever store it is.
\<close>
theorem execute_command_rejects:
  assumes "\<not> arity_ok (req_command r) (length (req_args r)) \<or>
    req_command r = EXPIRE \<and> length (req_args r) = 2 \<and> parse_ttl_seconds U (req_args r ! 1) = None"
  shows "\<exists>resp. execute_command U ops r s = (Inr resp, s) \<and> resp_kind resp = ERROR \<and>
    resp_request_id resp = req_request_id r \<and>
    resp_error_code resp = Some (if arity_ok (req_command r) (length (req_args r))
      then INVALID_REQUEST else WRONG_ARITY)"
proof (cases "arity_ok (req_command r) (length (req_args r))")
  case True
  with assms have r: "req_command r = EXPIRE" "length (req_args r) = 2"
    "parse_ttl_seconds U (req_args r ! 1) = None"
    by auto
  then obtain k x where "req_args r = [k, x]" by (auto simp: length_Suc_conv numeral_2_eq_2)
  with r show ?thesis by (simp add: execute_eqs)
next
  case False
  with execute_wrong_arity [OF False, of U ops s] show ?thesis by auto
qed

theorem execute_command_rejects_witness:
  "\<exists>resp. execute_command \<lparr>uni_upper = \<lambda>c. [c], uni_decimal = \<lambda>c. None\<rparr> memory_store_ops
     (mk_request EXPIRE [lit ''k'', lit ''1.5'']) demo_store = (Inr resp, demo_store) \<and>
     resp_error_code resp = Some INVALID_REQUEST"
proof -
  let ?U = "\<lparr>uni_upper = \<lambda>c. [c], uni_decimal = \<lambda>c. None\<rparr>"
  let ?r = "mk_request EXPIRE [lit ''k'', lit ''1.5'']"
  have "parse_ttl_seconds ?U (req_args ?r ! 1) = None" by code_simp
  then show ?thesis
    using execute_command_rejects [of ?r ?U memory_store_ops demo_store]
    by (auto simp del: lit_Cons)
qed

text \<open>
  MGET answers one value per requested key in the order of the request. Every value it
  reports is the stored one, and a key without a deadline is reported exactly as it is stored,
  even when other keys of the same request expire between the reads.
\<close>
theorem execute_mget_spec:
  assumes "store_inv s" and "req_command r = MGET" and "req_args r \<noteq> []"
  shows "\<exists>resp s'. execute_command U memory_store_ops r s = (Inr resp, s') \<and> store_inv s' \<and>
    resp_kind resp = ARRAY \<and> length (resp_values resp) = length (req_args r) \<and>
    (\<forall>i < length (req_args r).
       (\<forall>v. resp_values resp ! i = Some v \<longrightarrow> content s (req_args r ! i) = Some v) \<and>
       (expiry s (req_args r ! i) = None \<longrightarrow> resp_values resp ! i = content s (req_args r ! i)))"
proof -
  obtain k ks where r: "req_args r = k # ks" using assms(3) by (cases "req_args r") auto
  obtain vs s' where g: "get_all memory_store_ops (k # ks) s = (vs, s')" by fastforce
  have x: "execute_command U memory_store_ops r s =
      (Inr ((mk_response ARRAY)\<lparr>resp_values := vs, resp_request_id := req_request_id r\<rparr>), s')"
    using execute_eqs(8) [OF assms(2) r, of U memory_store_ops s] g by simp
  have len: "length vs = length (k # ks)" and inv: "store_inv s'"
    using memory_store.get_all_length [of "k # ks" s] memory_store.get_all_invar [OF assms(1), of "k # ks"]
    unfolding g by simp_all
  have vals: "\<forall>i < length (k # ks). (\<forall>v. vs ! i = Some v \<longrightarrow> content s ((k # ks) ! i) = Some v) \<and>
      (expiry s ((k # ks) ! i) = None \<longrightarrow> vs ! i = content s ((k # ks) ! i))"
    using memory_store.get_all_sound [OF assms(1), of _ "k # ks"]
      memory_store.get_all_persistent_nth [OF assms(1), of _ "k # ks"] unfolding g fst_conv by blast
  let ?resp = "(mk_response ARRAY)\<lparr>resp_values := vs, resp_request_id := req_request_id r\<rparr>"
  have "resp_kind ?resp = ARRAY" "resp_values ?resp = vs" by simp_all
  then show ?thesis
    unfolding r using x inv len vals by (intro exI [of _ ?resp] exI [of _ s']) (simp only: simp_thms)
qed

theorem execute_mget_witness:
  "\<exists>resp s'. execute_command \<lparr>uni_upper = \<lambda>c. [c], uni_decimal = \<lambda>c. None\<rparr> memory_store_ops
     (mk_request MGET [lit ''z'', lit ''k'']) demo_store = (Inr resp, s') \<and>
     length (resp_values resp) = 2 \<and> resp_values resp ! 0 = None"
proof -
  have "expiry demo_store (lit ''z'') = None" "content demo_store (lit ''z'') = None"
    by code_simp+
  then show ?thesis
    using execute_mget_spec [OF demo_store_inv, of "mk_request MGET [lit ''z'', lit ''k'']"
        "\<lparr>uni_upper = \<lambda>c. [c], uni_decimal = \<lambda>c. None\<rparr>"]
    by (auto simp del: lit_Cons)
qed

text \<open>
  Every answer of \<open>execute_command\<close>, on any store and for any request, carries the
  request's id and the field its kind is serialized from.
\<close>
theorem execute_command_well_formed:
  "fst (execute_command U ops r s) = Inr resp \<longrightarrow>
     resp_request_id resp = req_request_id r \<and> response_ok resp"
  using execute_response_ok [of U ops r s resp] by (metis prod.collapse)

theorem execute_command_well_formed_witness:
  "response_ok (wrong_arity_response (mk_request GET []) 1)"
proof -
  have "fst (execute_command \<lparr>uni_upper = \<lambda>c. [c], uni_decimal = \<lambda>c. None\<rparr> memory_store_ops
      (mk_request GET []) demo_store) = Inr (wrong_arity_response (mk_request GET []) 1)"
    by (simp add: execute_command_def has_arity_def)
  from execute_command_well_formed [THEN mp, OF this] show ?thesis by blast
qed

end
