(* ===== verification/Json.thy ===== *)
theory Json
  imports Pystr
begin

text \<open>
  The parts of Python's \<open>json\<close> module the append-only log uses: \<open>dumps(..., ensure_ascii=True)\<close>
  for an object of an integer, a string and a list of strings, and \<open>loads\<close> for any text, since
  a log may hold any text. Errors of \<open>loads\<close> are \<open>JSONDecodeError\<close> (\<open>Malformed\<close>) and the plain
  \<open>ValueError\<close> of an integer with too many digits (\<open>TooManyDigits\<close>). Nesting beyond the
  interpreter's recursion limit is not modelled. The parser recurses with fuel; \<open>OutOfFuel\<close> is
  shown never to come out of \<open>json_loads\<close>.
\<close>

section \<open>Values\<close>

datatype json = JNull | JBool bool | JInt int | JFloat | JString pystr | JArray "json list"
  | JObject "(pystr \<times> json) list"

datatype json_error = Malformed | TooManyDigits | OutOfFuel

section \<open>Writing strings\<close>

definition hex_digit :: "nat \<Rightarrow> nat" where
  "hex_digit n = (if n < 10 then 48 + n else 87 + n)"

definition hex4 :: "nat \<Rightarrow> pystr" where
  "hex4 n = [hex_digit (n div 4096 mod 16), hex_digit (n div 256 mod 16), hex_digit (n div 16 mod 16),
     hex_digit (n mod 16)]"

definition json_escape_char :: "nat \<Rightarrow> pystr" where
  "json_escape_char c =
     (if c = 34 then [92, 34]
      else if c = 92 then [92, 92]
      else if c = 10 then [92, 110]
      else if c = 13 then [92, 114]
      else if c = 9 then [92, 116]
      else if c = 12 then [92, 102]
      else if c = 8 then [92, 98]
      else if 32 \<le> c \<and> c \<le> 126 then [c]
      else if c < 65536 then [92, 117] @ hex4 c
      else let v = c - 65536 in
        [92, 117] @ hex4 (55296 + v div 1024) @ [92, 117] @ hex4 (56320 + v mod 1024))"

definition json_escape :: "pystr \<Rightarrow> pystr" where
  "json_escape s = concat (map json_escape_char s)"

definition json_str :: "pystr \<Rightarrow> pystr" where
  "json_str s = 34 # json_escape s @ [34]"

fun json_list_items :: "pystr list \<Rightarrow> pystr" where
  "json_list_items [] = []"
| "json_list_items [x] = json_str x"
| "json_list_items (x # xs) = json_str x @ [44, 32] @ json_list_items xs"

definition json_str_list :: "pystr list \<Rightarrow> pystr" where
  "json_str_list xs = 91 # json_list_items xs @ [93]"

section \<open>Reading\<close>

definition hex_value :: "nat \<Rightarrow> nat option" where
  "hex_value c =
     (if 48 \<le> c \<and> c \<le> 57 then Some (c - 48)
      else if 97 \<le> c \<and> c \<le> 102 then Some (c - 87)
      else if 65 \<le> c \<and> c \<le> 70 then Some (c - 55) else None)"

fun read_hex4 :: "pystr \<Rightarrow> (nat \<times> pystr) option" where
  "read_hex4 (a # b # c # d # r) =
     (case (hex_value a, hex_value b, hex_value c, hex_value d) of
        (Some a', Some b', Some c', Some d') \<Rightarrow> Some (4096 * a' + 256 * b' + 16 * c' + d', r)
      | _ \<Rightarrow> None)"
| "read_hex4 _ = None"

text \<open>
  The text after a backslash and u: a high surrogate is joined with an escaped low surrogate that
  follows it; a lone one is kept.
\<close>

definition read_unicode :: "pystr \<Rightarrow> (nat \<times> pystr) option" where
  "read_unicode s =
     (case read_hex4 s of
        None \<Rightarrow> None
      | Some (u, r) \<Rightarrow>
          if 55296 \<le> u \<and> u \<le> 56319 then
            (case r of
               b # c # r2 \<Rightarrow>
                 if b = 92 \<and> c = 117 then
                   (case read_hex4 r2 of
                      None \<Rightarrow> None
                    | Some (l, r3) \<Rightarrow>
                        if 56320 \<le> l \<and> l \<le> 57343 then
                          Some (65536 + (u - 55296) * 1024 + (l - 56320), r3)
                        else Some (u, r))
                 else Some (u, r)
             | _ \<Rightarrow> Some (u, r))
          else Some (u, r))"

definition simple_escape :: "nat \<Rightarrow> nat option" where
  "simple_escape e = map_of [(34, 34), (92, 92), (47, 47), (98, 8), (102, 12), (110, 10), (114, 13),
     (116, 9)] e"

lemma read_hex4_shorter: "read_hex4 s = Some (u, r) \<Longrightarrow> length r < length s"
  by (cases s rule: read_hex4.cases) (auto split: option.splits)

lemma read_unicode_shorter: "read_unicode s = Some (u, r) \<Longrightarrow> length r < length s"
  by (auto simp: read_unicode_def dest!: read_hex4_shorter split: option.splits if_splits list.splits)

text \<open>The text after an opening quote, up to its closing one.\<close>

function json_string :: "pystr \<Rightarrow> (pystr \<times> pystr) option" where
  "json_string s =
     (case s of
        [] \<Rightarrow> None
      | c # r \<Rightarrow>
          if c = 34 then Some ([], r)
          else if c = 92 then
            (case r of
               [] \<Rightarrow> None
             | e # r1 \<Rightarrow>
                 (case (if e = 117 then read_unicode r1
                        else map_option (\<lambda>v. (v, r1)) (simple_escape e)) of
                    None \<Rightarrow> None
                  | Some (v, r2) \<Rightarrow>
                      if length r2 < length s then
                        map_option (\<lambda>(t, r3). (v # t, r3)) (json_string r2)
                      else None))
          else if c \<le> 31 then None
          else map_option (\<lambda>(t, r3). (c # t, r3)) (json_string r))"
  by pat_completeness auto

termination
  by (relation "measure length") auto

declare json_string.simps [simp del]

text \<open>
  White space, the digits of a number, and a number: \<open>-?(0|[1-9][0-9]*)\<close>, then an optional
  fraction and exponent, which make it a float.
\<close>

definition json_ws :: "pystr \<Rightarrow> pystr" where
  "json_ws s = dropWhile (\<lambda>c. c = 32 \<or> c = 9 \<or> c = 10 \<or> c = 13) s"

definition ascii_digit :: "nat \<Rightarrow> bool" where
  "ascii_digit c \<longleftrightarrow> 48 \<le> c \<and> c \<le> 57"

definition int_part :: "pystr \<Rightarrow> (pystr \<times> pystr) option" where
  "int_part s = (case s of [] \<Rightarrow> None
     | c # r \<Rightarrow> if c = 48 then Some ([c], r)
        else if ascii_digit c then Some (takeWhile ascii_digit s, dropWhile ascii_digit s) else None)"

definition frac_part :: "pystr \<Rightarrow> bool \<times> pystr" where
  "frac_part s = (case s of c # d # r \<Rightarrow>
       if c = 46 \<and> ascii_digit d then (True, dropWhile ascii_digit (d # r)) else (False, s)
     | _ \<Rightarrow> (False, s))"

definition exp_part :: "pystr \<Rightarrow> bool \<times> pystr" where
  "exp_part s = (case s of [] \<Rightarrow> (False, s)
     | c # r \<Rightarrow>
         if c = 101 \<or> c = 69 then
           let r1 = (case r of x # r' \<Rightarrow> if x = 43 \<or> x = 45 then r' else r | [] \<Rightarrow> r) in
           (case r1 of d # _ \<Rightarrow> if ascii_digit d then (True, dropWhile ascii_digit r1) else (False, s)
            | [] \<Rightarrow> (False, s))
         else (False, s))"

definition json_number :: "pystr \<Rightarrow> json_error + json \<times> pystr" where
  "json_number s =
     (let (neg, s1) = (case s of c # r \<Rightarrow> if c = 45 then (True, r) else (False, s) | [] \<Rightarrow> (False, s)) in
      case int_part s1 of
        None \<Rightarrow> Inl Malformed
      | Some (digits, r) \<Rightarrow>
          let (has_frac, r1) = frac_part r; (has_exp, r2) = exp_part r1 in
          if has_frac \<or> has_exp then Inr (JFloat, r2)
          else if length digits > max_str_digits then Inl TooManyDigits
          else let n = int (foldl (\<lambda>a d. 10 * a + d) 0 (map (\<lambda>c. c - 48) digits)) in
            Inr (JInt (if neg then - n else n), r2))"

definition starts_with :: "pystr \<Rightarrow> pystr \<Rightarrow> bool" where
  "starts_with p s \<longleftrightarrow> take (length p) s = p"

text \<open>The scanner: a value, the rest of an array after its [, the rest of an object after its {.\<close>

fun json_scan :: "nat \<Rightarrow> pystr \<Rightarrow> json_error + json \<times> pystr"
  and json_items :: "nat \<Rightarrow> pystr \<Rightarrow> json_error + json list \<times> pystr"
  and json_members :: "nat \<Rightarrow> pystr \<Rightarrow> json_error + (pystr \<times> json) list \<times> pystr" where
  "json_scan 0 s = Inl OutOfFuel"
| "json_scan (Suc n) s = (case s of
      [] \<Rightarrow> Inl Malformed
    | c # r \<Rightarrow>
        if c = 34 then
          (case json_string r of None \<Rightarrow> Inl Malformed | Some (t, r1) \<Rightarrow> Inr (JString t, r1))
        else if c = 123 then
          (let r1 = json_ws r in case r1 of
             [] \<Rightarrow> Inl Malformed
           | d # r2 \<Rightarrow> if d = 125 then Inr (JObject [], r2)
                       else map_sum id (\<lambda>(ms, r3). (JObject (fold (\<lambda>(k, v). AList.update k v) ms []), r3))
                              (json_members n r1))
        else if c = 91 then
          (let r1 = json_ws r in case r1 of
             [] \<Rightarrow> Inl Malformed
           | d # r2 \<Rightarrow> if d = 93 then Inr (JArray [], r2)
                       else map_sum id (\<lambda>(xs, r3). (JArray xs, r3)) (json_items n r1))
        else if starts_with (lit ''null'') s then Inr (JNull, drop 4 s)
        else if starts_with (lit ''true'') s then Inr (JBool True, drop 4 s)
        else if starts_with (lit ''false'') s then Inr (JBool False, drop 5 s)
        else if starts_with (lit ''NaN'') s then Inr (JFloat, drop 3 s)
        else if starts_with (lit ''Infinity'') s then Inr (JFloat, drop 8 s)
        else if starts_with (lit ''-Infinity'') s then Inr (JFloat, drop 9 s)
        else json_number s)"
| "json_items 0 s = Inl OutOfFuel"
| "json_items (Suc n) s = (case json_scan n s of
      Inl e \<Rightarrow> Inl e
    | Inr (v, r) \<Rightarrow> (case json_ws r of
          [] \<Rightarrow> Inl Malformed
        | c # r1 \<Rightarrow>
            if c = 93 then Inr ([v], r1)
            else if c = 44 then map_sum id (\<lambda>(vs, r2). (v # vs, r2)) (json_items n (json_ws r1))
            else Inl Malformed))"
| "json_members 0 s = Inl OutOfFuel"
| "json_members (Suc n) s = (case s of
      [] \<Rightarrow> Inl Malformed
    | c # r \<Rightarrow>
        if c \<noteq> 34 then Inl Malformed
        else (case json_string r of
            None \<Rightarrow> Inl Malformed
          | Some (k, r1) \<Rightarrow> (case json_ws r1 of
              [] \<Rightarrow> Inl Malformed
            | d # r2 \<Rightarrow>
                if d \<noteq> 58 then Inl Malformed
                else (case json_scan n (json_ws r2) of
                    Inl e \<Rightarrow> Inl e
                  | Inr (v, r3) \<Rightarrow> (case json_ws r3 of
                        [] \<Rightarrow> Inl Malformed
                      | e # r4 \<Rightarrow>
                          if e = 125 then Inr ([(k, v)], r4)
                          else if e = 44 then
                            map_sum id (\<lambda>(ms, r5). ((k, v) # ms, r5)) (json_members n (json_ws r4))
                          else Inl Malformed)))))"

text \<open>\<open>json.loads(s)\<close> for a string.\<close>

definition json_loads :: "pystr \<Rightarrow> json_error + json" where
  "json_loads s =
     (if starts_with [65279] s then Inl Malformed
      else (case json_scan (2 * length s + 2) (json_ws s) of
          Inl e \<Rightarrow> Inl e
        | Inr (v, r) \<Rightarrow> if json_ws r = [] then Inr v else Inl Malformed))"

declare json_scan.simps [simp del] json_items.simps [simp del] json_members.simps [simp del]

section \<open>Fuel\<close>

text \<open>What the parser leaves is shorter than what it was given, so the fuel of \<open>json_loads\<close> is enough.\<close>

lemma json_string_shorter: "json_string s = Some (t, r) \<Longrightarrow> length r < length s"
proof (induction s arbitrary: t rule: json_string.induct)
  case (1 s)
  show ?case
  proof (cases s)
    case Nil
    with "1.prems" show ?thesis by (simp add: json_string.simps)
  next
    case (Cons c u)
    consider "c = 34" | "c = 92" | "c \<noteq> 34" "c \<noteq> 92" by blast
    then show ?thesis
    proof cases
      case 1
      with "1.prems" Cons show ?thesis by (simp add: json_string.simps)
    next
      case 2
      with "1.prems" Cons obtain e r1 v r2 t' where u: "u = e # r1"
        and esc: "(if e = 117 then read_unicode r1 else map_option (\<lambda>v. (v, r1)) (simple_escape e)) = Some (v, r2)"
        and len: "length r2 < length s" and rec: "json_string r2 = Some (t', r)"
        by (subst (asm) json_string.simps) (auto split: list.splits option.splits if_splits)
      have "length r < length r2"
        by (rule "1.IH"(1) [OF Cons _ _ u esc refl len rec]) (use 2 in simp_all)
      with len show ?thesis by simp
    next
      case 3
      with "1.prems" Cons obtain t' where c: "\<not> c \<le> 31" and rec: "json_string u = Some (t', r)"
        by (subst (asm) json_string.simps) (auto split: if_splits)
      have "length r < length u" by (rule "1.IH"(2) [OF Cons _ _ c rec]) (use 3 in simp_all)
      with Cons show ?thesis by simp
    qed
  qed
qed

lemma json_ws_le: "length (json_ws s) \<le> length s"
  by (simp add: json_ws_def length_dropWhile_le)

lemma json_ws_Cons: "json_ws s = c # r \<Longrightarrow> length r < length s"
  using json_ws_le [of s] by simp

lemma frac_part_le: "frac_part s = (b, r) \<Longrightarrow> length r \<le> length s"
  by (auto simp: frac_part_def split: list.splits if_splits intro: le_trans [OF length_dropWhile_le])

lemma exp_part_le: "exp_part s = (b, r) \<Longrightarrow> length r \<le> length s"
  by (auto simp: exp_part_def Let_def split: list.splits if_splits intro: le_trans [OF length_dropWhile_le])

lemma int_part_less: "int_part s = Some (d, r) \<Longrightarrow> length r < length s"
proof -
  assume s: "int_part s = Some (d, r)"
  then obtain c u where c: "s = c # u" by (cases s) (auto simp: int_part_def)
  have "length (dropWhile ascii_digit u) \<le> length u" by (rule length_dropWhile_le)
  with s c show ?thesis by (auto simp: int_part_def split: if_splits)
qed

lemma json_number_shorter: "json_number s = Inr (v, r) \<Longrightarrow> length r < length s"
proof -
  assume n: "json_number s = Inr (v, r)"
  obtain neg s1 where s1: "(case s of c # r \<Rightarrow> if c = 45 then (True, r) else (False, s) | [] \<Rightarrow> (False, s)) = (neg, s1)"
    by fastforce
  then have le: "length s1 \<le> length s" by (auto split: list.splits if_splits)
  obtain d r0 where d: "int_part s1 = Some (d, r0)"
    using n s1 by (auto simp: json_number_def split: option.splits)
  obtain f r1 where f: "frac_part r0 = (f, r1)" by fastforce
  obtain e r2 where e: "exp_part r1 = (e, r2)" by fastforce
  have "r = r2" using n s1 d f e by (auto simp: json_number_def Let_def split: if_splits)
  with le int_part_less [OF d] frac_part_le [OF f] exp_part_le [OF e] show ?thesis by simp
qed

lemma json_number_fuel: "json_number s \<noteq> Inl OutOfFuel"
  by (auto simp: json_number_def Let_def case_prod_beta split: option.split if_splits)

lemma map_sum_Inr_iff: "map_sum id f x = Inr y \<longleftrightarrow> (\<exists>z. x = Inr z \<and> y = f z)"
  by (cases x) auto

lemma map_sum_Inl_iff: "map_sum id f x = Inl e \<longleftrightarrow> x = Inl e"
  by (cases x) auto

lemma json_shorter:
  "(json_scan n s = Inr (v, r) \<longrightarrow> length r < length s) \<and>
   (json_items n s = Inr (vs, r) \<longrightarrow> length r < length s) \<and>
   (json_members n s = Inr (ms, r) \<longrightarrow> length r < length s)"
proof (induction n arbitrary: s v vs ms r)
  case 0
  then show ?case by (simp add: json_scan.simps json_items.simps json_members.simps)
next
  case (Suc n)
  have scan: "length r' < length s'" if "json_scan n s' = Inr (v', r')" for s' v' r'
    using Suc that by blast
  have items: "length r' < length s'" if "json_items n s' = Inr (v', r')" for s' v' r'
    using Suc that by blast
  have members: "length r' < length s'" if "json_members n s' = Inr (v', r')" for s' v' r'
    using Suc that by blast
  have "length r < length s" if "json_scan (Suc n) s = Inr (v, r)"
    using that
    by (auto simp: json_scan.simps Let_def map_sum_Inr_iff split: list.splits if_splits option.splits
        dest!: json_string_shorter items members json_number_shorter json_ws_Cons)
  moreover have "length r < length s" if "json_items (Suc n) s = Inr (vs, r)"
    using that json_ws_le
    by (fastforce simp: json_items.simps map_sum_Inr_iff split: list.splits if_splits sum.splits
        dest!: scan items json_ws_Cons dest: le_less_trans)
  moreover have "length r < length s" if M: "json_members (Suc n) s = Inr (ms, r)"
  proof -
    obtain u k r1 r2 v0 r3 e r4 where s: "s = 34 # u" and k: "json_string u = Some (k, r1)"
      and r1: "json_ws r1 = 58 # r2" and v0: "json_scan n (json_ws r2) = Inr (v0, r3)"
      and r3: "json_ws r3 = e # r4"
      and e: "r = r4 \<or> (\<exists>ms'. json_members n (json_ws r4) = Inr (ms', r))"
      using M by (auto simp: json_members.simps map_sum_Inr_iff split: list.splits if_splits sum.splits option.splits)
    have "length r \<le> length r4" using e members json_ws_le [of r4] by fastforce
    also have "length r4 < length r3" using r3 by (rule json_ws_Cons)
    also have "length r3 < length (json_ws r2)" using v0 by (rule scan)
    also have "length (json_ws r2) \<le> length r2" by (rule json_ws_le)
    also have "length r2 < length r1" using r1 by (rule json_ws_Cons)
    also have "length r1 < length u" using k by (rule json_string_shorter)
    finally show ?thesis using s by simp
  qed
  ultimately show ?case by blast
qed

lemma json_scan_shorter: "json_scan n s = Inr (v, r) \<Longrightarrow> length r < length s"
  using json_shorter by blast

lemma json_fuel:
  "(2 * length s < n \<longrightarrow> json_scan n s \<noteq> Inl OutOfFuel) \<and>
   (2 * length s + 1 < n \<longrightarrow> json_items n s \<noteq> Inl OutOfFuel) \<and>
   (2 * length s + 1 < n \<longrightarrow> json_members n s \<noteq> Inl OutOfFuel)"
proof (induction n arbitrary: s)
  case 0
  then show ?case by simp
next
  case (Suc n)
  have scan: "json_scan n s' \<noteq> Inl OutOfFuel" if "2 * length s' < n" for s' using Suc that by blast
  have items: "json_items n s' \<noteq> Inl OutOfFuel" if "2 * length s' + 1 < n" for s' using Suc that by blast
  have members: "json_members n s' \<noteq> Inl OutOfFuel" if "2 * length s' + 1 < n" for s' using Suc that by blast
  have "json_scan (Suc n) s \<noteq> Inl OutOfFuel" if len: "2 * length s < Suc n"
  proof (cases s)
    case (Cons c u)
    have "2 * length (json_ws u) + 1 < n" using len Cons json_ws_le [of u] by simp
    note items [OF this] members [OF this]
    then show ?thesis
      using json_number_fuel
      by (auto simp: json_scan.simps Cons Let_def map_sum_Inl_iff split: list.split option.split)
  qed (simp add: json_scan.simps)
  moreover have "json_items (Suc n) s \<noteq> Inl OutOfFuel" if len: "2 * length s + 1 < Suc n"
  proof (cases "json_scan n s")
    case (Inl e)
    then show ?thesis using scan [of s] len by (auto simp: json_items.simps)
  next
    case (Inr p)
    obtain v r where p: "json_scan n s = Inr (v, r)" using Inr by (cases p) simp
    have "2 * length (json_ws r1) + 1 < n" if "json_ws r = c # r1" for c r1
      using json_scan_shorter [OF p] json_ws_Cons [OF that] json_ws_le [of r1] len by linarith
    then show ?thesis
      using items by (auto simp: json_items.simps p map_sum_Inl_iff split: list.split)
  qed
  moreover have "json_members (Suc n) s \<noteq> Inl OutOfFuel" if len: "2 * length s + 1 < Suc n"
  proof (cases "\<exists>u k r1 r2. s = 34 # u \<and> json_string u = Some (k, r1) \<and> json_ws r1 = 58 # r2")
    case True
    then obtain u k r1 r2 where s: "s = 34 # u" "json_string u = Some (k, r1)" "json_ws r1 = 58 # r2"
      by blast
    have r2: "length (json_ws r2) + 2 < length s"
      using json_string_shorter [OF s(2)] json_ws_Cons [OF s(3)] json_ws_le [of r2] s(1) by simp
    show ?thesis
    proof (cases "json_scan n (json_ws r2)")
      case (Inl e)
      then show ?thesis using scan [of "json_ws r2"] r2 len by (auto simp: json_members.simps s)
    next
      case (Inr p)
      obtain v r3 where p: "json_scan n (json_ws r2) = Inr (v, r3)" using Inr by (cases p) simp
      have "2 * length (json_ws r4) + 1 < n" if "json_ws r3 = c # r4" for c r4
        using json_scan_shorter [OF p] json_ws_Cons [OF that] json_ws_le [of r4] r2 len by linarith
      then show ?thesis
        using members by (auto simp: json_members.simps s p map_sum_Inl_iff split: list.split)
    qed
  next
    case False
    then show ?thesis by (auto simp: json_members.simps split: list.split option.split)
  qed
  ultimately show ?case by blast
qed

lemma json_loads_fuel: "json_loads s \<noteq> Inl OutOfFuel"
proof -
  have "2 * length (json_ws s) < 2 * length s + 2" using json_ws_le [of s] by simp
  then have "json_scan (2 * length s + 2) (json_ws s) \<noteq> Inl OutOfFuel" using json_fuel by blast
  then show ?thesis by (auto simp: json_loads_def split: sum.split)
qed

section \<open>Reading back what was written\<close>

text \<open>
  A text of Unicode scalar values: no surrogates. (A lone surrogate is read back too, but a high
  one followed by a low one is read back as one character.)
\<close>

definition scalar_text :: "pystr \<Rightarrow> bool" where
  "scalar_text s \<longleftrightarrow> (\<forall>c \<in> set s. c < 1114112 \<and> \<not> (55296 \<le> c \<and> c \<le> 57343))"

lemma hex_value_digit: "n < 16 \<Longrightarrow> hex_value (hex_digit n) = Some n"
  by (auto simp: hex_value_def hex_digit_def)

lemma read_hex4_hex4: "n < 65536 \<Longrightarrow> read_hex4 (hex4 n @ r) = Some (n, r)"
proof -
  assume n: "n < 65536"
  have "4096 * (n div 4096 mod 16) + 256 * (n div 256 mod 16) + 16 * (n div 16 mod 16) + n mod 16 = n"
  proof -
    define a where "a = n div 16"
    define b where "b = a div 16"
    define c where "c = b div 16"
    have d: "n div 256 = b" "n div 4096 = c" "n div 16 = a"
      by (simp_all add: a_def b_def c_def div_mult2_eq [of n 16 16, simplified] div_mult2_eq [of n 16 256, simplified]
          div_mult2_eq [of "n div 16" 16 16, simplified])
    have "c < 16" using n by (simp add: c_def b_def a_def less_mult_imp_div_less)
    moreover have "n = 16 * a + n mod 16" "a = 16 * b + a mod 16" "b = 16 * c + b mod 16"
      by (simp_all add: a_def b_def c_def)
    ultimately show ?thesis unfolding d by simp
  qed
  moreover have "hex_value (hex_digit (k mod 16)) = Some (k mod 16)" for k
    by (simp add: hex_value_digit)
  ultimately show ?thesis
    by (simp only: hex4_def append_Cons append_Nil read_hex4.simps option.case prod.case)
qed

lemma read_unicode_bmp:
  "n < 65536 \<Longrightarrow> \<not> (55296 \<le> n \<and> n \<le> 57343) \<Longrightarrow> read_unicode (hex4 n @ r) = Some (n, r)"
  by (auto simp: read_unicode_def read_hex4_hex4)

lemma read_unicode_pair:
  assumes "65536 \<le> c" and "c < 1114112"
  shows "read_unicode (hex4 (55296 + (c - 65536) div 1024) @ 92 # 117 #
    hex4 (56320 + (c - 65536) mod 1024) @ r) = Some (c, r)"
proof -
  define v where "v = c - 65536"
  have v: "v div 1024 < 1024" "v mod 1024 < 1024" "v = v div 1024 * 1024 + v mod 1024" "c = 65536 + v"
    using assms by (simp_all add: v_def less_mult_imp_div_less)
  then have "65536 + v div 1024 * 1024 + v mod 1024 = c" by linarith
  then show ?thesis
    using v(1,2) unfolding v_def [symmetric] by (simp add: read_unicode_def read_hex4_hex4)
qed

lemma json_string_quote: "json_string (34 # r) = Some ([], r)"
  by (subst json_string.simps) simp

lemma json_string_plain: "c \<noteq> 34 \<Longrightarrow> c \<noteq> 92 \<Longrightarrow> 31 < c \<Longrightarrow>
    json_string (c # r) = map_option (\<lambda>(t, r3). (c # t, r3)) (json_string r)"
  by (subst json_string.simps) simp

lemma json_string_simple: "simple_escape e = Some v \<Longrightarrow> e \<noteq> 117 \<Longrightarrow>
    json_string (92 # e # r) = map_option (\<lambda>(t, r3). (v # t, r3)) (json_string r)"
  by (subst json_string.simps) simp

lemma json_string_unicode: "read_unicode s = Some (v, r) \<Longrightarrow>
    json_string (92 # 117 # s) = map_option (\<lambda>(t, r3). (v # t, r3)) (json_string r)"
  using read_unicode_shorter [of s v r] by (subst json_string.simps) simp

lemma json_string_escape_char:
  assumes "c < 1114112" and "\<not> (55296 \<le> c \<and> c \<le> 57343)"
  shows "json_string (json_escape_char c @ r) = map_option (\<lambda>(t, r3). (c # t, r3)) (json_string r)"
proof -
  consider (special) "c \<in> {34, 92, 10, 13, 9, 12, 8}"
    | (plain) "c \<notin> {34, 92, 10, 13, 9, 12, 8}" "32 \<le> c \<and> c \<le> 126"
    | (bmp) "c \<notin> {34, 92, 10, 13, 9, 12, 8}" "\<not> (32 \<le> c \<and> c \<le> 126)" "c < 65536"
    | (pair) "c \<notin> {34, 92, 10, 13, 9, 12, 8}" "\<not> (32 \<le> c \<and> c \<le> 126)" "65536 \<le> c"
    by linarith
  then show ?thesis
  proof cases
    case special
    then show ?thesis
      by (elim insertE emptyE) (simp_all add: json_escape_char_def json_string_simple simple_escape_def)
  next
    case plain
    then show ?thesis by (simp add: json_escape_char_def json_string_plain)
  next
    case bmp
    then have "json_escape_char c = 92 # 117 # hex4 c" by (simp add: json_escape_char_def)
    with json_string_unicode [OF read_unicode_bmp [OF bmp(3) assms(2)]] show ?thesis by simp
  next
    case pair
    then have "json_escape_char c @ r = 92 # 117 # hex4 (55296 + (c - 65536) div 1024) @ 92 # 117 #
        hex4 (56320 + (c - 65536) mod 1024) @ r"
      by (simp add: json_escape_char_def Let_def)
    with json_string_unicode [OF read_unicode_pair [OF pair(3) assms(1)]] show ?thesis by simp
  qed
qed

lemma json_string_escape: "scalar_text t \<Longrightarrow> json_string (json_escape t @ 34 # r) = Some (t, r)"
proof (induction t)
  case Nil
  then show ?case by (simp add: json_escape_def json_string_quote)
next
  case (Cons c t)
  then have "json_string (json_escape t @ 34 # r) = Some (t, r)" and c: "c < 1114112"
    "\<not> (55296 \<le> c \<and> c \<le> 57343)"
    by (auto simp: scalar_text_def)
  with json_string_escape_char [OF c, of "json_escape t @ 34 # r"] show ?case
    by (simp add: json_escape_def)
qed

lemma json_scan_str: "scalar_text t \<Longrightarrow> json_scan (Suc n) (json_str t @ r) = Inr (JString t, r)"
  by (simp add: json_scan.simps json_str_def json_string_escape)

lemma json_ws_simps [simp]:
  "json_ws [] = []" "json_ws (32 # r) = json_ws r" "json_ws (34 # r) = 34 # r" "json_ws (44 # r) = 44 # r"
  "json_ws (58 # r) = 58 # r" "json_ws (91 # r) = 91 # r" "json_ws (93 # r) = 93 # r"
  "json_ws (123 # r) = 123 # r" "json_ws (125 # r) = 125 # r"
  by (simp_all add: json_ws_def)

lemma json_ws_str [simp]: "json_ws (json_str t @ r) = json_str t @ r"
  by (simp add: json_str_def)

lemma json_items_strs:
  "xs \<noteq> [] \<Longrightarrow> length xs < n \<Longrightarrow> \<forall>x \<in> set xs. scalar_text x \<Longrightarrow>
     json_items n (json_list_items xs @ 93 # r) = Inr (map JString xs, r)"
proof (induction xs arbitrary: n rule: json_list_items.induct)
  case (2 x)
  then have "n = Suc (Suc (n - 2))" by simp
  then obtain m where "n = Suc (Suc m)" by blast
  with 2 json_scan_str [of x] show ?case by (simp add: json_items.simps)
next
  case (3 x y xs)
  then have "n = Suc (Suc (n - 2))" by simp
  then obtain m where n: "n = Suc (Suc m)" by blast
  have "json_items (Suc m) (json_list_items (y # xs) @ 93 # r) = Inr (map JString (y # xs), r)"
    using 3 n by simp
  moreover have "json_ws (json_list_items (y # xs) @ 93 # r) = json_list_items (y # xs) @ 93 # r"
    by (cases xs) simp_all
  ultimately show ?case
    using json_scan_str [of x] 3 n by (simp add: json_items.simps)
qed simp

lemma json_scan_str_list:
  assumes "length xs + 1 < n" and "\<forall>x \<in> set xs. scalar_text x"
  shows "json_scan n (json_str_list xs @ r) = Inr (JArray (map JString xs), r)"
proof -
  obtain m where n: "n = Suc m" using assms(1) by (cases n) auto
  show ?thesis
  proof (cases xs)
    case Nil
    then show ?thesis by (simp add: n json_str_list_def json_scan.simps)
  next
    case (Cons x ys)
    then have "json_items m (json_list_items xs @ 93 # r) = Inr (map JString xs, r)"
      using assms n by (intro json_items_strs) auto
    moreover obtain u where "json_list_items xs = 34 # u"
      using Cons by (cases ys) (simp_all add: json_str_def)
    ultimately show ?thesis by (simp add: n json_str_list_def json_scan.simps)
  qed
qed

text \<open>A number that is not negative, with something after it that does not continue a number.\<close>

lemma nat_digits_head: "nat_digits n = c # cs \<Longrightarrow> c = 48 \<Longrightarrow> n = 0"
proof (induction n arbitrary: c cs rule: nat_digits.induct)
  case (1 n)
  show ?case
  proof (cases "n < 10")
    case True
    with 1 show ?thesis by (simp add: nat_digits.simps [of n])
  next
    case False
    obtain d ds where d: "nat_digits (n div 10) = d # ds"
      using nat_digits_props [of "n div 10"] by (cases "nat_digits (n div 10)") auto
    then have "d = c" using "1.prems"(1) False by (simp add: nat_digits.simps [of n])
    with "1.IH" [OF False d] "1.prems"(2) False show ?thesis by simp
  qed
qed

lemma json_scan_nat:
  assumes "length (nat_digits m) \<le> max_str_digits" and "r = [] \<or> hd r = 44"
  shows "json_scan (Suc n) (nat_digits m @ r) = Inr (JInt (int m), r)"
proof -
  note P = nat_digits_props [of m]
  obtain c cs where c: "nat_digits m = c # cs" using P by (cases "nat_digits m") auto
  have dig: "ascii_digit x" if "x \<in> set (c # cs)" for x using P c that by (auto simp: ascii_digit_def)
  then have c': "48 \<le> c" "c \<le> 57" by (auto simp: ascii_digit_def)
  have stop: "takeWhile ascii_digit r = []" "dropWhile ascii_digit r = r" "frac_part r = (False, r)"
    "exp_part r = (False, r)"
    using assms(2)
    by (cases r; auto simp: ascii_digit_def frac_part_def exp_part_def split: list.split)+
  have "int_part ((c # cs) @ r) = Some (c # cs, r)"
  proof (cases "c = 48")
    case True
    then have "m = 0" using c nat_digits_head by blast
    then have "cs = []" using c by (simp add: nat_digits.simps)
    with True show ?thesis by (simp add: int_part_def)
  next
    case False
    have "takeWhile ascii_digit ((c # cs) @ r) = c # cs" "dropWhile ascii_digit ((c # cs) @ r) = r"
      using dig stop by (simp_all add: takeWhile_append2 dropWhile_append2)
    with False dig show ?thesis by (simp add: int_part_def)
  qed
  then have "json_number ((c # cs) @ r) = Inr (JInt (int m), r)"
    using c' stop assms(1) P c by (simp add: json_number_def Let_def)
  then show ?thesis
    using c' by (simp add: c json_scan.simps starts_with_def)
qed

end
