(* ===== verification/Persistence.thy ===== *)
theory Persistence
  imports Json Interfaces
begin

text \<open>
  The append-only log of src/src/persistence.py. The file is the text in it (ASCII when the
  program wrote it; a file that is not UTF-8 is not modelled), and the object holds what Python's
  file object holds: the text in its write buffer that is not yet in the file, where the used part of
  the buffer ends, and the size of the buffer. The operating system may fail a write
  after some characters or fail an fsync; \<open>aof_io_fault\<close> says what the n-th such call does.
  \<open>aof_synced\<close> is how much of the text the last successful fsync covered, the part that survives
  a power failure.
\<close>

section \<open>Lines and records\<close>

text \<open>Iterating over a text file: universal newlines; the terminators are stripped by the callers.\<close>

function text_lines :: "pystr \<Rightarrow> pystr list" where
  "text_lines s =
     (if s = [] then []
      else let line = takeWhile (\<lambda>c. c \<noteq> 10 \<and> c \<noteq> 13) s; rest = dropWhile (\<lambda>c. c \<noteq> 10 \<and> c \<noteq> 13) s in
        line # (case rest of [] \<Rightarrow> []
                | c # r \<Rightarrow> text_lines (if c = 13 \<and> r \<noteq> [] \<and> hd r = 10 then tl r else r)))"
  by pat_completeness auto

termination
proof (relation "measure length")
  fix s line rest c r
  assume "s \<noteq> ([] :: pystr)" and rest: "rest = dropWhile (\<lambda>c. c \<noteq> 10 \<and> c \<noteq> 13) s" "rest = c # r"
  then have "Suc (length r) \<le> length s" by (metis length_Cons length_dropWhile_le)
  then show "(if c = 13 \<and> r \<noteq> [] \<and> hd r = 10 then tl r else r, s) \<in> measure length" by auto
qed simp

declare text_lines.simps [simp del]

text \<open>The line \<open>append\<close> writes for a record whose sequence number prints as \<open>digits\<close>.\<close>

definition record_text :: "pystr \<Rightarrow> CommandRequest \<Rightarrow> pystr" where
  "record_text digits request = 123 # json_str (lit ''sequence'') @ 58 # 32 # digits @ 44 # 32 #
     json_str (lit ''command'') @ 58 # 32 # json_str (CommandName_value (req_command request)) @ 44 # 32 #
     json_str (lit ''args'') @ 58 # 32 # json_str_list (req_args request) @ [125]"

definition json_as_int :: "json \<Rightarrow> int option" where
  "json_as_int v = (case v of JInt n \<Rightarrow> Some n | JBool b \<Rightarrow> Some (if b then 1 else 0) | _ \<Rightarrow> None)"

definition json_as_str :: "json \<Rightarrow> pystr option" where
  "json_as_str v = (case v of JString s \<Rightarrow> Some s | _ \<Rightarrow> None)"

definition json_as_strs :: "json \<Rightarrow> pystr list option" where
  "json_as_strs v = (case v of
      JArray xs \<Rightarrow> if list_all (\<lambda>x. json_as_str x \<noteq> None) xs then Some (map (\<lambda>x. the (json_as_str x)) xs)
                   else None
    | _ \<Rightarrow> None)"

text \<open>\<open>isinstance(True, int)\<close> holds in Python, so a boolean passes for a sequence number.\<close>

definition parse_record_line :: "pystr \<Rightarrow> py_exn + PersistRecord option" where
  "parse_record_line line =
     (case json_loads line of
        Inl TooManyDigits \<Rightarrow> Inl ValueError
      | Inl _ \<Rightarrow> Inr None
      | Inr (JObject data) \<Rightarrow>
          Inr (case (Option.bind (map_of data (lit ''sequence'')) json_as_int,
                     Option.bind (map_of data (lit ''command'')) json_as_str,
                     Option.bind (map_of data (lit ''args'')) json_as_strs) of
                 (Some sequence, Some command_raw, Some args) \<Rightarrow>
                   (case CommandName_of command_raw of
                      Inl _ \<Rightarrow> None
                    | Inr command \<Rightarrow> Some \<lparr>rec_sequence = sequence, rec_request = mk_request command args\<rparr>)
               | _ \<Rightarrow> None)
      | Inr _ \<Rightarrow> Inr None)"

text \<open>\<open>replay\<close> is a generator: it yields records until a line raises.\<close>

primrec replay_lines :: "pystr list \<Rightarrow> PersistRecord list \<times> py_exn option" where
  "replay_lines [] = ([], None)"
| "replay_lines (raw # raws) =
     (let line = py_strip raw in
      if line = [] then replay_lines raws
      else (case parse_record_line line of
          Inl e \<Rightarrow> ([], Some e)
        | Inr None \<Rightarrow> replay_lines raws
        | Inr (Some r) \<Rightarrow> (let (rs, e) = replay_lines raws in (r # rs, e))))"

definition replay_text :: "pystr \<Rightarrow> PersistRecord list \<times> py_exn option" where
  "replay_text text = replay_lines (text_lines text)"

primrec max_sequence :: "pystr list \<Rightarrow> int \<Rightarrow> py_exn + int" where
  "max_sequence [] m = Inr m"
| "max_sequence (raw # raws) m =
     (case parse_record_line (py_strip raw) of
        Inl e \<Rightarrow> Inl e
      | Inr None \<Rightarrow> max_sequence raws m
      | Inr (Some r) \<Rightarrow> max_sequence raws (if rec_sequence r > m then rec_sequence r else m))"

definition discover_next_sequence :: "pystr \<Rightarrow> py_exn + int" where
  "discover_next_sequence text =
     (case max_sequence (text_lines text) (-1) of Inl e \<Rightarrow> Inl e | Inr m \<Rightarrow> Inr (m + 1))"

section \<open>The log\<close>

text \<open>Python takes the block size of the file system for the size of the buffer.\<close>

definition default_buffer_size :: nat where
  "default_buffer_size = 4096"

record AofPersistence =
  aof_text :: pystr
  aof_pending :: pystr
  aof_buffer_end :: nat
  aof_buffer_size :: nat
  aof_synced :: nat
  aof_closed :: bool
  aof_io_calls :: nat
  aof_io_fault :: "nat \<Rightarrow> (nat \<times> pystr) option"
  aof_next_sequence :: int
  aof_fsync_policy :: FsyncPolicy
  aof_fsync_every_n :: int
  aof_writes_since_fsync :: int

definition AofPersistence_init ::
    "pystr \<Rightarrow> (nat \<Rightarrow> (nat \<times> pystr) option) \<Rightarrow> FsyncPolicy \<Rightarrow> int \<Rightarrow> py_exn + AofPersistence" where
  "AofPersistence_init text faults policy every_n =
     (case discover_next_sequence text of
        Inl e \<Rightarrow> Inl e
      | Inr n \<Rightarrow> Inr \<lparr>aof_text = text, aof_pending = [], aof_buffer_end = 0, aof_buffer_size = default_buffer_size, aof_synced = length text, aof_closed = False,
          aof_io_calls = 0, aof_io_fault = faults, aof_next_sequence = n, aof_fsync_policy = policy,
          aof_fsync_every_n = every_n, aof_writes_since_fsync = 0\<rparr>)"

text \<open>
  \<open>file.flush()\<close>, \<open>os.fsync(file.fileno())\<close>, and \<open>file.write(text)\<close> with the flush that follows it,
  as Python's text and buffered layers do them. A flush that fails keeps what it has not written in
  the buffer, and the room it took there. A text that fits into the rest of the buffer is put
  there. Otherwise the buffer is flushed first, and the text is lost if that fails; and a text
  longer than the whole buffer is written directly until the rest fits: if the write fails before
  that, the rest is lost.
\<close>

definition file_flush :: "AofPersistence \<Rightarrow> (py_exn + unit) \<times> AofPersistence" where
  "file_flush a =
     (if aof_closed a then (Inl ValueError, a)
      else if aof_pending a = [] then (Inr (), a\<lparr>aof_buffer_end := 0\<rparr>)
      else let a1 = a\<lparr>aof_io_calls := Suc (aof_io_calls a)\<rparr> in
        (case aof_io_fault a (aof_io_calls a) of
           None \<Rightarrow> (Inr (), a1\<lparr>aof_text := aof_text a @ aof_pending a, aof_pending := [],
                       aof_buffer_end := 0\<rparr>)
         | Some (n, msg) \<Rightarrow> (Inl (OSError msg), a1\<lparr>aof_text := aof_text a @ take n (aof_pending a),
                               aof_pending := drop n (aof_pending a)\<rparr>)))"

definition buffer_write :: "pystr \<Rightarrow> AofPersistence \<Rightarrow> (py_exn + unit) \<times> AofPersistence" where
  "buffer_write b a =
     (if aof_closed a then (Inl ValueError, a)
      else if aof_buffer_end a + length b \<le> aof_buffer_size a \<and> length b < aof_buffer_size a then
        (Inr (), a\<lparr>aof_pending := aof_pending a @ b, aof_buffer_end := aof_buffer_end a + length b\<rparr>)
      else case file_flush a of
          (Inl e, a1) \<Rightarrow> (Inl e, a1)
        | (Inr _, a1) \<Rightarrow>
            if length b \<le> aof_buffer_size a1 then
              (Inr (), a1\<lparr>aof_pending := b, aof_buffer_end := length b\<rparr>)
            else let a2 = a1\<lparr>aof_io_calls := Suc (aof_io_calls a1)\<rparr> in
              (case aof_io_fault a1 (aof_io_calls a1) of
                 None \<Rightarrow> (Inr (), a2\<lparr>aof_text := aof_text a1 @ b\<rparr>)
               | Some (n, msg) \<Rightarrow>
                   let a3 = a2\<lparr>aof_text := aof_text a1 @ take n b\<rparr> in
                   if length b - n \<le> aof_buffer_size a1 then
                     (Inl (OSError msg), a3\<lparr>aof_pending := drop n b, aof_buffer_end := length b - n\<rparr>)
                   else (Inl (OSError msg), a3)))"

definition write_and_flush :: "pystr \<Rightarrow> AofPersistence \<Rightarrow> (py_exn + unit) \<times> AofPersistence" where
  "write_and_flush b a =
     (case buffer_write b a of (Inl e, a1) \<Rightarrow> (Inl e, a1) | (Inr _, a1) \<Rightarrow> file_flush a1)"

definition file_fsync :: "AofPersistence \<Rightarrow> (py_exn + unit) \<times> AofPersistence" where
  "file_fsync a =
     (if aof_closed a then (Inl ValueError, a)
      else let a1 = a\<lparr>aof_io_calls := Suc (aof_io_calls a)\<rparr> in
        (case aof_io_fault a (aof_io_calls a) of
           None \<Rightarrow> (Inr (), a1\<lparr>aof_synced := length (aof_text a)\<rparr>)
         | Some (n, msg) \<Rightarrow> (Inl (OSError msg), a1)))"

definition aof_append :: "PersistRecord \<Rightarrow> AofPersistence \<Rightarrow> (py_exn + unit) \<times> AofPersistence" where
  "aof_append record a =
     (case py_format_int (rec_sequence record) of
        Inl e \<Rightarrow> (Inl e, a)
      | Inr digits \<Rightarrow>
          if aof_closed a then (Inl ValueError, a)
          else
            (case write_and_flush (record_text digits (rec_request record) @ [10]) a of
               (Inl e, a2) \<Rightarrow> (Inl e, a2)
             | (Inr _, a2) \<Rightarrow>
                 let a3 = a2\<lparr>aof_writes_since_fsync := aof_writes_since_fsync a2 + 1\<rparr> in
                 if aof_fsync_policy a3 = ALWAYS \<or>
                    aof_fsync_policy a3 = EVERY_N \<and> aof_writes_since_fsync a3 \<ge> aof_fsync_every_n a3 then
                   (case file_fsync a3 of
                      (Inl e, a4) \<Rightarrow> (Inl e, a4)
                    | (Inr _, a4) \<Rightarrow> (Inr (), a4\<lparr>aof_writes_since_fsync := 0\<rparr>))
                 else (Inr (), a3)))"

definition append_request :: "CommandRequest \<Rightarrow> AofPersistence \<Rightarrow> (py_exn + PersistRecord) \<times> AofPersistence" where
  "append_request request a =
     (let record = \<lparr>rec_sequence = aof_next_sequence a, rec_request = request\<rparr> in
      case aof_append record a of
        (Inl e, a1) \<Rightarrow> (Inl e, a1)
      | (Inr _, a1) \<Rightarrow> (Inr record, a1\<lparr>aof_next_sequence := aof_next_sequence a1 + 1\<rparr>))"

definition aof_replay :: "AofPersistence \<Rightarrow> PersistRecord list \<times> py_exn option" where
  "aof_replay a = replay_text (aof_text a)"

definition force_fsync :: "AofPersistence \<Rightarrow> (py_exn + unit) \<times> AofPersistence" where
  "force_fsync a =
     (case file_flush a of
        (Inl e, a1) \<Rightarrow> (Inl e, a1)
      | (Inr _, a1) \<Rightarrow>
          (case file_fsync a1 of
             (Inl e, a2) \<Rightarrow> (Inl e, a2)
           | (Inr _, a2) \<Rightarrow> (Inr (), a2\<lparr>aof_writes_since_fsync := 0\<rparr>)))"

text \<open>
  \<open>file.close()\<close> flushes what is left and closes the file whether or not that worked; closing
  again does nothing.
\<close>

definition file_close :: "AofPersistence \<Rightarrow> (py_exn + unit) \<times> AofPersistence" where
  "file_close a =
     (if aof_closed a then (Inr (), a)
      else let (r, a1) = file_flush a in (r, a1\<lparr>aof_closed := True\<rparr>))"

definition aof_close :: "AofPersistence \<Rightarrow> (py_exn + unit) \<times> AofPersistence" where
  "aof_close a =
     (if aof_writes_since_fsync a > 0 \<and> aof_fsync_policy a \<noteq> NEVER then
        (case file_flush a of
           (Inl e, a1) \<Rightarrow> (Inl e, a1)
         | (Inr _, a1) \<Rightarrow>
             (case file_fsync a1 of
                (Inl e, a2) \<Rightarrow> (Inl e, a2)
              | (Inr _, a2) \<Rightarrow> file_close a2))
      else file_close a)"

section \<open>Lines\<close>

text \<open>A text that ends where a line ends: empty, or with a newline as its last character.\<close>

definition at_line_end :: "pystr \<Rightarrow> bool" where
  "at_line_end s \<longleftrightarrow> s = [] \<or> last s = 10"

definition one_line :: "pystr \<Rightarrow> bool" where
  "one_line l \<longleftrightarrow> l \<noteq> [] \<and> (\<forall>c \<in> set l. 32 \<le> c \<and> c \<le> 126)"

lemma text_lines_Nil [simp]: "text_lines [] = []"
  by (simp add: text_lines.simps)

lemma text_lines_line:
  "\<forall>c \<in> set l. c \<noteq> 10 \<and> c \<noteq> 13 \<Longrightarrow> text_lines (l @ 10 # r) = l # text_lines r"
proof -
  assume l: "\<forall>c \<in> set l. c \<noteq> 10 \<and> c \<noteq> 13"
  have "takeWhile (\<lambda>c. c \<noteq> 10 \<and> c \<noteq> 13) (l @ 10 # r) = l"
    "dropWhile (\<lambda>c. c \<noteq> 10 \<and> c \<noteq> 13) (l @ 10 # r) = 10 # r"
    using l by (simp_all add: takeWhile_append2 dropWhile_append2)
  then show ?thesis by (subst text_lines.simps) (simp add: Let_def)
qed

lemma text_lines_append:
  "at_line_end a \<Longrightarrow> text_lines (a @ b) = text_lines a @ text_lines b"
proof (induction a rule: text_lines.induct)
  case (1 a)
  let ?P = "\<lambda>c :: nat. c \<noteq> 10 \<and> c \<noteq> 13"
  show ?case
  proof (cases "a = []")
    case False
    then have last: "last a = 10" using "1.prems" by (simp add: at_line_end_def)
    have ne: "dropWhile ?P a \<noteq> []"
      using last False last_in_set [of a] by (auto simp: dropWhile_eq_Nil_conv)
    then obtain c r where cr: "dropWhile ?P a = c # r" by (meson neq_Nil_conv)
    have c: "c = 10 \<or> c = 13" using hd_dropWhile [OF ne] cr by simp
    have lr: "r = [] \<Longrightarrow> c = 10" "r \<noteq> [] \<Longrightarrow> last r = 10"
      using last last_dropWhile [OF ne] cr by (auto split: if_splits)
    let ?n = "\<lambda>r. if c = 13 \<and> r \<noteq> [] \<and> hd r = 10 then tl r else r"
    have end': "at_line_end (?n r)"
      using lr by (cases r) (auto simp: at_line_end_def split: if_splits)
    have "\<exists>x \<in> set a. \<not> ?P x" using last False last_in_set [of a] by fastforce
    then have "takeWhile ?P (a @ b) = takeWhile ?P a" "dropWhile ?P (a @ b) = c # r @ b"
      using cr by (auto simp: takeWhile_append1 dropWhile_append1)
    then have "text_lines (a @ b) = takeWhile ?P a # text_lines (?n (r @ b))"
      using False by (subst text_lines.simps) (simp add: Let_def)
    also have "?n (r @ b) = ?n r @ b" using lr(1) by (cases r) auto
    also have "text_lines (?n r @ b) = text_lines (?n r) @ text_lines b"
      by (rule "1.IH" [OF False refl refl cr end'])
    also have "takeWhile ?P a # text_lines (?n r) @ text_lines b = text_lines a @ text_lines b"
      using False cr by (subst (2) text_lines.simps) (simp add: Let_def)
    finally show ?thesis .
  qed simp
qed

lemma replay_lines_append:
  "replay_lines (a @ b) = (case replay_lines a of
     (rs, Some e) \<Rightarrow> (rs, Some e) | (rs, None) \<Rightarrow> (rs @ fst (replay_lines b), snd (replay_lines b)))"
  by (induction a) (auto simp: Let_def case_prod_beta split: sum.splits option.splits)

lemma max_sequence_append:
  "max_sequence (a @ b) m = (case max_sequence a m of Inl e \<Rightarrow> Inl e | Inr m' \<Rightarrow> max_sequence b m')"
  by (induction a arbitrary: m) (auto split: sum.splits option.splits)

section \<open>The text of a record\<close>

lemma hex_digit_range: "n < 16 \<Longrightarrow> 32 \<le> hex_digit n \<and> hex_digit n \<le> 126"
  by (auto simp: hex_digit_def)

lemma json_escape_char_range: "x \<in> set (json_escape_char c) \<Longrightarrow> 32 \<le> x \<and> x \<le> 126"
  by (auto simp: json_escape_char_def hex4_def hex_digit_range Let_def split: if_splits)

lemma json_str_range: "x \<in> set (json_str t) \<Longrightarrow> 32 \<le> x \<and> x \<le> 126"
  by (auto simp: json_str_def json_escape_def json_escape_char_range)

lemma json_list_items_range: "x \<in> set (json_list_items xs) \<Longrightarrow> 32 \<le> x \<and> x \<le> 126"
  by (induction xs rule: json_list_items.induct) (auto simp: json_str_range)

lemma record_text_line:
  assumes "\<forall>c \<in> set digits. 48 \<le> c \<and> c \<le> 57"
  shows "one_line (record_text digits q)"
proof -
  have "32 \<le> c \<and> c \<le> 126" if "c \<in> set (record_text digits q)" for c
  proof -
    have "c \<in> {123, 58, 32, 44, 125, 91, 93} \<union> set digits \<union> (\<Union>t. set (json_str t)) \<union>
        set (json_list_items (req_args q))"
      using that unfolding record_text_def json_str_list_def
      by (simp only: set_append set_simps) blast
    then show ?thesis
      using assms json_str_range [of c] json_list_items_range [of c "req_args q"] by fastforce
  qed
  then show ?thesis by (simp add: one_line_def) (simp add: record_text_def)
qed

lemma record_text_strip [simp]: "py_strip (record_text digits q) = record_text digits q"
  by (rule py_strip_trimmed) (simp add: is_trimmed_def record_text_def py_isspace_def)

lemma list_all_strs: "list_all (\<lambda>x. json_as_str x \<noteq> None) (map JString xs)"
  "map (\<lambda>x. the (json_as_str x)) (map JString xs) = xs"
  by (induction xs) (simp_all add: json_as_str_def)

lemma members_step:
  assumes "scalar_text k" and "json_scan n (json_ws v) = Inr (x, 44 # 32 # r)"
    and "json_members n (json_ws r) = Inr (ms, r')"
  shows "json_members (Suc n) (json_str k @ 58 # 32 # v) = Inr ((k, x) # ms, r')"
  using assms by (simp add: json_members.simps json_str_def json_string_escape)

lemma members_last:
  assumes "scalar_text k" and "json_scan n (json_ws v) = Inr (x, 125 # r)"
  shows "json_members (Suc n) (json_str k @ 58 # 32 # v) = Inr ([(k, x)], r)"
  using assms by (simp add: json_members.simps json_str_def json_string_escape)

lemma json_ws_digits: "48 \<le> c \<Longrightarrow> c \<le> 57 \<Longrightarrow> json_ws (c # r) = c # r"
  by (simp add: json_ws_def)

lemma json_ws_str_list [simp]: "json_ws (json_str_list xs @ r) = json_str_list xs @ r"
  by (simp add: json_str_list_def)

lemma length_json_list_items: "length xs \<le> length (json_list_items xs)"
  by (induction xs rule: json_list_items.induct) (simp_all add: json_str_def)

lemma scalar_text_lit: "\<forall>c \<in> set s. c < 256 \<Longrightarrow> scalar_text s"
  by (fastforce simp: scalar_text_def)

lemma scalar_command: "scalar_text (CommandName_value c)"
  by (cases c) (simp_all add: scalar_text_def)

text \<open>The line that is written for a record is read back as that record.\<close>

lemma json_scan_object:
  assumes "json_members n (34 # r) = Inr (ms, r')"
  shows "json_scan (Suc n) (123 # 34 # r) = Inr (JObject (fold (\<lambda>(k, v). AList.update k v) ms []), r')"
  using assms by (simp add: json_scan.simps)

lemma json_str_head: "json_str t @ r = 34 # json_escape t @ 34 # r"
  by (simp add: json_str_def)

lemma json_loads_record:
  assumes d: "length (nat_digits m) \<le> max_str_digits" and a: "\<forall>x \<in> set (req_args q). scalar_text x"
  shows "json_loads (record_text (nat_digits m) q) = Inr (JObject [(lit ''sequence'', JInt (int m)),
    (lit ''command'', JString (CommandName_value (req_command q))),
    (lit ''args'', JArray (map JString (req_args q)))])"
proof -
  note [simp del] = lit_Cons CommandName_value.simps
  define d where "d = nat_digits m"
  define c where "c = CommandName_value (req_command q)"
  define xs where "xs = req_args q"
  define s where "s = lit ''sequence''"
  define k where "k = lit ''command''"
  define g where "g = lit ''args''"
  define m3 where "m3 = json_str g @ 58 # 32 # json_str_list xs @ [125]"
  define m2 where "m2 = json_str k @ 58 # 32 # json_str c @ 44 # 32 # m3"
  define m1 where "m1 = json_str s @ 58 # 32 # d @ 44 # 32 # m2"
  let ?line = "record_text (nat_digits m) q"
  have line: "?line = 123 # m1"
    by (simp add: record_text_def m1_def m2_def m3_def d_def c_def xs_def s_def k_def g_def)
  have ws: "json_ws m1 = m1" "json_ws m2 = m2" "json_ws m3 = m3" by (simp_all add: m1_def m2_def m3_def)
  have "length xs \<le> length (json_str_list xs)"
    using length_json_list_items [of xs] by (simp add: json_str_list_def)
  then have "length xs + 10 \<le> length ?line"
    unfolding line m1_def m2_def m3_def by (simp add: json_str_def)
  then obtain n where n: "2 * length ?line + 2 = Suc (Suc (Suc (Suc n)))" and nx: "length xs + 1 < n"
    using that [of "2 * length ?line - 2"] by simp
  obtain b bs where b: "d = b # bs" "48 \<le> b" "b \<le> 57"
    using nat_digits_props [of m] unfolding d_def by (cases "nat_digits m") auto
  have keys: "scalar_text s" "scalar_text k" "scalar_text g" "scalar_text c"
    unfolding s_def k_def g_def c_def
    using lit_Cons by (simp_all add: scalar_text_lit scalar_command lit_def)
  have "json_scan n (json_str_list xs @ [125]) = Inr (JArray (map JString xs), [125])"
    using nx a by (intro json_scan_str_list) (simp_all add: xs_def)
  then have M3: "json_members (Suc n) m3 = Inr ([(g, JArray (map JString xs))], [])"
    unfolding m3_def by (intro members_last keys) simp
  have "json_scan (Suc n) (json_ws (json_str c @ 44 # 32 # m3)) = Inr (JString c, 44 # 32 # m3)"
    using json_scan_str [OF keys(4)] by simp
  moreover have "json_members (Suc n) (json_ws m3) = Inr ([(g, JArray (map JString xs))], [])"
    using M3 by (simp only: ws)
  ultimately have M2: "json_members (Suc (Suc n)) m2 = Inr ([(k, JString c), (g, JArray (map JString xs))], [])"
    unfolding m2_def by (rule members_step [OF keys(2)])
  have "json_scan (Suc (Suc n)) (json_ws (d @ 44 # 32 # m2)) = Inr (JInt (int m), 44 # 32 # m2)"
    using json_scan_nat [OF d, of "44 # 32 # m2" "Suc n"] b json_ws_digits [OF b(2,3)]
    by (simp add: d_def [symmetric])
  moreover have "json_members (Suc (Suc n)) (json_ws m2) =
      Inr ([(k, JString c), (g, JArray (map JString xs))], [])"
    using M2 by (simp only: ws)
  ultimately have M1: "json_members (Suc (Suc (Suc n))) m1 =
      Inr ([(s, JInt (int m)), (k, JString c), (g, JArray (map JString xs))], [])"
    unfolding m1_def by (rule members_step [OF keys(1)])
  have dist: "s \<noteq> k" "s \<noteq> g" "k \<noteq> g" unfolding s_def k_def g_def by (simp_all add: lit_def)
  have scan: "json_scan (2 * length ?line + 2) ?line = Inr (JObject
      [(s, JInt (int m)), (k, JString c), (g, JArray (map JString xs))], [])"
    unfolding n unfolding line m1_def json_str_head
    using json_scan_object [OF M1 [unfolded m1_def json_str_head]] dist by simp
  have wsl: "json_ws ?line = ?line" and st: "\<not> starts_with [65279] ?line"
    unfolding line by (simp_all add: starts_with_def)
  have "json_loads ?line = Inr (JObject [(s, JInt (int m)), (k, JString c), (g, JArray (map JString xs))])"
    by (simp only: json_loads_def wsl scan st) simp
  then show ?thesis by (simp only: s_def k_def g_def c_def xs_def)
qed

lemma parse_record_text:
  assumes "length (nat_digits m) \<le> max_str_digits" and "\<forall>x \<in> set (req_args q). scalar_text x"
  shows "parse_record_line (record_text (nat_digits m) q) =
    Inr (Some \<lparr>rec_sequence = int m, rec_request = mk_request (req_command q) (req_args q)\<rparr>)"
proof -
  have "json_as_strs (JArray (map JString (req_args q))) = Some (req_args q)"
    using list_all_strs [of "req_args q"] by (simp add: json_as_strs_def)
  then show ?thesis
    unfolding parse_record_line_def json_loads_record [OF assms]
    by (simp add: json_as_int_def json_as_str_def del: CommandName_value.simps)
qed

section \<open>Appending\<close>

text \<open>
  A log between two calls: open, nothing pending, ended by a complete line, readable to its end,
  and the next sequence number the one a restart would find.
\<close>

definition aof_ok :: "AofPersistence \<Rightarrow> bool" where
  "aof_ok a \<longleftrightarrow> \<not> aof_closed a \<and> aof_pending a = [] \<and> aof_buffer_end a = 0 \<and> at_line_end (aof_text a) \<and>
     snd (replay_text (aof_text a)) = None \<and>
     discover_next_sequence (aof_text a) = Inr (aof_next_sequence a) \<and> 0 \<le> aof_next_sequence a"

lemma aof_okD:
  assumes "aof_ok a"
  shows "\<not> aof_closed a" "aof_pending a = []" "at_line_end (aof_text a)"
    "snd (replay_text (aof_text a)) = None"
    "discover_next_sequence (aof_text a) = Inr (aof_next_sequence a)" "0 \<le> aof_next_sequence a"
    "aof_buffer_end a = 0"
  using assms by (simp_all add: aof_ok_def)

definition logged :: "int \<Rightarrow> CommandRequest \<Rightarrow> PersistRecord" where
  "logged n q = \<lparr>rec_sequence = n, rec_request = mk_request (req_command q) (req_args q)\<rparr>"

definition loggable :: "int \<Rightarrow> CommandRequest \<Rightarrow> bool" where
  "loggable n q \<longleftrightarrow> 0 \<le> n \<and> n < 10 ^ max_str_digits \<and> (\<forall>x \<in> set (req_args q). scalar_text x)"

definition log_line :: "int \<Rightarrow> CommandRequest \<Rightarrow> pystr" where
  "log_line n q = record_text (nat_digits (nat n)) q"

lemma max_str_digits_pos: "0 < max_str_digits"
  by (simp add: max_str_digits_def)

lemma loggable_digits: "loggable n q \<Longrightarrow> length (nat_digits (nat n)) \<le> max_str_digits"
proof -
  assume "loggable n q"
  then have "int (nat n) < int (10 ^ max_str_digits)" by (simp add: loggable_def)
  then have "nat n < 10 ^ max_str_digits" by (simp only: of_nat_less_iff)
  then show ?thesis using max_str_digits_pos by (rule length_nat_digits)
qed

lemma loggable_format: "loggable n q \<Longrightarrow> py_format_int n = Inr (nat_digits (nat n))"
  using loggable_digits [of n q] by (simp add: py_format_int_def py_str_int_def loggable_def)

lemma log_line_props:
  "one_line (log_line n q)" "py_strip (log_line n q) = log_line n q" "log_line n q \<noteq> []"
  "c \<in> set (log_line n q) \<Longrightarrow> c \<noteq> 10 \<and> c \<noteq> 13"
proof -
  show l: "one_line (log_line n q)"
    unfolding log_line_def using nat_digits_props by (intro record_text_line) blast
  show "py_strip (log_line n q) = log_line n q" by (simp add: log_line_def)
  show "log_line n q \<noteq> []" "c \<in> set (log_line n q) \<Longrightarrow> c \<noteq> 10 \<and> c \<noteq> 13"
    using l by (auto simp: one_line_def)
qed

lemma parse_log_line: "loggable n q \<Longrightarrow> parse_record_line (log_line n q) = Inr (Some (logged n q))"
  using parse_record_text [OF loggable_digits, of n q]
  by (simp add: log_line_def logged_def loggable_def)

text \<open>One more line in a file that ends with a complete line.\<close>

lemma replay_text_line:
  assumes "at_line_end t" and "snd (replay_text t) = None" and "loggable n q"
  shows "replay_text (t @ log_line n q @ [10]) = (fst (replay_text t) @ [logged n q], None)"
proof -
  have "text_lines (log_line n q @ [10]) = [log_line n q]"
    using text_lines_line [of "log_line n q" "[]"] log_line_props(4) by simp
  then have "text_lines (t @ log_line n q @ [10]) = text_lines t @ [log_line n q]"
    using text_lines_append [OF assms(1)] by simp
  moreover have "replay_lines [log_line n q] = ([logged n q], None)"
    by (simp add: log_line_props parse_log_line [OF assms(3)])
  ultimately show ?thesis
    using assms(2) by (cases "replay_lines (text_lines t)") (simp add: replay_text_def replay_lines_append)
qed

lemma discover_line:
  assumes "at_line_end t" and "discover_next_sequence t = Inr m" and "loggable n q" and "m \<le> n"
  shows "discover_next_sequence (t @ log_line n q @ [10]) = Inr (n + 1)"
proof -
  have "text_lines (log_line n q @ [10]) = [log_line n q]"
    using text_lines_line [of "log_line n q" "[]"] log_line_props(4) by simp
  then have "text_lines (t @ log_line n q @ [10]) = text_lines t @ [log_line n q]"
    using text_lines_append [OF assms(1)] by simp
  moreover have "max_sequence (text_lines t) (- 1) = Inr (m - 1)"
    using assms(2) by (auto simp: discover_next_sequence_def split: sum.splits)
  ultimately show ?thesis
    using assms(4)
    by (simp add: discover_next_sequence_def max_sequence_append log_line_props
        parse_log_line [OF assms(3)] logged_def)
qed

lemma at_line_end_line [simp]: "at_line_end (t @ l @ [10])"
  by (simp add: at_line_end_def)

text \<open>
  Writing a text and flushing it: when the buffer is empty, the text reaches the file at once
  or the call fails; when the buffer still holds the end of an earlier text, that text comes first.
\<close>

lemma write_and_flush_ok:
  assumes "\<not> aof_closed a" and "aof_pending a = []" and "aof_buffer_end a = 0" and "b \<noteq> []"
    and "aof_io_fault a (aof_io_calls a) = None"
  shows "write_and_flush b a =
    (Inr (), a\<lparr>aof_text := aof_text a @ b, aof_io_calls := Suc (aof_io_calls a)\<rparr>)"
  using assms by (simp add: write_and_flush_def buffer_write_def file_flush_def Let_def)

lemma write_and_flush_fails:
  assumes "\<not> aof_closed a" and "aof_pending a = []" and "aof_buffer_end a = 0" and "b \<noteq> []"
    and "aof_io_fault a (aof_io_calls a) = Some (k, msg)"
  shows "write_and_flush b a = (Inl (OSError msg), a\<lparr>aof_text := aof_text a @ take k b,
    aof_pending := (if length b - k \<le> aof_buffer_size a then drop k b else []),
    aof_buffer_end := (if length b \<le> aof_buffer_size a then length b
      else if length b - k \<le> aof_buffer_size a then length b - k else 0),
    aof_io_calls := Suc (aof_io_calls a)\<rparr>)"
  using assms by (simp add: write_and_flush_def buffer_write_def file_flush_def Let_def)

lemma write_and_flush_after:
  assumes "\<not> aof_closed a" and "aof_pending a \<noteq> [] \<or> aof_buffer_end a = 0" and "b \<noteq> []"
    and "aof_io_fault a (aof_io_calls a) = None" and "aof_io_fault a (Suc (aof_io_calls a)) = None"
  shows "\<exists>n \<in> {1, 2}. write_and_flush b a =
    (Inr (), a\<lparr>aof_text := aof_text a @ aof_pending a @ b, aof_pending := [], aof_buffer_end := 0,
       aof_io_calls := aof_io_calls a + n\<rparr>)"
  using assms by (auto simp: write_and_flush_def buffer_write_def file_flush_def Let_def)

text \<open>What appending does when the operating system does not fail.\<close>

definition must_fsync :: "FsyncPolicy \<Rightarrow> int \<Rightarrow> int \<Rightarrow> bool" where
  "must_fsync policy every_n writes \<longleftrightarrow> policy = ALWAYS \<or> policy = EVERY_N \<and> writes \<ge> every_n"

lemma append_request_effect:
  assumes ok: "aof_ok a" and log: "loggable (aof_next_sequence a) q"
    and io: "aof_io_fault a (aof_io_calls a) = None" "aof_io_fault a (Suc (aof_io_calls a)) = None"
  defines "t \<equiv> aof_text a @ log_line (aof_next_sequence a) q @ [10]"
    and "sync \<equiv> must_fsync (aof_fsync_policy a) (aof_fsync_every_n a) (aof_writes_since_fsync a + 1)"
  shows "append_request q a = (Inr \<lparr>rec_sequence = aof_next_sequence a, rec_request = q\<rparr>,
    a\<lparr>aof_text := t, aof_io_calls := aof_io_calls a + (if sync then 2 else 1),
      aof_synced := (if sync then length t else aof_synced a),
      aof_writes_since_fsync := (if sync then 0 else aof_writes_since_fsync a + 1),
      aof_next_sequence := aof_next_sequence a + 1\<rparr>)"
  using aof_okD [OF ok] io loggable_format [OF log]
  by (simp add: append_request_def aof_append_def write_and_flush_ok file_fsync_def Let_def log_line_def
      t_def sync_def must_fsync_def)

text \<open>What it does when the write fails.\<close>

lemma append_request_fails:
  assumes ok: "aof_ok a" and log: "loggable (aof_next_sequence a) q"
    and io: "aof_io_fault a (aof_io_calls a) = Some (k, msg)"
  defines "l \<equiv> log_line (aof_next_sequence a) q @ [10]"
  shows "append_request q a = (Inl (OSError msg), a\<lparr>aof_text := aof_text a @ take k l,
    aof_pending := (if length l - k \<le> aof_buffer_size a then drop k l else []),
    aof_buffer_end := (if length l \<le> aof_buffer_size a then length l
      else if length l - k \<le> aof_buffer_size a then length l - k else 0),
    aof_io_calls := Suc (aof_io_calls a)\<rparr>)"
proof -
  have "l \<noteq> []" by (simp add: l_def)
  note F = write_and_flush_fails [OF aof_okD(1,2,7) [OF ok] this io]
  show ?thesis
    using aof_okD [OF ok] loggable_format [OF log]
    by (simp add: append_request_def aof_append_def F [unfolded l_def log_line_def] Let_def log_line_def l_def)
qed

lemma append_request_ok:
  assumes ok: "aof_ok a" and log: "loggable (aof_next_sequence a) q"
    and io: "aof_io_fault a (aof_io_calls a) = None" "aof_io_fault a (Suc (aof_io_calls a)) = None"
    and app: "append_request q a = (res, a')"
  shows "aof_ok a' \<and> aof_replay a' = (fst (aof_replay a) @ [logged (aof_next_sequence a) q], None) \<and>
    aof_next_sequence a' = aof_next_sequence a + 1 \<and>
    res = Inr \<lparr>rec_sequence = aof_next_sequence a, rec_request = q\<rparr>"
proof -
  note D = aof_okD [OF ok]
  note E = append_request_effect [OF ok log io]
  have "replay_text (aof_text a @ log_line (aof_next_sequence a) q @ [10]) =
      (fst (replay_text (aof_text a)) @ [logged (aof_next_sequence a) q], None)"
    using D(3,4) log by (rule replay_text_line)
  moreover have "discover_next_sequence (aof_text a @ log_line (aof_next_sequence a) q @ [10]) =
      Inr (aof_next_sequence a + 1)"
    using D(3,5) log by (rule discover_line) simp
  ultimately show ?thesis
    using app E D by (auto simp: aof_ok_def aof_replay_def)
qed

lemma discover_replay:
  "max_sequence ls m = Inr m' \<Longrightarrow> snd (replay_lines ls) = None \<and> m \<le> m'"
proof (induction ls arbitrary: m)
  case (Cons l ls)
  then show ?case
    by (force simp: Let_def case_prod_beta split: sum.splits option.splits if_splits)
qed simp

lemma aof_init_ok:
  assumes "AofPersistence_init t io policy n = Inr a" and "at_line_end t"
  shows "aof_ok a \<and> aof_text a = t \<and> aof_io_fault a = io \<and> aof_fsync_policy a = policy \<and>
    aof_fsync_every_n a = n"
proof -
  obtain m where m: "max_sequence (text_lines t) (- 1) = Inr m"
    and a: "a = \<lparr>aof_text = t, aof_pending = [], aof_buffer_end = 0, aof_buffer_size = default_buffer_size, aof_synced = length t, aof_closed = False,
      aof_io_calls = 0, aof_io_fault = io, aof_next_sequence = m + 1, aof_fsync_policy = policy,
      aof_fsync_every_n = n, aof_writes_since_fsync = 0\<rparr>"
    using assms(1) by (auto simp: AofPersistence_init_def discover_next_sequence_def split: sum.splits)
  from discover_replay [OF m] m assms(2) show ?thesis
    by (simp add: a aof_ok_def discover_next_sequence_def replay_text_def)
qed

primrec append_requests :: "CommandRequest list \<Rightarrow> AofPersistence \<Rightarrow> (py_exn + unit) \<times> AofPersistence" where
  "append_requests [] a = (Inr (), a)"
| "append_requests (q # qs) a =
     (case append_request q a of (Inl e, a1) \<Rightarrow> (Inl e, a1) | (Inr _, a1) \<Rightarrow> append_requests qs a1)"

primrec logged_all :: "int \<Rightarrow> CommandRequest list \<Rightarrow> PersistRecord list" where
  "logged_all n [] = []"
| "logged_all n (q # qs) = logged n q # logged_all (n + 1) qs"

lemma file_flush_io: "aof_io_fault (snd (file_flush a)) = aof_io_fault a"
  by (simp add: file_flush_def Let_def split: option.split)

lemma file_fsync_io: "aof_io_fault (snd (file_fsync a)) = aof_io_fault a"
  by (simp add: file_fsync_def Let_def split: option.split)

lemma buffer_write_io: "aof_io_fault (snd (buffer_write b a)) = aof_io_fault a"
  using file_flush_io [of a]
  by (cases "file_flush a")
    (simp add: buffer_write_def Let_def split: sum.split option.split)

lemma write_and_flush_io: "aof_io_fault (snd (write_and_flush b a)) = aof_io_fault a"
  using buffer_write_io [of b a] file_flush_io [of "snd (buffer_write b a)"]
  by (cases "buffer_write b a") (simp add: write_and_flush_def split: sum.split)

lemma aof_append_io: "aof_io_fault (snd (aof_append r a)) = aof_io_fault a"
  using write_and_flush_io [of _ a]
  by (auto simp: aof_append_def Let_def case_prod_beta file_fsync_io split: sum.split)

lemma append_request_io: "append_request q a = (res, a') \<Longrightarrow> aof_io_fault a' = aof_io_fault a"
  using aof_append_io [of "\<lparr>rec_sequence = aof_next_sequence a, rec_request = q\<rparr>" a]
  by (auto simp: append_request_def Let_def split: prod.splits sum.splits)

lemma append_requests_ok:
  "aof_ok a \<Longrightarrow> aof_io_fault a = (\<lambda>_. None) \<Longrightarrow> \<forall>q \<in> set qs. \<forall>x \<in> set (req_args q). scalar_text x \<Longrightarrow>
   aof_next_sequence a + int (length qs) \<le> 10 ^ max_str_digits \<Longrightarrow>
   \<exists>a'. append_requests qs a = (Inr (), a') \<and> aof_ok a' \<and>
     aof_replay a' = (fst (aof_replay a) @ logged_all (aof_next_sequence a) qs, None) \<and>
     aof_next_sequence a' = aof_next_sequence a + int (length qs)"
proof (induction qs arbitrary: a)
  case Nil
  then show ?case by (auto simp: aof_replay_def prod_eq_iff dest: aof_okD(4))
next
  case (Cons q qs)
  have log: "loggable (aof_next_sequence a) q"
    using Cons.prems aof_okD(6) [OF Cons.prems(1)] by (simp add: loggable_def)
  obtain res a1 where app: "append_request q a = (res, a1)" by fastforce
  note E = append_request_ok [OF Cons.prems(1) log _ _ app]
  have a1: "aof_ok a1" "aof_replay a1 = (fst (aof_replay a) @ [logged (aof_next_sequence a) q], None)"
    "aof_next_sequence a1 = aof_next_sequence a + 1" "isl res = False"
    using E Cons.prems(2) by simp_all
  obtain a' where "append_requests qs a1 = (Inr (), a')" "aof_ok a'"
    "aof_replay a' = (fst (aof_replay a1) @ logged_all (aof_next_sequence a1) qs, None)"
    "aof_next_sequence a' = aof_next_sequence a1 + int (length qs)"
    using Cons.IH [OF a1(1)] append_request_io [OF app] Cons.prems a1(3) by auto
  then show ?case using app a1 by (cases res) simp_all
qed

lemma ten_le_max_digits: "(10 :: int) \<le> 10 ^ max_str_digits"
  using max_str_digits_pos power_increasing [of 1 max_str_digits "10 :: int"] by simp

section \<open>The contract\<close>

text \<open>
  What a backend promises to who appends and replays: the records it was given come back, in order,
  each as the backend stores it, also after it was closed.
\<close>

locale persistence_contract =
  fixes ops :: "'p PersistenceInterface"
    and invar :: "'p \<Rightarrow> bool"
    and records :: "'p \<Rightarrow> PersistRecord list"
    and storable :: "PersistRecord \<Rightarrow> bool"
    and stored :: "PersistRecord \<Rightarrow> PersistRecord"
  assumes append_result: "invar p \<Longrightarrow> storable r \<Longrightarrow> fst (op_append ops r p) = Inr ()"
    and append_invar: "invar p \<Longrightarrow> storable r \<Longrightarrow> invar (snd (op_append ops r p))"
    and append_records: "invar p \<Longrightarrow> storable r \<Longrightarrow> records (snd (op_append ops r p)) = records p @ [stored r]"
    and replay_eq: "invar p \<Longrightarrow> op_replay ops p = (records p, None)"
    and close_result: "invar p \<Longrightarrow> fst (op_close ops p) = Inr ()"
    and close_replay: "invar p \<Longrightarrow> op_replay ops (snd (op_close ops p)) = op_replay ops p"
begin

lemma append_all:
  "invar p \<Longrightarrow> \<forall>r \<in> set rs. storable r \<Longrightarrow>
     invar (fold (\<lambda>r q. snd (op_append ops r q)) rs p) \<and>
     records (fold (\<lambda>r q. snd (op_append ops r q)) rs p) = records p @ map stored rs"
  by (induction rs arbitrary: p) (simp_all add: append_invar append_records)

lemma replay_after_close:
  "invar p \<Longrightarrow> \<forall>r \<in> set rs. storable r \<Longrightarrow>
     op_replay ops (snd (op_close ops (fold (\<lambda>r q. snd (op_append ops r q)) rs p))) = (records p @ map stored rs, None)"
  using append_all [of p rs] by (simp add: close_replay replay_eq)

end

definition aof_ops :: "AofPersistence PersistenceInterface" where
  "aof_ops = \<lparr>op_append = aof_append, op_replay = aof_replay, op_close = aof_close\<rparr>"

text \<open>
  A log file that is open, has complete lines only and can be read to its end, on an operating system
  that does not fail. Unlike \<open>aof_ok\<close> this does not speak of the next sequence number, which
  \<open>append\<close> leaves to its callers.
\<close>

definition aof_open :: "AofPersistence \<Rightarrow> bool" where
  "aof_open a \<longleftrightarrow> \<not> aof_closed a \<and> aof_pending a = [] \<and> aof_buffer_end a = 0 \<and> at_line_end (aof_text a) \<and>
     snd (aof_replay a) = None \<and> aof_io_fault a = (\<lambda>_. None)"

definition storable :: "PersistRecord \<Rightarrow> bool" where
  "storable r \<longleftrightarrow> loggable (rec_sequence r) (rec_request r)"

definition stored :: "PersistRecord \<Rightarrow> PersistRecord" where
  "stored r = logged (rec_sequence r) (rec_request r)"

lemma aof_append_open:
  assumes a: "aof_open a" and r: "storable r"
  shows "fst (aof_append r a) = Inr () \<and> aof_open (snd (aof_append r a)) \<and>
    fst (aof_replay (snd (aof_append r a))) = fst (aof_replay a) @ [stored r]"
proof -
  let ?l = "log_line (rec_sequence r) (rec_request r)"
  have log: "loggable (rec_sequence r) (rec_request r)" using r by (simp add: storable_def)
  have out: "fst (aof_append r a) = Inr () \<and> aof_text (snd (aof_append r a)) = aof_text a @ ?l @ [10] \<and>
      \<not> aof_closed (snd (aof_append r a)) \<and> aof_pending (snd (aof_append r a)) = [] \<and>
      aof_buffer_end (snd (aof_append r a)) = 0 \<and>
      aof_io_fault (snd (aof_append r a)) = (\<lambda>_. None)"
    using a loggable_format [OF log]
    by (simp add: aof_open_def aof_append_def write_and_flush_ok file_fsync_def Let_def log_line_def)
  have "replay_text (aof_text a @ ?l @ [10]) = (fst (replay_text (aof_text a)) @ [stored r], None)"
    unfolding stored_def using a log by (intro replay_text_line) (simp_all add: aof_open_def aof_replay_def)
  with out show ?thesis by (simp add: aof_open_def aof_replay_def)
qed

lemma aof_close_open:
  assumes "aof_open a"
  shows "fst (aof_close a) = Inr () \<and> aof_replay (snd (aof_close a)) = aof_replay a"
  using assms by (simp add: aof_open_def aof_close_def file_flush_def file_fsync_def file_close_def aof_replay_def)

interpretation aof: persistence_contract aof_ops aof_open "\<lambda>a. fst (aof_replay a)" storable stored
  using aof_append_open aof_close_open
  by unfold_locales (simp_all add: aof_ops_def aof_open_def prod_eq_iff)

section \<open>Properties of the log\<close>

text \<open>
  C13: what is appended is replayed. On a log opened over any readable file whose last line is
  complete, and with an operating system that does not fail, appending any requests whose
  arguments are Unicode text succeeds; replay then yields the old records followed by the new
  requests, in order, each with its command and arguments and with consecutive sequence numbers
  from the one found at opening; and opening the file again continues the numbering.
\<close>
theorem append_replay_roundtrip:
  assumes "AofPersistence_init t (\<lambda>_. None) policy n = Inr a" and "at_line_end t"
    and "\<forall>q \<in> set qs. \<forall>x \<in> set (req_args q). scalar_text x"
    and "aof_next_sequence a + int (length qs) \<le> 10 ^ max_str_digits"
  shows "\<exists>a' b. append_requests qs a = (Inr (), a') \<and>
    aof_replay a' = (fst (replay_text t) @ logged_all (aof_next_sequence a) qs, None) \<and>
    AofPersistence_init (aof_text a') (\<lambda>_. None) policy n = Inr b \<and>
    aof_next_sequence b = aof_next_sequence a + int (length qs) \<and> aof_replay b = aof_replay a'"
proof -
  note I = aof_init_ok [OF assms(1,2)]
  with assms(3,4) obtain a' where a': "append_requests qs a = (Inr (), a')" "aof_ok a'"
    "aof_replay a' = (fst (aof_replay a) @ logged_all (aof_next_sequence a) qs, None)"
    "aof_next_sequence a' = aof_next_sequence a + int (length qs)"
    using append_requests_ok [of a qs] by blast
  have "discover_next_sequence (aof_text a') = Inr (aof_next_sequence a')"
    using aof_okD(5) [OF a'(2)] .
  then show ?thesis
    using a' I by (simp add: AofPersistence_init_def aof_replay_def)
qed

theorem append_replay_roundtrip_witness:
  "\<exists>a a'. AofPersistence_init [] (\<lambda>_. None) EVERY_N 100 = Inr a \<and>
     append_requests [mk_request SET [lit ''k'', lit ''a b''], mk_request DEL [lit ''k'']] a = (Inr (), a') \<and>
     map rec_sequence (fst (aof_replay a')) = [0, 1]"
proof -
  let ?a = "\<lparr>aof_text = [], aof_pending = [], aof_buffer_end = 0, aof_buffer_size = default_buffer_size, aof_synced = 0, aof_closed = False,
      aof_io_calls = 0, aof_io_fault = \<lambda>_. None, aof_next_sequence = 0, aof_fsync_policy = EVERY_N,
      aof_fsync_every_n = 100, aof_writes_since_fsync = 0\<rparr>"
  let ?qs = "[mk_request SET [lit ''k'', lit ''a b''], mk_request DEL [lit ''k'']]"
  have init: "AofPersistence_init [] (\<lambda>_. None) EVERY_N 100 = Inr ?a"
    by (simp add: AofPersistence_init_def discover_next_sequence_def)
  have "at_line_end []" "\<forall>q \<in> set ?qs. \<forall>x \<in> set (req_args q). scalar_text x"
    by (simp_all add: at_line_end_def scalar_text_def)
  moreover have "aof_next_sequence ?a + int (length ?qs) \<le> 10 ^ max_str_digits"
    using ten_le_max_digits by simp
  ultimately obtain a' where "append_requests ?qs ?a = (Inr (), a')"
    "aof_replay a' = (fst (replay_text []) @ logged_all (aof_next_sequence ?a) ?qs, None)"
    using append_replay_roundtrip [OF init] by blast
  then show ?thesis
    using init by (intro exI [of _ ?a] exI [of _ a']) (simp add: replay_text_def logged_def)
qed

text \<open>The records a power failure would lose: the lines after what the last fsync covered.\<close>

definition unsynced_lines :: "AofPersistence \<Rightarrow> nat" where
  "unsynced_lines a = count_list (drop (aof_synced a) (aof_text a)) 10"

definition durable :: "AofPersistence \<Rightarrow> bool" where
  "durable a \<longleftrightarrow> aof_synced a \<le> length (aof_text a) \<and> int (unsynced_lines a) \<le> aof_writes_since_fsync a \<and>
     (aof_fsync_policy a = EVERY_N \<longrightarrow> aof_writes_since_fsync a < max 1 (aof_fsync_every_n a)) \<and>
     (aof_fsync_policy a = ALWAYS \<longrightarrow> aof_writes_since_fsync a = 0)"

lemma append_request_durable:
  assumes "aof_ok a" and "durable a" and "loggable (aof_next_sequence a) q"
    and "aof_io_fault a = (\<lambda>_. None)" and "append_request q a = (res, a')"
  shows "durable a' \<and> aof_io_fault a' = (\<lambda>_. None) \<and> aof_fsync_policy a' = aof_fsync_policy a \<and>
    aof_fsync_every_n a' = aof_fsync_every_n a"
proof -
  let ?l = "log_line (aof_next_sequence a) q"
  have "10 \<notin> set ?l" using log_line_props(4) by blast
  then have "count_list (?l @ [10]) 10 = 1" by (simp add: count_list_append count_notin)
  then have one: "count_list (drop (aof_synced a) (aof_text a @ ?l @ [10])) 10 = unsynced_lines a + 1"
    using assms(2) by (simp add: durable_def unsynced_lines_def count_list_append)
  have "aof_io_fault a (aof_io_calls a) = None" "aof_io_fault a (Suc (aof_io_calls a)) = None"
    using assms(4) by simp_all
  from append_request_effect [OF assms(1,3) this] assms(2,4,5) one show ?thesis
    by (auto simp: durable_def unsynced_lines_def must_fsync_def split: if_splits)
qed

text \<open>An append that is refused because the number has too many digits does nothing.\<close>

lemma nat_digits_bound: "m < 10 ^ length (nat_digits m)"
proof (induction m rule: nat_digits.induct)
  case (1 m)
  show ?case
  proof (cases "m < 10")
    case False
    then have "m div 10 < 10 ^ length (nat_digits (m div 10))" by (rule "1.IH")
    then have "m < 10 * 10 ^ length (nat_digits (m div 10))" by linarith
    then show ?thesis using False by (simp add: nat_digits.simps [of m])
  qed (simp add: nat_digits.simps [of m])
qed

lemma append_request_keeps:
  assumes ok: "aof_ok a" and d: "durable a" and args: "\<forall>x \<in> set (req_args q). scalar_text x"
    and io: "aof_io_fault a = (\<lambda>_. None)" and app: "append_request q a = (res, a')"
  shows "aof_ok a' \<and> durable a' \<and> aof_io_fault a' = (\<lambda>_. None) \<and> aof_fsync_policy a' = aof_fsync_policy a"
proof (cases "loggable (aof_next_sequence a) q")
  case True
  then show ?thesis
    using append_request_ok [OF ok True _ _ app] append_request_durable [OF ok d True io app] io by simp
next
  case False
  let ?n = "aof_next_sequence a"
  have n: "0 \<le> ?n" using aof_okD(6) [OF ok] .
  with False args have "10 ^ max_str_digits \<le> ?n" by (auto simp: loggable_def)
  then have "int (10 ^ max_str_digits) \<le> int (nat ?n)" using n by simp
  then have "10 ^ max_str_digits \<le> nat ?n" by (simp only: of_nat_le_iff)
  also have "\<dots> < 10 ^ length (nat_digits (nat ?n))" by (rule nat_digits_bound)
  finally have "max_str_digits < length (nat_digits (nat ?n))" by (simp add: power_strict_increasing_iff)
  then have "a' = a" using app n by (simp add: append_request_def aof_append_def py_format_int_def)
  then show ?thesis using ok d io by simp
qed

text \<open>
  The fsync policy. With an operating system that does not fail, every append leaves at most
  \<open>fsync_every_n - 1\<close> records that no fsync has covered under EVERY_N (none if
  \<open>fsync_every_n\<close> is at most 1), and none under ALWAYS, if that was so before.
\<close>
theorem append_request_durability:
  assumes "aof_ok a" and "durable a" and "loggable (aof_next_sequence a) q"
    and "aof_io_fault a = (\<lambda>_. None)" and "append_request q a = (res, a')"
  shows "durable a' \<and> aof_io_fault a' = (\<lambda>_. None) \<and>
    (aof_fsync_policy a = EVERY_N \<longrightarrow> int (unsynced_lines a') \<le> max 0 (aof_fsync_every_n a - 1)) \<and>
    (aof_fsync_policy a = ALWAYS \<longrightarrow> unsynced_lines a' = 0)"
  using append_request_durable [OF assms] assms(4) unfolding durable_def by (auto simp: max_def)

theorem append_request_durability_witness:
  "\<exists>res a'. append_request (mk_request DEL [lit ''k'']) \<lparr>aof_text = [], aof_pending = [], aof_buffer_end = 0, aof_buffer_size = default_buffer_size,
      aof_synced = 0, aof_closed = False, aof_io_calls = 0, aof_io_fault = \<lambda>_. None,
      aof_next_sequence = 0, aof_fsync_policy = EVERY_N, aof_fsync_every_n = 100,
      aof_writes_since_fsync = 0\<rparr> = (res, a') \<and> unsynced_lines a' \<le> 99"
proof -
  let ?a = "\<lparr>aof_text = [], aof_pending = [], aof_buffer_end = 0, aof_buffer_size = default_buffer_size, aof_synced = 0, aof_closed = False,
      aof_io_calls = 0, aof_io_fault = \<lambda>_. None, aof_next_sequence = 0, aof_fsync_policy = EVERY_N,
      aof_fsync_every_n = 100, aof_writes_since_fsync = 0\<rparr>"
  have ok: "aof_ok ?a" "durable ?a"
    by (simp_all add: aof_ok_def at_line_end_def replay_text_def discover_next_sequence_def
        durable_def unsynced_lines_def)
  have "loggable (aof_next_sequence ?a) (mk_request DEL [lit ''k''])"
    by (simp add: loggable_def scalar_text_def)
  moreover obtain res a' where app: "append_request (mk_request DEL [lit ''k'']) ?a = (res, a')"
    by fastforce
  ultimately have "unsynced_lines a' \<le> 99"
    using append_request_durability [OF ok, of "mk_request DEL [lit ''k'']" res a'] by simp
  with app show ?thesis by blast
qed

text \<open>The call that follows a failed append, when the operating system does not fail any more.\<close>

lemma append_after_failure:
  assumes "\<not> aof_closed a" and "aof_pending a \<noteq> [] \<or> aof_buffer_end a = 0"
    and log: "loggable (aof_next_sequence a) q"
    and io: "\<forall>i < 3. aof_io_fault a (aof_io_calls a + i) = None"
  shows "\<exists>r a'. append_request q a = (Inr r, a') \<and>
    aof_text a' = aof_text a @ aof_pending a @ log_line (aof_next_sequence a) q @ [10]"
proof -
  let ?l = "log_line (aof_next_sequence a) q @ [10]"
  have f: "aof_io_fault a (aof_io_calls a) = None" "aof_io_fault a (Suc (aof_io_calls a)) = None"
    "aof_io_fault a (aof_io_calls a + 2) = None"
    using io [rule_format, of 0] io [rule_format, of 1] io [rule_format, of 2] by simp_all
  obtain n where n: "n \<in> {1, 2}" "write_and_flush ?l a =
      (Inr (), a\<lparr>aof_text := aof_text a @ aof_pending a @ ?l, aof_pending := [], aof_buffer_end := 0,
         aof_io_calls := aof_io_calls a + n\<rparr>)"
    using write_and_flush_after [OF assms(1,2) _ f(1,2), of ?l] by blast
  then have "aof_io_fault a (aof_io_calls a + n) = None" using f by auto
  then show ?thesis
    using assms(1) loggable_format [OF log] n(2)
    by (simp add: append_request_def aof_append_def file_fsync_def Let_def log_line_def)
qed

text \<open>
  C39: a failed append is not undone. When the write of an append fails after \<open>k\<close> characters of its
  line, the call raises \<open>OSError\<close> and the sequence number is not used up. If the rest of the line
  fits into the write buffer, it stays there, and the next append (which the operating system lets
  succeed) writes it first: replay yields the request whose append failed, and after it the new one
  with the same sequence number. If it does not fit, the rest is lost but the \<open>k\<close> characters are in
  the file, and the new line continues them: replay makes of both what it makes of that one line.
\<close>
theorem append_failure_reappears:
  assumes "aof_ok a" and "loggable (aof_next_sequence a) q" and "loggable (aof_next_sequence a) q'"
    and "aof_io_fault a (aof_io_calls a) = Some (k, msg)"
    and "\<forall>i \<in> {1, 2, 3}. aof_io_fault a (aof_io_calls a + i) = None"
    and "k \<le> length (log_line (aof_next_sequence a) q)"
  shows "\<exists>a1 a2 r. append_request q a = (Inl (OSError msg), a1) \<and>
    aof_next_sequence a1 = aof_next_sequence a \<and> append_request q' a1 = (Inr r, a2) \<and>
    (if Suc (length (log_line (aof_next_sequence a) q)) - k \<le> aof_buffer_size a
     then aof_replay a2 =
       (fst (aof_replay a) @ [logged (aof_next_sequence a) q, logged (aof_next_sequence a) q'], None)
     else aof_replay a2 =
       (let l = take k (log_line (aof_next_sequence a) q) @ log_line (aof_next_sequence a) q'
        in (fst (aof_replay a) @ fst (replay_lines [l]), snd (replay_lines [l]))))"
proof -
  note D = aof_okD [OF assms(1)]
  let ?n = "aof_next_sequence a" and ?t = "aof_text a" and ?k = "k"
  define l where "l = log_line ?n q @ [10]"
  define l' where "l' = log_line ?n q' @ [10]"
  obtain a1 where one: "append_request q a = (Inl (OSError msg), a1)" "aof_next_sequence a1 = ?n"
    "\<not> aof_closed a1" "aof_text a1 = ?t @ take k l" "aof_io_fault a1 = aof_io_fault a"
    "aof_io_calls a1 = Suc (aof_io_calls a)"
    "aof_pending a1 = (if length l - k \<le> aof_buffer_size a then drop k l else [])"
    "aof_pending a1 \<noteq> [] \<or> aof_buffer_end a1 = 0"
    using append_request_fails [OF assms(1,2,4)] D(1) assms(6) by (auto simp: l_def)
  have "\<forall>i < 3. aof_io_fault a1 (aof_io_calls a1 + i) = None"
  proof (intro allI impI)
    fix i :: nat assume "i < 3"
    then have "i + 1 \<in> {1, 2, 3}" by auto
    from bspec [OF assms(5) this] show "aof_io_fault a1 (aof_io_calls a1 + i) = None"
      by (simp add: one(5,6))
  qed
  then have "\<exists>r a2. append_request q' a1 = (Inr r, a2) \<and> aof_text a2 = ?t @ take k l @ aof_pending a1 @ l'"
    using append_after_failure [OF one(3,8), of q'] assms(3) by (simp add: one(2,4) l'_def)
  then obtain r a2 where two: "append_request q' a1 = (Inr r, a2)"
    "aof_text a2 = ?t @ take k l @ aof_pending a1 @ l'"
    by blast
  show ?thesis
  proof (cases "length l - k \<le> aof_buffer_size a")
    case True
    have "replay_text (?t @ l) = (fst (replay_text ?t) @ [logged ?n q], None)"
      unfolding l_def using D(3,4) assms(2) by (rule replay_text_line)
    then have "replay_text ((?t @ l) @ l') = (fst (replay_text ?t) @ [logged ?n q] @ [logged ?n q'], None)"
      using replay_text_line [OF at_line_end_line _ assms(3), of ?t "log_line ?n q"]
      by (simp add: l_def l'_def)
    moreover have "aof_text a2 = (?t @ l) @ l'"
      using two(2) True by (simp add: one(7) append_assoc [symmetric] del: append_assoc)
    ultimately show ?thesis using one(1,2) two(1) True by (auto simp: aof_replay_def l_def)
  next
    case False
    let ?x = "take k (log_line ?n q) @ log_line ?n q'"
    have "aof_text a2 = ?t @ ?x @ [10]" using two(2) False assms(6) by (simp add: one(7) l_def l'_def)
    moreover have "\<forall>c \<in> set ?x. c \<noteq> 10 \<and> c \<noteq> 13"
      using log_line_props(4) by (auto dest: in_set_takeD)
    then have "text_lines (?t @ ?x @ [10]) = text_lines ?t @ [?x]"
      using text_lines_line [of ?x "[]"] text_lines_append [OF D(3)] by simp
    ultimately have "aof_replay a2 =
        (fst (aof_replay a) @ fst (replay_lines [?x]), snd (replay_lines [?x]))"
      using D(4) by (cases "replay_lines (text_lines ?t)")
        (simp add: aof_replay_def replay_text_def replay_lines_append)
    then show ?thesis using one(1,2) two(1) False by (auto simp: l_def Let_def)
  qed
qed

theorem append_failure_reappears_witness:
  "\<exists>a1 a2 r. append_request (mk_request DEL [lit ''k'']) \<lparr>aof_text = [], aof_pending = [], aof_buffer_end = 0, aof_buffer_size = default_buffer_size,
      aof_synced = 0, aof_closed = False, aof_io_calls = 0,
      aof_io_fault = (\<lambda>i. if i = 0 then Some (3, lit ''disk full'') else None),
      aof_next_sequence = 0, aof_fsync_policy = NEVER, aof_fsync_every_n = 100,
      aof_writes_since_fsync = 0\<rparr> = (Inl (OSError (lit ''disk full'')), a1) \<and>
    append_request (mk_request DEL [lit ''m'']) a1 = (Inr r, a2) \<and>
    map rec_sequence (fst (aof_replay a2)) = [0, 0]"
proof -
  let ?a = "\<lparr>aof_text = [], aof_pending = [], aof_buffer_end = 0, aof_buffer_size = default_buffer_size, aof_synced = 0, aof_closed = False, aof_io_calls = 0,
      aof_io_fault = (\<lambda>i. if i = 0 then Some (3, lit ''disk full'') else None),
      aof_next_sequence = 0, aof_fsync_policy = NEVER, aof_fsync_every_n = 100,
      aof_writes_since_fsync = 0\<rparr>"
  have ok: "aof_ok ?a"
    by (simp add: aof_ok_def at_line_end_def replay_text_def discover_next_sequence_def)
  have log: "loggable (aof_next_sequence ?a) (mk_request DEL [lit ''k''])"
    "loggable (aof_next_sequence ?a) (mk_request DEL [lit ''m''])"
    by (simp_all add: loggable_def scalar_text_def)
  have short: "3 \<le> length (log_line 0 (mk_request DEL [lit ''k'']))"
    "Suc (length (log_line 0 (mk_request DEL [lit ''k'']))) - 3 \<le> default_buffer_size"
    by code_simp+
  have "aof_io_fault ?a (aof_io_calls ?a) = Some (3, lit ''disk full'')"
    "\<forall>i \<in> {1, 2, 3}. aof_io_fault ?a (aof_io_calls ?a + i) = None"
    "3 \<le> length (log_line (aof_next_sequence ?a) (mk_request DEL [lit ''k'']))"
    "Suc (length (log_line (aof_next_sequence ?a) (mk_request DEL [lit ''k'']))) - 3 \<le> aof_buffer_size ?a"
    "aof_replay ?a = ([], None)"
    using short by (simp_all add: aof_replay_def replay_text_def del: lit_Cons)
  then obtain a1 a2 r where "append_request (mk_request DEL [lit ''k'']) ?a = (Inl (OSError (lit ''disk full'')), a1)"
    "append_request (mk_request DEL [lit ''m'']) a1 = (Inr r, a2)"
    "aof_replay a2 = ([logged 0 (mk_request DEL [lit ''k'']), logged 0 (mk_request DEL [lit ''m''])], None)"
    using append_failure_reappears [OF ok log, of 3 "lit ''disk full''"] by (auto simp del: lit_Cons)
  then show ?thesis
    by (intro exI [of _ a1] exI [of _ a2] exI [of _ r]) (simp add: logged_def)
qed

text \<open>
  C38: a torn last line swallows the next record. If the file ends inside a line (a crash in the
  middle of a write), the log opens, and the next append succeeds, but it continues that line:
  what replay makes of the new request is what it makes of the torn text and the new line taken
  together, at most one record for the two.
\<close>
theorem append_after_torn_tail:
  assumes "AofPersistence_init (p @ torn) (\<lambda>_. None) policy every_n = Inr a" and "at_line_end p"
    and "\<forall>c \<in> set torn. c \<noteq> 10 \<and> c \<noteq> 13" and "loggable (aof_next_sequence a) q"
  shows "\<exists>r a'. append_request q a = (Inr r, a') \<and>
    aof_replay a' = (fst (replay_text p) @ fst (replay_lines [torn @ log_line (aof_next_sequence a) q]),
      snd (replay_lines [torn @ log_line (aof_next_sequence a) q])) \<and>
    length (fst (aof_replay a')) \<le> length (fst (replay_text p)) + 1"
proof -
  let ?l = "log_line (aof_next_sequence a) q"
  obtain m where m: "max_sequence (text_lines (p @ torn)) (- 1) = Inr m"
    and a: "a = \<lparr>aof_text = p @ torn, aof_pending = [], aof_buffer_end = 0, aof_buffer_size = default_buffer_size, aof_synced = length (p @ torn),
      aof_closed = False, aof_io_calls = 0, aof_io_fault = \<lambda>_. None, aof_next_sequence = m + 1,
      aof_fsync_policy = policy, aof_fsync_every_n = every_n, aof_writes_since_fsync = 0\<rparr>"
    using assms(1) by (auto simp: AofPersistence_init_def discover_next_sequence_def split: sum.splits)
  have p: "snd (replay_lines (text_lines p)) = None"
    using discover_replay [OF m]
    by (auto simp: text_lines_append [OF assms(2)] replay_lines_append split: prod.splits option.splits)
  have app: "\<exists>r a'. append_request q a = (Inr r, a') \<and> aof_text a' = p @ torn @ ?l @ [10]"
    using loggable_format [OF assms(4)]
    by (simp add: a append_request_def aof_append_def write_and_flush_ok file_fsync_def Let_def log_line_def)
  have "text_lines (torn @ ?l @ [10]) = [torn @ ?l]"
  proof -
    have "\<forall>c \<in> set (torn @ ?l). c \<noteq> 10 \<and> c \<noteq> 13"
      using log_line_props(4) assms(3) by fastforce
    then show ?thesis using text_lines_line [of "torn @ ?l" "[]"] by simp
  qed
  then have "replay_text (p @ torn @ ?l @ [10]) =
      (fst (replay_text p) @ fst (replay_lines [torn @ ?l]), snd (replay_lines [torn @ ?l]))"
    using p by (cases "replay_lines (text_lines p)")
      (simp add: replay_text_def text_lines_append [OF assms(2)] replay_lines_append)
  moreover have "length (fst (replay_lines [torn @ ?l])) \<le> 1"
    by (simp add: Let_def split: sum.splits option.splits)
  ultimately show ?thesis using app unfolding aof_replay_def by fastforce
qed

lemma parse_torn_brace:
  assumes "s = [] \<or> hd s = 123"
  shows "parse_record_line (123 # s) = Inr None"
proof -
  have "json_scan (Suc (Suc n)) (123 # s) = Inl Malformed" for n
    using assms by (cases s) (simp_all add: json_scan.simps json_members.simps json_ws_def)
  from this [of "2 * length s + 2"] have "json_loads (123 # s) = Inl Malformed"
    by (simp add: json_loads_def starts_with_def json_ws_def)
  then show ?thesis by (simp add: parse_record_line_def)
qed

theorem append_after_torn_tail_witness:
  "\<exists>a r a'. AofPersistence_init (lit ''{'') (\<lambda>_. None) EVERY_N 100 = Inr a \<and>
     append_request (mk_request DEL [lit ''k'']) a = (Inr r, a') \<and> aof_replay a' = ([], None)"
proof -
  let ?a = "\<lparr>aof_text = lit ''{'', aof_pending = [], aof_buffer_end = 0, aof_buffer_size = default_buffer_size, aof_synced = 1, aof_closed = False,
      aof_io_calls = 0, aof_io_fault = \<lambda>_. None, aof_next_sequence = 0, aof_fsync_policy = EVERY_N,
      aof_fsync_every_n = 100, aof_writes_since_fsync = 0\<rparr>"
  let ?q = "mk_request DEL [lit ''k'']"
  have brace: "lit ''{'' = [123]" by (simp add: lit_def)
  then have init: "AofPersistence_init ([] @ lit ''{'') (\<lambda>_. None) EVERY_N 100 = Inr ?a"
    using parse_torn_brace [of "[]"] py_strip_trimmed [of "[123]"]
    by (simp add: AofPersistence_init_def discover_next_sequence_def brace text_lines.simps [of "[123]"]
        is_trimmed_def py_isspace_def)
  have log: "loggable (aof_next_sequence ?a) ?q" by (simp add: loggable_def scalar_text_def)
  have "hd (log_line 0 ?q) = 123" "last (log_line 0 ?q) = 125" "log_line 0 ?q \<noteq> []"
    by (simp_all add: log_line_def record_text_def)
  then have "replay_lines [lit ''{'' @ log_line 0 ?q] = ([], None)"
    using parse_torn_brace [of "log_line 0 ?q"] py_strip_trimmed [of "123 # log_line 0 ?q"]
    by (simp add: brace is_trimmed_def py_isspace_def)
  moreover obtain r a' where "append_request ?q ?a = (Inr r, a')"
    "aof_replay a' = (fst (replay_text []) @ fst (replay_lines [lit ''{'' @ log_line (aof_next_sequence ?a) ?q]),
       snd (replay_lines [lit ''{'' @ log_line (aof_next_sequence ?a) ?q]))"
    using append_after_torn_tail [OF init _ _ log] unfolding brace by (auto simp: at_line_end_def)
  ultimately show ?thesis
    using init by (intro exI [of _ ?a] exI [of _ r] exI [of _ a']) (simp add: replay_text_def)
qed

end
