(* ===== verification/Process_Worker.thy ===== *)
theory Process_Worker
  imports Commands Persistence
begin

text \<open>
  The worker process of src/src/process_worker.py: one partition's store and log behind a queue of
  messages. The queue it reads is the list of messages \<open>run\<close> is given, the queue it writes a list
  in the state. What \<open>time.time()\<close> returns in the loop comes with each message, as the store's own
  clock is part of the store. An exception nothing catches ends the process.
\<close>

section \<open>The process\<close>

datatype worker_msg = MsgControl WorkerControl | MsgRequest WorkerRequest

record WorkerProcess =
  wp_worker_id :: pystr
  wp_partition_id :: int
  wp_responses :: "WorkerResponse list"
  wp_store :: MemoryStore
  wp_persistence :: "AofPersistence option"
  wp_running :: bool

text \<open>
  The log file's text and what the operating system does to it stand for the path.
\<close>

definition WorkerProcess_init ::
    "pystr \<Rightarrow> int \<Rightarrow> (nat \<Rightarrow> rat) \<Rightarrow> (pystr \<times> (nat \<Rightarrow> (nat \<times> pystr) option)) option \<Rightarrow>
     FsyncPolicy \<Rightarrow> int \<Rightarrow> py_exn + WorkerProcess" where
  "WorkerProcess_init wid part clock aof policy every_n =
     (let w = \<lparr>wp_worker_id = wid, wp_partition_id = part, wp_responses = [],
               wp_store = MemoryStore_init clock None, wp_persistence = None, wp_running = True\<rparr> in
      case aof of
        None \<Rightarrow> Inr w
      | Some (text, faults) \<Rightarrow>
          (case AofPersistence_init text faults policy every_n of
             Inl e \<Rightarrow> Inl e
           | Inr a \<Rightarrow> Inr (w\<lparr>wp_persistence := Some a\<rparr>)))"

definition is_write :: "CommandRequest \<Rightarrow> CommandResponse \<Rightarrow> bool" where
  "is_write request response =
     (if resp_kind response = ERROR then False
      else if req_command request = SET then True
      else if req_command request = DEL then True
      else if req_command request = EXPIRE \<and> resp_integer response = Some 1 then True
      else False)"

text \<open>The response that is put on the queue has no place for \<open>values\<close>.\<close>

definition to_worker_response :: "pystr \<Rightarrow> CommandResponse \<Rightarrow> WorkerResponse" where
  "to_worker_response rid response = \<lparr>wresp_request_id = rid, wresp_kind = resp_kind response,
     wresp_message = resp_message response, wresp_value = resp_value response,
     wresp_integer = resp_integer response, wresp_error_code = resp_error_code response\<rparr>"

definition handle_request ::
    "unicode_db \<Rightarrow> WorkerRequest \<Rightarrow> WorkerProcess \<Rightarrow> (py_exn + unit) \<times> WorkerProcess" where
  "handle_request U msg w =
     (let request = \<lparr>req_command = wreq_command msg, req_args = wreq_args msg,
                     req_request_id = Some (wreq_request_id msg), req_client_id = wreq_client_id msg\<rparr>;
          (result, s1) = execute_command U memory_store_ops request (wp_store w);
          w1 = w\<lparr>wp_store := s1\<rparr>
      in case result of
           Inl e \<Rightarrow> (Inl e, w1)
         | Inr response \<Rightarrow>
             let put = (\<lambda>w. w\<lparr>wp_responses := wp_responses w @ [to_worker_response (wreq_request_id msg) response]\<rparr>) in
             (case wp_persistence w1 of
                None \<Rightarrow> (Inr (), put w1)
              | Some a \<Rightarrow>
                  if is_write request response then
                    (case append_request request a of
                       (Inl e, a1) \<Rightarrow> (Inl e, w1\<lparr>wp_persistence := Some a1\<rparr>)
                     | (Inr _, a1) \<Rightarrow> (Inr (), put (w1\<lparr>wp_persistence := Some a1\<rparr>)))
                  else (Inr (), put w1)))"

text \<open>\<open>show_dict\<close> is \<open>str\<close> of a dictionary.\<close>

definition handle_control ::
    "((pystr \<times> pystr) list \<Rightarrow> pystr) \<Rightarrow> WorkerControl \<Rightarrow> WorkerProcess \<Rightarrow> (py_exn + unit) \<times> WorkerProcess" where
  "handle_control show_dict msg w =
     (if ctl_action msg = lit ''shutdown'' then
        let w1 = w\<lparr>wp_running := False\<rparr> in
        (case wp_persistence w1 of
           None \<Rightarrow> (Inr (), w1)
         | Some a \<Rightarrow> (let (r, a1) = aof_close a in (r, w1\<lparr>wp_persistence := Some a1\<rparr>)))
      else if ctl_action msg = lit ''snapshot'' then
        let (snapshot, s1) = store_snapshot (wp_store w);
            rid = (case ctl_request_id msg of
                     None \<Rightarrow> lit ''__snapshot__''
                   | Some i \<Rightarrow> if i = [] then lit ''__snapshot__'' else i)
        in (Inr (), w\<lparr>wp_store := s1, wp_responses := wp_responses w @
              [\<lparr>wresp_request_id = rid, wresp_kind = BULK_STRING, wresp_message = Some (lit ''__snapshot__''),
                wresp_value = Some (show_dict snapshot), wresp_integer = None, wresp_error_code = None\<rparr>]\<rparr>)
      else (Inr (), w))"

text \<open>The loop's expiration cycle: at most one in a tenth of a second.\<close>

definition expiration_cycle :: "rat \<Rightarrow> rat \<Rightarrow> WorkerProcess \<Rightarrow> rat \<times> WorkerProcess" where
  "expiration_cycle now last_expiration w =
     (if now - last_expiration > 1 / 10 then
        (now, w\<lparr>wp_store := snd (process_expirations None (wp_store w))\<rparr>)
      else (last_expiration, w))"

definition loop_step ::
    "unicode_db \<Rightarrow> ((pystr \<times> pystr) list \<Rightarrow> pystr) \<Rightarrow> worker_msg option \<Rightarrow> rat \<Rightarrow> rat \<Rightarrow> WorkerProcess \<Rightarrow>
     (py_exn + rat) \<times> WorkerProcess" where
  "loop_step U show_dict msg now last_expiration w =
     (let (r, w1) = (case msg of
            None \<Rightarrow> (Inr (), w)
          | Some (MsgControl c) \<Rightarrow> handle_control show_dict c w
          | Some (MsgRequest q) \<Rightarrow> handle_request U q w)
      in case r of
           Inl e \<Rightarrow> (Inl e, w1)
         | Inr _ \<Rightarrow> (let (l, w2) = expiration_cycle now last_expiration w1 in (Inr l, w2)))"

text \<open>
  \<open>run\<close>: each element of the input is what one \<open>get\<close> yields (\<open>None\<close> for a timeout) and the time
  read after it; the result is the rest of the input, not empty when the process stopped before.
\<close>

primrec run_loop ::
    "unicode_db \<Rightarrow> ((pystr \<times> pystr) list \<Rightarrow> pystr) \<Rightarrow> (worker_msg option \<times> rat) list \<Rightarrow> rat \<Rightarrow> WorkerProcess \<Rightarrow>
     (py_exn + (worker_msg option \<times> rat) list) \<times> WorkerProcess" where
  "run_loop U show_dict [] last_expiration w = (Inr [], w)"
| "run_loop U show_dict (m # ms) last_expiration w =
     (if \<not> wp_running w then (Inr (m # ms), w)
      else (case loop_step U show_dict (fst m) (snd m) last_expiration w of
          (Inl e, w1) \<Rightarrow> (Inl e, w1)
        | (Inr l, w1) \<Rightarrow> run_loop U show_dict ms l w1))"

primrec replay_records :: "unicode_db \<Rightarrow> PersistRecord list \<Rightarrow> MemoryStore \<Rightarrow> (py_exn + unit) \<times> MemoryStore" where
  "replay_records U [] s = (Inr (), s)"
| "replay_records U (r # rs) s =
     (case apply_replay_request U (rec_request r) s of
        (Inl e, s1) \<Rightarrow> (Inl e, s1)
      | (Inr _, s1) \<Rightarrow> replay_records U rs s1)"

definition run_replay :: "unicode_db \<Rightarrow> WorkerProcess \<Rightarrow> (py_exn + unit) \<times> WorkerProcess" where
  "run_replay U w =
     (case wp_persistence w of
        None \<Rightarrow> (Inr (), w)
      | Some a \<Rightarrow>
          (case replay_records U (fst (aof_replay a)) (wp_store w) of
             (Inl e, s1) \<Rightarrow> (Inl e, w\<lparr>wp_store := s1\<rparr>)
           | (Inr _, s1) \<Rightarrow>
               ((case snd (aof_replay a) of None \<Rightarrow> Inr () | Some e \<Rightarrow> Inl e), w\<lparr>wp_store := s1\<rparr>)))"

definition run_worker ::
    "unicode_db \<Rightarrow> ((pystr \<times> pystr) list \<Rightarrow> pystr) \<Rightarrow> rat \<Rightarrow> (worker_msg option \<times> rat) list \<Rightarrow> WorkerProcess \<Rightarrow>
     (py_exn + (worker_msg option \<times> rat) list) \<times> WorkerProcess" where
  "run_worker U show_dict now ms w =
     (case run_replay U w of
        (Inl e, w1) \<Rightarrow> (Inl e, w1)
      | (Inr _, w1) \<Rightarrow> run_loop U show_dict ms now w1)"

definition FsyncPolicy_value :: "FsyncPolicy \<Rightarrow> pystr" where
  "FsyncPolicy_value p = (case p of NEVER \<Rightarrow> lit ''never'' | ALWAYS \<Rightarrow> lit ''always'' | EVERY_N \<Rightarrow> lit ''every_n'')"

definition FsyncPolicy_of :: "pystr \<Rightarrow> py_exn + FsyncPolicy" where
  "FsyncPolicy_of s =
     (case find (\<lambda>p. FsyncPolicy_value p = s) [NEVER, ALWAYS, EVERY_N] of
        None \<Rightarrow> Inl ValueError | Some p \<Rightarrow> Inr p)"

text \<open>\<open>worker_entry\<close>, up to the call of \<open>run\<close>; an empty path stands for no log.\<close>

definition worker_entry ::
    "pystr \<Rightarrow> int \<Rightarrow> (nat \<Rightarrow> rat) \<Rightarrow> (pystr \<Rightarrow> pystr \<times> (nat \<Rightarrow> (nat \<times> pystr) option)) \<Rightarrow> pystr option \<Rightarrow>
     pystr \<Rightarrow> int \<Rightarrow> py_exn + WorkerProcess" where
  "worker_entry wid part clock files aof_path fsync_policy every_n =
     (let aof = (case aof_path of None \<Rightarrow> None | Some p \<Rightarrow> if p = [] then None else Some (files p)) in
      case FsyncPolicy_of fsync_policy of
        Inl e \<Rightarrow> Inl e
      | Inr policy \<Rightarrow> WorkerProcess_init wid part clock aof policy every_n)"

section \<open>The log carries the data\<close>

text \<open>
  What a request does to a dictionary, and which requests are logged. EXPIRE and FLUSHALL are not
  data commands: the first gives deadlines, the second is not logged.
\<close>

definition data_command :: "CommandRequest \<Rightarrow> bool" where
  "data_command r \<longleftrightarrow> req_command r \<noteq> EXPIRE \<and> req_command r \<noteq> FLUSHALL"

definition data_write :: "CommandRequest \<Rightarrow> bool" where
  "data_write r \<longleftrightarrow> (req_command r = SET \<and> length (req_args r) = 2) \<or>
     (req_command r = DEL \<and> length (req_args r) = 1)"

definition data_effect :: "CommandRequest \<Rightarrow> (pystr \<rightharpoonup> pystr) \<Rightarrow> (pystr \<rightharpoonup> pystr)" where
  "data_effect r m =
     (if req_command r = SET \<and> length (req_args r) = 2 then m(req_args r ! 0 \<mapsto> req_args r ! 1)
      else if req_command r = DEL \<and> length (req_args r) = 1 then m(req_args r ! 0 := None)
      else m)"

definition data_of_log :: "PersistRecord list \<Rightarrow> (pystr \<rightharpoonup> pystr) \<Rightarrow> (pystr \<rightharpoonup> pystr)" where
  "data_of_log rs m = fold (\<lambda>r. data_effect (rec_request r)) rs m"

lemma data_effect_mk [simp]: "data_effect (mk_request (req_command r) (req_args r)) = data_effect r"
  by (rule ext) (simp add: data_effect_def)

lemma data_effect_no_write: "\<not> data_write r \<Longrightarrow> data_effect r m = m"
  by (auto simp: data_write_def data_effect_def)

text \<open>A store without deadlines holding the dictionary \<open>m\<close>.\<close>

definition holds :: "MemoryStore \<Rightarrow> (pystr \<rightharpoonup> pystr) \<Rightarrow> bool" where
  "holds s m \<longleftrightarrow> store_inv s \<and> expiry s = Map.empty \<and> content s = m"

lemma holds_init [simp]: "holds (MemoryStore_init clock None) Map.empty"
  by (simp add: holds_def store_inv_init) (simp add: MemoryStore_init_def)

lemma holds_swept: "holds s m \<Longrightarrow> holds (swept s) m"
  using memory_store.swept_dict [of s] memory_store.invar_swept [of s] by (simp add: holds_def)

lemma holds_set: "holds s m \<Longrightarrow> holds (store_set k v s) (m(k \<mapsto> v))"
  using memory_store.invar_set [of s k v] memory_store.content_set [of s k v]
    memory_store.expiry_set [of s k v] holds_swept [of s m]
  by (simp add: holds_def memory_store_ops_def)

lemma holds_delete: "holds s m \<Longrightarrow> holds (snd (store_delete k s)) (m(k := None))"
  using memory_store.invar_delete [of s k] memory_store.content_delete [of s k]
    memory_store.expiry_delete [of s k] holds_swept [of s m]
  by (simp add: holds_def memory_store_ops_def)

lemma execute_data:
  assumes "holds s m" and "data_command r" and x: "execute_command U memory_store_ops r s = (res, s')"
  shows "\<exists>resp. res = Inr resp \<and> holds s' (data_effect r m) \<and> (is_write r resp \<longleftrightarrow> data_write r) \<and>
    dict_command fnmatch r m resp (data_effect r m)"
proof -
  have s: "store_inv s" "expiry s = Map.empty" "content s = m" using assms(1) by (simp_all add: holds_def)
  have "req_command r \<noteq> EXPIRE" using assms(2) by (simp add: data_command_def)
  then obtain resp where res: "res = Inr resp" and d: "dict_command fnmatch r m resp (content s')"
    and e: "expiry s' = Map.empty"
    using memory_store.execute_dict [OF s(1,2) _ x] s(3) by blast
  have inv: "store_inv s'" using memory_store.execute_invar [OF s(1), of U r] x by simp
  have "content s' = data_effect r m \<and> (is_write r resp \<longleftrightarrow> data_write r)"
    using d assms(2)
    by (cases "req_command r") (auto simp: dict_command_def data_effect_def data_write_def
        data_command_def is_write_def Let_def split: if_splits)
  then show ?thesis using res inv e d by (simp add: holds_def)
qed

lemma replay_data:
  assumes "holds s m" and "data_command r"
  shows "\<exists>s'. apply_replay_request U r s = (Inr (), s') \<and> holds s' (data_effect r m)"
proof -
  have s: "holds (swept s) m" using assms(1) by (rule holds_swept)
  have "apply_replay_request U r s =
      (Inr (), if req_command r = SET \<and> length (req_args r) = 2 then
                 store_set (req_args r ! 0) (req_args r ! 1) (swept s)
               else if req_command r = DEL \<and> length (req_args r) = 1 then
                 snd (store_delete (req_args r ! 0) (swept s))
               else swept s)"
    using assms(2)
    by (subst apply_replay_request_def, subst process_expirations_None) (auto simp: data_command_def Let_def)
  then show ?thesis
    using s holds_set [OF s] holds_delete [OF s] by (simp add: data_effect_def)
qed

lemma replay_records_data:
  "holds s m \<Longrightarrow> \<forall>r \<in> set rs. data_command (rec_request r) \<Longrightarrow>
     \<exists>s'. replay_records U rs s = (Inr (), s') \<and> holds s' (data_of_log rs m)"
proof (induction rs arbitrary: s m)
  case (Cons r rs)
  obtain s1 where "apply_replay_request U (rec_request r) s = (Inr (), s1)"
    "holds s1 (data_effect (rec_request r) m)"
    using replay_data [OF Cons.prems(1)] Cons.prems(2) by (metis list.set_intros(1))
  then show ?case using Cons.IH Cons.prems(2) by (simp add: data_of_log_def)
qed (simp add: data_of_log_def)

definition worker_holds :: "WorkerProcess \<Rightarrow> (pystr \<rightharpoonup> pystr) \<Rightarrow> bool" where
  "worker_holds w m \<longleftrightarrow> holds (wp_store w) m \<and>
     (\<exists>a. wp_persistence w = Some a \<and> aof_ok a \<and> aof_io_fault a = (\<lambda>_. None) \<and>
        (\<forall>r \<in> set (fst (aof_replay a)). data_command (rec_request r)) \<and>
        data_of_log (fst (aof_replay a)) Map.empty = m)"

definition request_of :: "WorkerRequest \<Rightarrow> CommandRequest" where
  "request_of q = \<lparr>req_command = wreq_command q, req_args = wreq_args q,
     req_request_id = Some (wreq_request_id q), req_client_id = wreq_client_id q\<rparr>"

lemma data_of_log_append [simp]: "data_of_log (rs @ ss) m = data_of_log ss (data_of_log rs m)"
  by (simp add: data_of_log_def)

lemma handle_request_data:
  assumes w: "worker_holds w m" "wp_persistence w = Some a" and c: "data_command (request_of q)"
    and t: "\<forall>x \<in> set (wreq_args q). scalar_text x" "aof_next_sequence a < 10 ^ max_str_digits"
  shows "\<exists>w' a' resp. handle_request U q w = (Inr (), w') \<and> worker_holds w' (data_effect (request_of q) m) \<and>
    wp_persistence w' = Some a' \<and> aof_next_sequence a' \<le> aof_next_sequence a + 1 \<and>
    wp_responses w' = wp_responses w @ [to_worker_response (wreq_request_id q) resp] \<and>
    dict_command fnmatch (request_of q) m resp (data_effect (request_of q) m)"
proof -
  let ?r = "request_of q"
  have s: "holds (wp_store w) m" and a: "aof_ok a" "aof_io_fault a = (\<lambda>_. None)"
    "\<forall>r \<in> set (fst (aof_replay a)). data_command (rec_request r)" "data_of_log (fst (aof_replay a)) Map.empty = m"
    using w by (simp_all add: worker_holds_def)
  obtain res s' where x: "execute_command U memory_store_ops ?r (wp_store w) = (res, s')" by fastforce
  then obtain resp where res: "res = Inr resp" and s': "holds s' (data_effect ?r m)"
    and wr: "is_write ?r resp \<longleftrightarrow> data_write ?r"
    and dc: "dict_command fnmatch ?r m resp (data_effect ?r m)"
    using execute_data [OF s c x] by blast
  show ?thesis
  proof (cases "data_write ?r")
    case False
    then show ?thesis
      using x s' w(2) wr dc a data_effect_no_write [OF False]
      by (auto simp: handle_request_def res request_of_def [symmetric] worker_holds_def)
  next
    case True
    have log: "loggable (aof_next_sequence a) ?r"
      using aof_okD(6) [OF a(1)] t by (simp add: loggable_def request_of_def)
    obtain r1 a1 where app: "append_request ?r a = (r1, a1)" by fastforce
    have a1: "aof_ok a1" "aof_next_sequence a1 = aof_next_sequence a + 1" "\<exists>y. r1 = Inr y"
      "aof_replay a1 = (fst (aof_replay a) @ [logged (aof_next_sequence a) ?r], None)"
      using append_request_ok [OF a(1) log _ _ app] a(2) by simp_all
    have "data_of_log (fst (aof_replay a1)) Map.empty = data_effect ?r m"
      using a(4) by (simp add: a1(4)) (simp add: data_of_log_def logged_def)
    moreover have "\<forall>r \<in> set (fst (aof_replay a1)). data_command (rec_request r)"
      using a(3) c by (simp add: a1(4) logged_def data_command_def)
    ultimately show ?thesis
      using x s' w(2) wr dc a1 True append_request_io [OF app] a(2) app
      by (auto simp: handle_request_def res request_of_def [symmetric] worker_holds_def Let_def)
  qed
qed

primrec handle_all :: "unicode_db \<Rightarrow> WorkerRequest list \<Rightarrow> WorkerProcess \<Rightarrow> (py_exn + unit) \<times> WorkerProcess" where
  "handle_all U [] w = (Inr (), w)"
| "handle_all U (q # qs) w =
     (case handle_request U q w of (Inl e, w1) \<Rightarrow> (Inl e, w1) | (Inr _, w1) \<Rightarrow> handle_all U qs w1)"

definition requests_effect :: "WorkerRequest list \<Rightarrow> (pystr \<rightharpoonup> pystr) \<Rightarrow> (pystr \<rightharpoonup> pystr)" where
  "requests_effect qs m = fold (\<lambda>q. data_effect (request_of q)) qs m"

lemma handle_all_data:
  "worker_holds w m \<Longrightarrow> wp_persistence w = Some a \<Longrightarrow> \<forall>q \<in> set qs. data_command (request_of q) \<Longrightarrow>
   \<forall>q \<in> set qs. \<forall>x \<in> set (wreq_args q). scalar_text x \<Longrightarrow>
   aof_next_sequence a + int (length qs) \<le> 10 ^ max_str_digits \<Longrightarrow>
   \<exists>w' a'. handle_all U qs w = (Inr (), w') \<and> worker_holds w' (requests_effect qs m) \<and>
     wp_persistence w' = Some a' \<and>
     map wresp_request_id (wp_responses w') = map wresp_request_id (wp_responses w) @ map wreq_request_id qs"
proof (induction qs arbitrary: w m a)
  case (Cons q qs)
  obtain w1 a1 resp where one: "handle_request U q w = (Inr (), w1)"
    "worker_holds w1 (data_effect (request_of q) m)" "wp_persistence w1 = Some a1"
    "aof_next_sequence a1 \<le> aof_next_sequence a + 1"
    "wp_responses w1 = wp_responses w @ [to_worker_response (wreq_request_id q) resp]"
    using handle_request_data [OF Cons.prems(1,2), of q U] Cons.prems(3,4,5) by fastforce
  obtain w' a' where "handle_all U qs w1 = (Inr (), w')"
    "worker_holds w' (requests_effect qs (data_effect (request_of q) m))" "wp_persistence w' = Some a'"
    "map wresp_request_id (wp_responses w') = map wresp_request_id (wp_responses w1) @ map wreq_request_id qs"
    using Cons.IH [OF one(2,3)] Cons.prems(3,4,5) one(4) by fastforce
  then show ?case using one by (simp add: requests_effect_def to_worker_response_def)
qed (simp add: requests_effect_def)

text \<open>Starting a worker on a log of data commands.\<close>

lemma start_worker:
  assumes "aof_ok a" and "aof_io_fault a = (\<lambda>_. None)"
    and "\<forall>r \<in> set (fst (aof_replay a)). data_command (rec_request r)"
    and "wp_persistence w = Some a" and "wp_store w = MemoryStore_init clock None"
  shows "\<exists>w'. run_replay U w = (Inr (), w') \<and> worker_holds w' (data_of_log (fst (aof_replay a)) Map.empty) \<and>
    wp_persistence w' = Some a \<and> wp_responses w' = wp_responses w"
proof -
  have "snd (aof_replay a) = None" using aof_okD(4) [OF assms(1)] by (simp add: aof_replay_def)
  then show ?thesis
    using replay_records_data [OF holds_init assms(3), of U clock] assms
    by (auto simp: run_replay_def worker_holds_def)
qed

section \<open>Properties of the worker process\<close>

text \<open>
  C12: a restarted worker has the data it had. A worker started on a log of SET and DEL records
  (possibly empty) answers any sequence of requests other than EXPIRE and FLUSHALL whose arguments are
  Unicode text, one response for each in order; if the process then ends and a new one starts on the log file as it is, with
  any clock and any fsync policy, its replay succeeds and it holds exactly the keys and values the
  old process held. The operating system is assumed not to fail.
\<close>
theorem worker_restart_recovers:
  assumes "WorkerProcess_init wid part clock (Some (t, \<lambda>_. None)) policy every_n = Inr w0"
    and "at_line_end t" and "\<forall>r \<in> set (fst (replay_text t)). data_command (rec_request r)"
    and "\<forall>q \<in> set qs. data_command (request_of q) \<and> (\<forall>x \<in> set (wreq_args q). scalar_text x)"
    and "\<forall>a. wp_persistence w0 = Some a \<longrightarrow> aof_next_sequence a + int (length qs) \<le> 10 ^ max_str_digits"
  shows "\<exists>w1 w2 a v0 v1. run_replay U w0 = (Inr (), w1) \<and> handle_all U qs w1 = (Inr (), w2) \<and>
    map wresp_request_id (wp_responses w2) = map wreq_request_id qs \<and> wp_persistence w2 = Some a \<and>
    content (wp_store w2) = requests_effect qs (data_of_log (fst (replay_text t)) Map.empty) \<and>
    WorkerProcess_init wid part clock' (Some (aof_text a, \<lambda>_. None)) policy' every_n' = Inr v0 \<and>
    run_replay U v0 = (Inr (), v1) \<and> content (wp_store v1) = content (wp_store w2)"
proof -
  obtain a0 where a0: "AofPersistence_init t (\<lambda>_. None) policy every_n = Inr a0"
    and w0: "wp_persistence w0 = Some a0" "wp_store w0 = MemoryStore_init clock None" "wp_responses w0 = []"
    using assms(1) by (auto simp: WorkerProcess_init_def Let_def split: sum.splits)
  note I = aof_init_ok [OF a0 assms(2)]
  have rep: "aof_replay a0 = replay_text t" using I by (simp add: aof_replay_def)
  obtain w1 where w1: "run_replay U w0 = (Inr (), w1)" "wp_persistence w1 = Some a0" "wp_responses w1 = []"
    "worker_holds w1 (data_of_log (fst (replay_text t)) Map.empty)"
    using start_worker [of a0 w0 clock U] I assms(3) w0 rep by auto
  let ?m = "requests_effect qs (data_of_log (fst (replay_text t)) Map.empty)"
  obtain w2 a where w2: "handle_all U qs w1 = (Inr (), w2)" "worker_holds w2 ?m" "wp_persistence w2 = Some a"
    "map wresp_request_id (wp_responses w2) = map wreq_request_id qs"
    using handle_all_data [OF w1(4,2), of qs U] assms(4,5) w0(1) w1(3) by auto
  have a: "aof_ok a" "\<forall>r \<in> set (fst (aof_replay a)). data_command (rec_request r)"
    "data_of_log (fst (aof_replay a)) Map.empty = ?m" "content (wp_store w2) = ?m"
    using w2(2,3) by (simp_all add: worker_holds_def holds_def)
  define b where "b = \<lparr>aof_text = aof_text a, aof_pending = [], aof_buffer_end = 0, aof_buffer_size = default_buffer_size, aof_synced = length (aof_text a),
    aof_closed = False, aof_io_calls = 0, aof_io_fault = (\<lambda>_. None), aof_next_sequence = aof_next_sequence a,
    aof_fsync_policy = policy', aof_fsync_every_n = every_n', aof_writes_since_fsync = 0\<rparr>"
  define v0 where "v0 = \<lparr>wp_worker_id = wid, wp_partition_id = part, wp_responses = [],
    wp_store = MemoryStore_init clock' None, wp_persistence = Some b, wp_running = True\<rparr>"
  have init: "WorkerProcess_init wid part clock' (Some (aof_text a, \<lambda>_. None)) policy' every_n' = Inr v0"
    using aof_okD(5) [OF a(1)]
    by (simp add: WorkerProcess_init_def AofPersistence_init_def v0_def b_def)
  have "aof_ok b" "aof_replay b = aof_replay a" "aof_io_fault b = (\<lambda>_. None)"
    using aof_okD [OF a(1)] by (simp_all add: b_def aof_ok_def aof_replay_def)
  then obtain v1 where v1: "run_replay U v0 = (Inr (), v1)" "worker_holds v1 ?m"
    using start_worker [of b v0 clock' U] a by (auto simp: v0_def)
  then have "content (wp_store v1) = content (wp_store w2)" using a(4) by (simp add: worker_holds_def holds_def)
  then show ?thesis using w1(1) w2 init v1(1) a(4) by blast
qed

theorem worker_restart_recovers_witness:
  "\<exists>w0 w1 w2 a v0 v1. WorkerProcess_init (lit ''w0'') 0 (\<lambda>n. of_nat n) (Some ([], \<lambda>_. None)) EVERY_N 100 = Inr w0 \<and>
     run_replay \<lparr>uni_upper = \<lambda>c. [c], uni_decimal = \<lambda>c. None\<rparr> w0 = (Inr (), w1) \<and>
     handle_all \<lparr>uni_upper = \<lambda>c. [c], uni_decimal = \<lambda>c. None\<rparr>
       [\<lparr>wreq_request_id = lit ''1'', wreq_command = SET, wreq_args = [lit ''k'', lit ''v''], wreq_client_id = None\<rparr>,
        \<lparr>wreq_request_id = lit ''2'', wreq_command = DEL, wreq_args = [lit ''m''], wreq_client_id = None\<rparr>]
       w1 = (Inr (), w2) \<and> wp_persistence w2 = Some a \<and>
     WorkerProcess_init (lit ''w0'') 0 (\<lambda>n. of_nat n) (Some (aof_text a, \<lambda>_. None)) EVERY_N 100 = Inr v0 \<and>
     run_replay \<lparr>uni_upper = \<lambda>c. [c], uni_decimal = \<lambda>c. None\<rparr> v0 = (Inr (), v1) \<and>
     content (wp_store v1) (lit ''k'') = Some (lit ''v'')"
proof -
  let ?U = "\<lparr>uni_upper = \<lambda>c. [c], uni_decimal = \<lambda>c. None\<rparr>" and ?clock = "\<lambda>n. of_nat n :: rat"
  let ?qs = "[\<lparr>wreq_request_id = lit ''1'', wreq_command = SET, wreq_args = [lit ''k'', lit ''v''], wreq_client_id = None\<rparr>,
        \<lparr>wreq_request_id = lit ''2'', wreq_command = DEL, wreq_args = [lit ''m''], wreq_client_id = None\<rparr>]"
  obtain w0 where w0: "WorkerProcess_init (lit ''w0'') 0 ?clock (Some ([], \<lambda>_. None)) EVERY_N 100 = Inr w0"
    "\<forall>a. wp_persistence w0 = Some a \<longrightarrow> aof_next_sequence a + int (length ?qs) \<le> 10 ^ max_str_digits"
    using ten_le_max_digits
    by (auto simp: WorkerProcess_init_def AofPersistence_init_def discover_next_sequence_def)
  have pre: "at_line_end []" "\<forall>r \<in> set (fst (replay_text [])). data_command (rec_request r)"
    "\<forall>q \<in> set ?qs. data_command (request_of q) \<and> (\<forall>x \<in> set (wreq_args q). scalar_text x)"
    by (simp_all add: at_line_end_def replay_text_def data_command_def request_of_def scalar_text_def)
  have eff: "requests_effect ?qs (data_of_log (fst (replay_text [])) Map.empty) (lit ''k'') = Some (lit ''v'')"
    by (simp add: requests_effect_def data_of_log_def replay_text_def data_effect_def request_of_def)
  from worker_restart_recovers [OF w0(1) pre w0(2), of ?U ?clock EVERY_N 100] w0(1) eff
  show ?thesis by metis
qed

text \<open>
  C34: one request can end a worker process. EXPIRE of an existing key with a number of seconds
  beyond the range of a double raises \<open>OverflowError\<close> out of \<open>run\<close>: no response is put on the queue,
  the log is not written or closed, and whatever is queued after the request is never handled.
\<close>
theorem worker_dies_on_huge_expire:
  assumes "store_inv (wp_store w)" and "wp_running w" and "content (swept (wp_store w)) k \<noteq> None"
    and "py_int U x = Inr n" and "2 ^ 1024 - 2 ^ 970 \<le> n"
    and "wreq_command q = EXPIRE" and "wreq_args q = [k, x]"
  shows "\<exists>w'. run_loop U show_dict ((Some (MsgRequest q), now) # ms) last_expiration w = (Inl OverflowError, w') \<and>
    wp_responses w' = wp_responses w \<and> wp_persistence w' = wp_persistence w \<and>
    content (wp_store w') = content (swept (wp_store w))"
proof -
  let ?s = "snd (op_expire memory_store_ops k n (wp_store w))"
  have n: "float_int_limit \<le> n" using assms(5) by (simp only: float_int_limit_def)
  have p: "parse_ttl_seconds U x = Some n" using assms(4) by (simp add: parse_ttl_seconds_def)
  note O = memory_store.expire_overflow [OF assms(1,3) n]
  have "execute_command U memory_store_ops (request_of q) (wp_store w) = (Inl OverflowError, ?s)"
    using execute_eqs(5) [OF _ _ p, of "request_of q" k memory_store_ops "wp_store w"] assms(6,7) O
    by (simp add: request_of_def)
  then show ?thesis
    using assms(2) O by (simp add: loop_step_def handle_request_def request_of_def)
qed

theorem worker_dies_on_huge_expire_witness:
  "\<exists>w'. run_loop \<lparr>uni_upper = \<lambda>c. [c], uni_decimal = \<lambda>c. None\<rparr> (\<lambda>_. [])
     [(Some (MsgRequest \<lparr>wreq_request_id = lit ''1'', wreq_command = EXPIRE,
        wreq_args = [lit ''k'', py_str_int (10 ^ 400)], wreq_client_id = None\<rparr>), 0),
      (Some (MsgRequest \<lparr>wreq_request_id = lit ''2'', wreq_command = PING, wreq_args = [],
        wreq_client_id = None\<rparr>), 0)] 0
     \<lparr>wp_worker_id = lit ''w0'', wp_partition_id = 0, wp_responses = [], wp_store = demo_store,
       wp_persistence = None, wp_running = True\<rparr> = (Inl OverflowError, w') \<and> wp_responses w' = []"
proof -
  let ?U = "\<lparr>uni_upper = \<lambda>c. [c], uni_decimal = \<lambda>c. None\<rparr>"
  let ?w = "\<lparr>wp_worker_id = lit ''w0'', wp_partition_id = 0, wp_responses = [], wp_store = demo_store,
       wp_persistence = None, wp_running = True\<rparr>"
  let ?q = "\<lparr>wreq_request_id = lit ''1'', wreq_command = EXPIRE,
        wreq_args = [lit ''k'', py_str_int (10 ^ 400)], wreq_client_id = None\<rparr>"
  have w: "store_inv (wp_store ?w)" "wp_running ?w" using demo_store_inv by simp_all
  have c: "content (swept (wp_store ?w)) (lit ''k'') \<noteq> None" by code_simp
  have p: "py_int ?U (py_str_int (10 ^ 400)) = Inr (10 ^ 400)"
    by (rule py_int_small [of _ 401]) (simp_all add: max_str_digits_def)
  have big: "(2 :: int) ^ 1024 - 2 ^ 970 \<le> 10 ^ 400" by simp
  have q: "wreq_command ?q = EXPIRE" "wreq_args ?q = [lit ''k'', py_str_int (10 ^ 400)]" by (simp_all del: lit_Cons)
  from worker_dies_on_huge_expire [OF w c p big q] show ?thesis by (metis WorkerProcess.select_convs(3))
qed

text \<open>
  C35: one failed write ends a worker process. Where the single-process server answers
  PERSISTENCE_ERROR, a worker process whose log cannot be flushed lets the \<open>OSError\<close> out of \<open>run\<close>: no
  response is put on the queue, although the store has taken the SET, and whatever is queued after the
  request is never handled.
\<close>
theorem worker_dies_on_log_failure:
  assumes "store_inv (wp_store w)" and "wp_running w" and "wp_persistence w = Some a" and "aof_ok a"
    and "loggable (aof_next_sequence a) (request_of q)"
    and "aof_io_fault a (aof_io_calls a) = Some (n, msg)"
    and "wreq_command q = SET" and "wreq_args q = [k, v]"
  shows "\<exists>w'. run_loop U show_dict ((Some (MsgRequest q), now) # ms) last_expiration w = (Inl (OSError msg), w') \<and>
    wp_responses w' = wp_responses w \<and> content (wp_store w') k = Some v"
proof -
  have "execute_command U memory_store_ops (request_of q) (wp_store w) =
      (Inr ((mk_response SIMPLE_STRING)\<lparr>resp_message := Some (lit ''OK''),
         resp_request_id := req_request_id (request_of q)\<rparr>), op_set memory_store_ops k v (wp_store w))"
    using assms(7,8) by (intro execute_eqs(2)) (simp_all add: request_of_def)
  moreover have "\<exists>a1. append_request (request_of q) a = (Inl (OSError msg), a1)"
    using append_request_fails [OF assms(4-6)] by blast
  moreover have "content (op_set memory_store_ops k v (wp_store w)) k = Some v"
    using memory_store.content_set [OF assms(1)] by simp
  ultimately show ?thesis
    using assms(2,3,7) by (auto simp: loop_step_def handle_request_def request_of_def is_write_def Let_def)
qed

theorem worker_dies_on_log_failure_witness:
  "\<exists>w'. run_loop \<lparr>uni_upper = \<lambda>c. [c], uni_decimal = \<lambda>c. None\<rparr> (\<lambda>_. [])
     [(Some (MsgRequest \<lparr>wreq_request_id = lit ''1'', wreq_command = SET,
        wreq_args = [lit ''k'', lit ''v''], wreq_client_id = None\<rparr>), 0)] 0
     \<lparr>wp_worker_id = lit ''w0'', wp_partition_id = 0, wp_responses = [], wp_store = demo_store,
       wp_persistence = Some \<lparr>aof_text = [], aof_pending = [], aof_buffer_end = 0, aof_buffer_size = default_buffer_size, aof_synced = 0, aof_closed = False,
         aof_io_calls = 0, aof_io_fault = \<lambda>_. Some (0, lit ''no space''), aof_next_sequence = 0,
         aof_fsync_policy = EVERY_N, aof_fsync_every_n = 100, aof_writes_since_fsync = 0\<rparr>,
       wp_running = True\<rparr> = (Inl (OSError (lit ''no space'')), w') \<and> wp_responses w' = []"
proof -
  let ?a = "\<lparr>aof_text = [], aof_pending = [], aof_buffer_end = 0, aof_buffer_size = default_buffer_size, aof_synced = 0, aof_closed = False,
         aof_io_calls = 0, aof_io_fault = \<lambda>_ :: nat. Some (0 :: nat, lit ''no space''), aof_next_sequence = 0,
         aof_fsync_policy = EVERY_N, aof_fsync_every_n = 100, aof_writes_since_fsync = 0\<rparr>"
  let ?w = "\<lparr>wp_worker_id = lit ''w0'', wp_partition_id = 0, wp_responses = [], wp_store = demo_store,
       wp_persistence = Some ?a, wp_running = True\<rparr>"
  let ?q = "\<lparr>wreq_request_id = lit ''1'', wreq_command = SET,
        wreq_args = [lit ''k'', lit ''v''], wreq_client_id = None\<rparr>"
  have w: "store_inv (wp_store ?w)" "wp_running ?w" "wp_persistence ?w = Some ?a" using demo_store_inv by simp_all
  have a: "aof_ok ?a" by (simp add: aof_ok_def at_line_end_def replay_text_def discover_next_sequence_def)
  have l: "loggable (aof_next_sequence ?a) (request_of ?q)"
    using ten_le_max_digits by (simp add: loggable_def request_of_def scalar_text_def)
  have f: "aof_io_fault ?a (aof_io_calls ?a) = Some (0, lit ''no space'')" by simp
  have q: "wreq_command ?q = SET" "wreq_args ?q = [lit ''k'', lit ''v'']" by (simp_all del: lit_Cons)
  from worker_dies_on_log_failure [OF w a l f q] show ?thesis by (metis WorkerProcess.select_convs(3))
qed

end
