(* ===== verification/Protocol.thy ===== *)
theory Protocol
  imports Pystr Types
begin

text \<open>
  The text protocol of src/src/protocol.py: one command line to a request, one response to the
  text sent back. Both report the program's own errors as values on the left. Lines are Python
  strings, so the code's first test (is the command text at all) always passes here.
\<close>

section \<open>Parsing\<close>

definition split_command :: "unicode_db \<Rightarrow> pystr \<Rightarrow> pystr \<times> pystr list" where
  "split_command U command_line =
     (let first_split = py_split_max 1 command_line;
          verb = py_upper U (first_split ! 0)
      in if length first_split = 1 then (verb, [])
         else if verb = CommandName_value SET then
           let set_parts = py_split_max 2 command_line in
           if length set_parts < 3 then (verb, drop 1 set_parts)
           else (verb, [set_parts ! 1, set_parts ! 2])
         else if verb = CommandName_value MGET then (verb, py_split (first_split ! 1))
         else (verb, py_split (first_split ! 1)))"

definition ensure_arity :: "pystr \<Rightarrow> pystr list \<Rightarrow> nat \<Rightarrow> LiteStoreError + unit" where
  "ensure_arity command args expected =
     (if length args \<noteq> expected then
        Inl (WrongArityError
          (command @ lit '' expects '' @ py_str_int (int expected) @
           lit '' argument(s), received '' @ py_str_int (int (length args)))
          (Some [(lit ''command'', command), (lit ''expected'', py_str_int (int expected)),
                 (lit ''received'', py_str_int (int (length args)))]))
      else Inr ())"

definition parse_command ::
    "unicode_db \<Rightarrow> pystr \<Rightarrow> pystr option \<Rightarrow> pystr option \<Rightarrow> LiteStoreError + CommandRequest" where
  "parse_command U raw_command request_id client_id =
     (let command_line = py_strip raw_command;
          request = (\<lambda>c args. \<lparr>req_command = c, req_args = args, req_request_id = request_id,
                                req_client_id = client_id\<rparr>);
          checked = (\<lambda>verb args expected r.
            (case ensure_arity verb args expected of Inl e \<Rightarrow> Inl e | Inr _ \<Rightarrow> Inr r))
      in if command_line = [] then Inl (InvalidRequestError (lit ''Command cannot be empty'') None)
      else let (verb, args) = split_command U command_line in
        if verb = CommandName_value PING then checked verb args 0 (request PING [])
        else if verb = CommandName_value SET then checked verb args 2 (request SET args)
        else if verb = CommandName_value GET then checked verb args 1 (request GET args)
        else if verb = CommandName_value DEL then checked verb args 1 (request DEL args)
        else if verb = CommandName_value EXPIRE then checked verb args 2 (request EXPIRE args)
        else if verb = CommandName_value TTL then checked verb args 1 (request TTL args)
        else if verb = CommandName_value MGET then
          if length args < 1 then
            Inl (WrongArityError (lit ''MGET requires at least 1 key'') (Some [(lit ''command'', verb)]))
          else Inr (request MGET args)
        else if verb = CommandName_value KEYS then
          if length args > 1 then
            Inl (WrongArityError (lit ''KEYS accepts 0 or 1 arguments'') (Some [(lit ''command'', verb)]))
          else Inr (request KEYS args)
        else if verb = CommandName_value FLUSHALL then checked verb args 0 (request FLUSHALL [])
        else Inl (UnknownCommandError (lit ''Unsupported command: '' @ verb)
               (Some [(lit ''command'', verb)])))"

section \<open>Serializing\<close>

definition crlf :: pystr where
  "crlf = [13, 10]"

definition serialize_response :: "CommandResponse \<Rightarrow> raised + pystr" where
  "serialize_response response =
     (if resp_kind response = SIMPLE_STRING then
        let payload = (case resp_message response of Some m \<Rightarrow> m | None \<Rightarrow> [])
        in Inr (lit ''+'' @ payload @ crlf)
      else if resp_kind response = BULK_STRING then
        (case resp_value response of
           None \<Rightarrow> Inl (OwnError (InvalidRequestError
             (lit ''Bulk string response requires a value'') None))
         | Some v \<Rightarrow> Inr (lit ''$'' @ v @ crlf))
      else if resp_kind response = INTEGER then
        (case resp_integer response of
           None \<Rightarrow> Inl (OwnError (InvalidRequestError
             (lit ''Integer response requires an integer value'') None))
         | Some n \<Rightarrow>
             (case py_format_int n of
                Inl exn \<Rightarrow> Inl (PyError exn)
              | Inr digits \<Rightarrow> Inr (lit '':'' @ digits @ crlf)))
      else if resp_kind response = NULL then Inr (lit ''$-1'' @ crlf)
      else if resp_kind response = ARRAY then
        let header = lit ''*'' @ py_str_int (int (length (resp_values response))) @ crlf;
            item_line = (\<lambda>item. case item of None \<Rightarrow> lit ''$-1'' @ crlf
                                             | Some x \<Rightarrow> lit ''$'' @ x @ crlf)
        in Inr (header @ concat (map item_line (resp_values response)))
      else if resp_kind response = ERROR then
        let code = (case resp_error_code response of Some c \<Rightarrow> ErrorCode_value c
                                                     | None \<Rightarrow> ErrorCode_value INTERNAL_ERROR);
            message = (case resp_message response of Some m \<Rightarrow> m | None \<Rightarrow> lit ''Unknown error'')
        in Inr (lit ''-ERR '' @ code @ lit '' '' @ message @ crlf)
      else Inl (OwnError (InvalidRequestError (lit ''Unsupported response kind'') None)))"

section \<open>What parsing accepts\<close>

text \<open>
  Past the split, the chain of tests is one question: is the verb a command, and does the number
  of arguments suit it.
\<close>

lemma ensure_arity_cases:
  "length args = n \<Longrightarrow> ensure_arity v args n = Inr ()"
  "length args \<noteq> n \<Longrightarrow> \<exists>e. ensure_arity v args n = Inl e \<and> err_code e = WRONG_ARITY"
  by (simp_all add: ensure_arity_def)

lemma parse_command_eq:
  assumes "py_strip raw \<noteq> []" and "split_command U (py_strip raw) = (verb, args)"
  shows "verb = CommandName_value c \<Longrightarrow> arity_ok c (length args) \<Longrightarrow>
      parse_command U raw rid cid = Inr \<lparr>req_command = c, req_args = args, req_request_id = rid,
        req_client_id = cid\<rparr>"
    and "verb = CommandName_value c \<Longrightarrow> \<not> arity_ok c (length args) \<Longrightarrow>
      \<exists>e. parse_command U raw rid cid = Inl e \<and> err_code e = WRONG_ARITY"
    and "\<forall>c. verb \<noteq> CommandName_value c \<Longrightarrow>
      parse_command U raw rid cid = Inl (UnknownCommandError (lit ''Unsupported command: '' @ verb)
        (Some [(lit ''command'', verb)]))"
proof -
  note [simp del] = CommandName_value.simps lit_Cons
  note step = parse_command_def [of U raw rid cid, unfolded Let_def assms(2) prod.case if_not_P [OF assms(1)]]
  note E = ensure_arity_cases [of args _ verb]
  show "parse_command U raw rid cid = Inr \<lparr>req_command = c, req_args = args, req_request_id = rid,
        req_client_id = cid\<rparr>" if v: "verb = CommandName_value c" and a: "arity_ok c (length args)"
    unfolding step v using a by (cases c) (auto simp: ensure_arity_def not_less Suc_le_eq)
  show "\<exists>e. parse_command U raw rid cid = Inl e \<and> err_code e = WRONG_ARITY"
    if v: "verb = CommandName_value c" and a: "\<not> arity_ok c (length args)"
    unfolding step v using a by (cases c) (auto simp: ensure_arity_def not_less Suc_le_eq)
  show "parse_command U raw rid cid = Inl (UnknownCommandError (lit ''Unsupported command: '' @ verb)
        (Some [(lit ''command'', verb)]))" if "\<forall>c. verb \<noteq> CommandName_value c"
    unfolding step using that by simp
qed

lemma parse_command_cases:
  "(\<exists>c. parse_command U raw rid cid = Inr \<lparr>req_command = c,
        req_args = snd (split_command U (py_strip raw)), req_request_id = rid, req_client_id = cid\<rparr> \<and>
      fst (split_command U (py_strip raw)) = CommandName_value c \<and>
      arity_ok c (length (snd (split_command U (py_strip raw)))) \<and> py_strip raw \<noteq> []) \<or>
   (\<exists>e. parse_command U raw rid cid = Inl e \<and>
      err_code e \<in> {INVALID_REQUEST, WRONG_ARITY, UNKNOWN_COMMAND})"
proof (cases "py_strip raw = []")
  case True
  then show ?thesis by (simp add: parse_command_def)
next
  case False
  obtain verb args where sp: "split_command U (py_strip raw) = (verb, args)" by fastforce
  note P = parse_command_eq [OF False sp, where rid = rid and cid = cid]
  show ?thesis
  proof (cases "\<exists>c. verb = CommandName_value c")
    case True
    then obtain c where c: "verb = CommandName_value c" by blast
    show ?thesis
      using P(1,2) [OF c] c sp False by (cases "arity_ok c (length args)") auto
  next
    case False
    then have "parse_command U raw rid cid = Inl (UnknownCommandError
        (lit ''Unsupported command: '' @ verb) (Some [(lit ''command'', verb)]))"
      by (intro P(3)) blast
    then show ?thesis by (simp del: lit_Cons)
  qed
qed

text \<open>Splitting the lines a client writes, and what a split can return.\<close>

definition args_ok :: "CommandName \<Rightarrow> pystr list \<Rightarrow> bool" where
  "args_ok c args \<longleftrightarrow> arity_ok c (length args) \<and>
     (if c = SET then is_word (args ! 0) \<and> is_trimmed (args ! 1) else \<forall>a \<in> set args. is_word a)"

lemma split_max_1_line:
  "is_word v \<Longrightarrow> is_trimmed r \<Longrightarrow> py_split_max 1 (v @ 32 # r) = [v, r]"
  by (simp only: One_nat_def py_split_max_Cons py_split_max_drop py_split_max_0_trimmed)

lemma split_command_line:
  assumes v: "is_word v" and u: "py_upper U v = CommandName_value c" and a: "args_ok c args"
  shows "split_command U (join_words (v # args)) = (CommandName_value c, args)"
proof -
  note [simp del] = CommandName_value.simps lit_Cons py_split_max.simps
  consider "args = []" | "args \<noteq> []" "c = SET" | "args \<noteq> []" "c \<noteq> SET" by blast
  then show ?thesis
  proof cases
    case 1
    with v u show ?thesis by (simp add: split_command_def py_split_max_word)
  next
    case 2
    with a obtain k x where args: "args = [k, x]" and k: "is_word k" and x: "is_trimmed x"
      by (auto simp: args_ok_def length_Suc_conv numeral_2_eq_2)
    have kx: "is_trimmed (k @ 32 # x)" using trimmed_append [OF word_trimmed [OF k] x, of "[32]"] by simp
    have "py_split_max 2 (v @ 32 # k @ 32 # x) = [v, k, x]"
      using v k x by (simp only: numeral_2_eq_2 py_split_max_Cons py_split_max_drop py_split_max_0_trimmed)
    with split_max_1_line [OF v kx] u 2 show ?thesis by (simp add: split_command_def args)
  next
    case 3
    with a have w: "\<forall>x \<in> set args. is_word x" by (simp add: args_ok_def)
    then have t: "is_trimmed (join_words args)" using 3 by (intro join_words_trimmed) (auto intro: word_trimmed)
    have "join_words (v # args) = v @ 32 # join_words args" using 3 by (cases args) simp_all
    with split_max_1_line [OF v t] u 3 py_split_join [OF w] show ?thesis by (simp add: split_command_def)
  qed
qed

lemma split_command_args:
  assumes "is_trimmed s" and "split_command U s = (CommandName_value c, args)"
    and "arity_ok c (length args)"
  shows "args_ok c args \<and> (\<forall>a \<in> set args. set a \<subseteq> set s)"
proof -
  note [simp del] = CommandName_value.simps lit_Cons py_split_max.simps
  have e: "s = [] \<or> \<not> py_isspace (last s)" using assms(1) by (simp add: is_trimmed_def)
  note P1 = py_split_max_parts [OF e, of 1] and P2 = py_split_max_parts [OF e, of 2]
  obtain p1 p2 where p: "py_split_max 1 s = p1" "py_split_max 2 s = p2" by blast
  note P1 = P1 [unfolded p] and P2 = P2 [unfolded p]
  consider "length p1 = 1" "args = []" "py_upper U (p1 ! 0) = CommandName_value c"
    | "length p1 \<noteq> 1" "c = SET" "length p2 < 3" "args = drop 1 p2"
    | "length p1 \<noteq> 1" "c = SET" "\<not> length p2 < 3" "args = [p2 ! 1, p2 ! 2]"
    | "length p1 \<noteq> 1" "c \<noteq> SET" "args = py_split (p1 ! 1)"
    using assms(2) unfolding split_command_def Let_def p by (auto split: if_splits)
  then show ?thesis
  proof cases
    case 1
    with assms(3) show ?thesis by (cases c) (simp_all add: args_ok_def)
  next
    case 2
    with assms(3) show ?thesis by simp
  next
    case 3
    then have "is_word (p2 ! 1)" "p2 ! 2 \<in> set p2" "p2 ! 1 \<in> set p2" using P2 by simp_all
    with P2 3 show ?thesis by (auto simp: args_ok_def)
  next
    case 4
    have "set (p1 ! 1) \<subseteq> set s" if "1 < length p1" using P1 that by (metis nth_mem)
    moreover have "1 < length p1"
    proof (rule ccontr)
      assume "\<not> 1 < length p1"
      then have "p1 = []" using 4(1) by (cases p1) auto
      then have "py_split_max (Suc 0) s = []" using p(1) by simp
      then have "s = []" using assms(1) by (simp add: py_split_max.simps Let_def split: if_splits)
      then show False using assms(1) by (simp add: is_trimmed_def)
    qed
    ultimately show ?thesis
      using 4 py_split_words [of _ "p1 ! 1"] assms(3) by (fastforce simp: args_ok_def)
  qed
qed

section \<open>Properties of the protocol\<close>

lemma parse_command_line:
  assumes "is_word verb" and "py_upper U verb = CommandName_value c" and "args_ok c args"
    and "\<forall>x \<in> set ws. py_isspace x" and "\<forall>x \<in> set ws'. py_isspace x"
  shows "parse_command U (ws @ join_words (verb # args) @ ws') rid cid =
    Inr \<lparr>req_command = c, req_args = args, req_request_id = rid, req_client_id = cid\<rparr>"
proof -
  have "is_trimmed a" if "a \<in> set args" for a
    using assms(3) that
    by (auto simp: args_ok_def word_trimmed length_Suc_conv numeral_2_eq_2 split: if_splits)
  then have t: "is_trimmed (join_words (verb # args))"
    using assms(1) by (intro join_words_trimmed) (auto intro: word_trimmed)
  then have strip: "py_strip (ws @ join_words (verb # args) @ ws') = join_words (verb # args)"
    using assms(4,5) by (rule py_strip_spaces)
  have "join_words (verb # args) \<noteq> []" using t by (simp add: is_trimmed_def)
  moreover have "split_command U (join_words (verb # args)) = (CommandName_value c, args)"
    using assms(1-3) by (rule split_command_line)
  ultimately show ?thesis
    using assms(3) unfolding args_ok_def by (intro parse_command_eq(1)) (simp_all only: strip simp_thms)
qed

text \<open>
  C14: parsing is the inverse of writing a command line. For any command, any verb that
  upper-cases to its name, and arguments of the right number (words; for SET a word and any text
  that does not begin or end with white space), the line of verb and arguments joined by single
  spaces, with any white space around it, parses to exactly that request with the given ids.
\<close>
theorem parse_command_roundtrip:
  assumes "is_word verb" and "py_upper U verb = CommandName_value c" and "args_ok c args"
    and "\<forall>x \<in> set ws. py_isspace x" and "\<forall>x \<in> set ws'. py_isspace x"
  shows "parse_command U (ws @ join_words (verb # args) @ ws') rid cid =
    Inr \<lparr>req_command = c, req_args = args, req_request_id = rid, req_client_id = cid\<rparr>"
  using assms by (rule parse_command_line)

theorem parse_command_roundtrip_witness:
  "parse_command \<lparr>uni_upper = \<lambda>c. [c], uni_decimal = \<lambda>c. None\<rparr>
     ([32] @ join_words [lit ''set'', lit ''k'', lit ''a  b''] @ [13, 10]) None None =
   Inr (mk_request SET [lit ''k'', lit ''a  b''])"
proof -
  let ?U = "\<lparr>uni_upper = \<lambda>c. [c], uni_decimal = \<lambda>c. None\<rparr>"
  have "is_word (lit ''set'')" "py_upper ?U (lit ''set'') = CommandName_value SET"
    "args_ok SET [lit ''k'', lit ''a  b'']" "\<forall>x \<in> set [32]. py_isspace x"
    "\<forall>x \<in> set [13, 10]. py_isspace x"
    by (simp_all add: is_word_def is_trimmed_def args_ok_def py_upper_char_def py_isspace_def)
  from parse_command_roundtrip [OF this, of None None] show ?thesis unfolding mk_request_def .
qed

lemma parse_command_accepts:
  "case parse_command U raw rid cid of
     Inr req \<Rightarrow> args_ok (req_command req) (req_args req) \<and> req_request_id req = rid \<and>
       req_client_id req = cid \<and> (\<forall>a \<in> set (req_args req). set a \<subseteq> set raw)
   | Inl e \<Rightarrow> err_code e \<in> {INVALID_REQUEST, WRONG_ARITY, UNKNOWN_COMMAND}"
proof -
  consider c where "parse_command U raw rid cid = Inr \<lparr>req_command = c,
        req_args = snd (split_command U (py_strip raw)), req_request_id = rid, req_client_id = cid\<rparr>"
      "fst (split_command U (py_strip raw)) = CommandName_value c"
      "arity_ok c (length (snd (split_command U (py_strip raw))))" "py_strip raw \<noteq> []"
    | e where "parse_command U raw rid cid = Inl e" "err_code e \<in> {INVALID_REQUEST, WRONG_ARITY, UNKNOWN_COMMAND}"
    using parse_command_cases [of U raw rid cid] by blast
  then show ?thesis
  proof cases
    case (1 c)
    obtain verb args where sp: "split_command U (py_strip raw) = (verb, args)" by fastforce
    have "is_trimmed (py_strip raw)" using 1(4) py_strip_result by blast
    from split_command_args [OF this, of U c args] 1 sp set_py_strip [of raw]
    show ?thesis by auto
  next
    case (2 e)
    then show ?thesis by simp
  qed
qed

text \<open>
  C27: what parsing accepts. Every request it returns has the number of arguments its command
  takes, carries the ids of the call, and has arguments that are not empty, consist of
  characters of the line and contain no white space (the value of SET excepted, which only does
  not begin or end with any). Everything else is an error with one of three codes.
\<close>
theorem parse_command_sound:
  "case parse_command U raw rid cid of
     Inr req \<Rightarrow> args_ok (req_command req) (req_args req) \<and> req_request_id req = rid \<and>
       req_client_id req = cid \<and> (\<forall>a \<in> set (req_args req). set a \<subseteq> set raw)
   | Inl e \<Rightarrow> err_code e \<in> {INVALID_REQUEST, WRONG_ARITY, UNKNOWN_COMMAND}"
  by (rule parse_command_accepts)

theorem parse_command_sound_witness:
  "args_ok GET [lit ''key''] \<and> set (lit ''key'') \<subseteq> set (lit ''get key'')"
proof -
  let ?U = "\<lparr>uni_upper = \<lambda>c. [c], uni_decimal = \<lambda>c. None\<rparr>"
  have st: "py_strip (lit ''get key'') = lit ''get key''"
    by (simp add: py_strip_def py_isspace_def)
  have "split_command ?U (lit ''get key'') = (CommandName_value GET, [lit ''key''])"
    by (simp add: split_command_def py_isspace_def py_upper_char_def py_split.simps)
  then have "parse_command ?U (lit ''get key'') None None = Inr \<lparr>req_command = GET,
      req_args = [lit ''key''], req_request_id = None, req_client_id = None\<rparr>"
    by (intro parse_command_eq(1)) (simp_all only: st, simp_all)
  with parse_command_sound [where U = ?U and raw = "lit ''get key''" and rid = None and cid = None] show ?thesis by (simp del: lit_Cons)
qed

lemma py_str_int_inject:
  "length (nat_digits (nat \<bar>m\<bar>)) \<le> max_str_digits \<Longrightarrow> length (nat_digits (nat \<bar>n\<bar>)) \<le> max_str_digits \<Longrightarrow>
     py_str_int m = py_str_int n \<Longrightarrow> m = n"
  by (metis py_int_str_int sum.inject(2))

text \<open>The text of a response, kind by kind.\<close>

lemma serialize_eqs:
  "resp_kind r = SIMPLE_STRING \<Longrightarrow> serialize_response r =
     Inr (43 # (case resp_message r of Some m \<Rightarrow> m | None \<Rightarrow> []) @ crlf)"
  "resp_kind r = BULK_STRING \<Longrightarrow> resp_value r = Some v \<Longrightarrow> serialize_response r = Inr (36 # v @ crlf)"
  "resp_kind r = INTEGER \<Longrightarrow> resp_integer r = Some n \<Longrightarrow>
     length (nat_digits (nat \<bar>n\<bar>)) \<le> max_str_digits \<Longrightarrow>
     serialize_response r = Inr (58 # py_str_int n @ crlf)"
  "resp_kind r = NULL \<Longrightarrow> serialize_response r = Inr (36 # [45, 49] @ crlf)"
  "resp_kind r = ARRAY \<Longrightarrow> serialize_response r = Inr (42 # py_str_int (int (length (resp_values r))) @ crlf @
     concat (map (\<lambda>x. 36 # (case x of None \<Rightarrow> [45, 49] | Some v \<Rightarrow> v) @ crlf) (resp_values r)))"
  "resp_kind r = ERROR \<Longrightarrow> serialize_response r = Inr (45 # lit ''ERR '' @
     ErrorCode_value (case resp_error_code r of Some c \<Rightarrow> c | None \<Rightarrow> INTERNAL_ERROR) @ lit '' '' @
     (case resp_message r of Some m \<Rightarrow> m | None \<Rightarrow> lit ''Unknown error'') @ crlf)"
  by (simp_all add: serialize_response_def py_format_int_def option.case_distrib cong: option.case_cong
      split: option.split) (auto intro!: arg_cong [of _ _ concat] split: option.split)

text \<open>
  The fields a kind is written from: the responses of the command layer have them
  (\<open>execute_command_well_formed\<close> in Commands), and integers are within the digit limit.
\<close>

definition serializable :: "CommandResponse \<Rightarrow> bool" where
  "serializable r = (case resp_kind r of
      BULK_STRING \<Rightarrow> resp_value r \<noteq> None
    | INTEGER \<Rightarrow> (case resp_integer r of None \<Rightarrow> False
                  | Some n \<Rightarrow> length (nat_digits (nat \<bar>n\<bar>)) \<le> max_str_digits)
    | _ \<Rightarrow> True)"

lemma serialize_SomeE:
  assumes "serializable r"
  shows "resp_kind r = BULK_STRING \<Longrightarrow> \<exists>v. resp_value r = Some v \<and>
      serialize_response r = Inr (36 # v @ crlf)"
    and "resp_kind r = INTEGER \<Longrightarrow> \<exists>n. resp_integer r = Some n \<and>
      length (nat_digits (nat \<bar>n\<bar>)) \<le> max_str_digits \<and>
      serialize_response r = Inr (58 # py_str_int n @ crlf)"
  using assms serialize_eqs(2,3) [of r]
  by (auto simp: serializable_def split: option.splits)

lemma array_ends: "\<exists>body. crlf @ concat (map (\<lambda>x. 36 # f x @ crlf) xs) = body @ crlf"
proof (induction xs rule: rev_induct)
  case (snoc x xs)
  have "crlf @ concat (map (\<lambda>x. 36 # f x @ crlf) (xs @ [x])) =
      (crlf @ concat (map (\<lambda>x. 36 # f x @ crlf) xs) @ 36 # f x) @ crlf"
    by simp
  then show ?case by blast
qed simp

lemma serialize_ends:
  assumes "serializable r"
  shows "\<exists>c text. serialize_response r = Inr (c # text) \<and>
    c = (case resp_kind r of SIMPLE_STRING \<Rightarrow> 43 | BULK_STRING \<Rightarrow> 36 | INTEGER \<Rightarrow> 58 | NULL \<Rightarrow> 36
         | ERROR \<Rightarrow> 45 | ARRAY \<Rightarrow> 42) \<and> (\<exists>body. text = body @ crlf)"
proof -
  have wrap: ?thesis if "serialize_response r = Inr (c # body @ crlf)"
    "c = (case resp_kind r of SIMPLE_STRING \<Rightarrow> 43 | BULK_STRING \<Rightarrow> 36 | INTEGER \<Rightarrow> 58 | NULL \<Rightarrow> 36
         | ERROR \<Rightarrow> 45 | ARRAY \<Rightarrow> 42)" for c body
    using that by blast
  show ?thesis
  proof (cases "resp_kind r")
    case SIMPLE_STRING
    then show ?thesis by (intro wrap [OF serialize_eqs(1)]) simp_all
  next
    case BULK_STRING
    with serialize_SomeE(1) [OF assms] wrap show ?thesis by fastforce
  next
    case INTEGER
    with serialize_SomeE(2) [OF assms] wrap show ?thesis by fastforce
  next
    case NULL
    then show ?thesis by (intro wrap [OF serialize_eqs(4)]) simp_all
  next
    case ERROR
    have "serialize_response r = Inr (45 # (lit ''ERR '' @
        ErrorCode_value (case resp_error_code r of Some c \<Rightarrow> c | None \<Rightarrow> INTERNAL_ERROR) @ lit '' '' @
        (case resp_message r of Some m \<Rightarrow> m | None \<Rightarrow> lit ''Unknown error'')) @ crlf)"
      unfolding serialize_eqs(6) [OF ERROR] by (simp only: append.assoc)
    then show ?thesis by (rule wrap) (simp add: ERROR)
  next
    case ARRAY
    obtain body where "crlf @ concat (map (\<lambda>x. 36 # (case x of None \<Rightarrow> [45, 49] | Some v \<Rightarrow> v) @ crlf)
        (resp_values r)) = body @ crlf"
      using array_ends by blast
    then have "serialize_response r = Inr (42 # (py_str_int (int (length (resp_values r))) @ body) @ crlf)"
      unfolding serialize_eqs(5) [OF ARRAY] by (simp only: append.assoc)
    then show ?thesis by (rule wrap) (simp add: ARRAY)
  qed
qed

text \<open>
  A response that has the field its kind is written from is serialized without an error, to
  a text that starts with the character of its kind (+ $ : * -, NULL and BULK_STRING sharing the
  dollar sign) and ends with CR LF.
\<close>
theorem serialize_response_total:
  assumes "serializable r"
  shows "\<exists>c text. serialize_response r = Inr (c # text) \<and>
    c = (case resp_kind r of SIMPLE_STRING \<Rightarrow> 43 | BULK_STRING \<Rightarrow> 36 | INTEGER \<Rightarrow> 58 | NULL \<Rightarrow> 36
         | ERROR \<Rightarrow> 45 | ARRAY \<Rightarrow> 42) \<and> (\<exists>body. text = body @ crlf)"
  using assms by (rule serialize_ends)

theorem serialize_response_total_witness:
  "\<exists>c text. serialize_response ((mk_response INTEGER)\<lparr>resp_integer := Some (- 2)\<rparr>) = Inr (c # text) \<and>
     c = 58"
proof -
  have "serializable ((mk_response INTEGER)\<lparr>resp_integer := Some (- 2)\<rparr>)"
    by (simp add: serializable_def nat_digits.simps max_str_digits_def)
  from serialize_response_total [OF this] show ?thesis by auto
qed

text \<open>
  C30: what a client can tell from the text. Two serializable responses with the same text have
  the same kind, unless one is NULL and the other a BULK_STRING whose value is -1 (SET k -1, GET
  k, and the reply is the one for a missing key). Bulk strings with the same text have the same
  value and integers the same number.
\<close>
theorem serialize_response_distinguishes:
  assumes "serializable r" and "serializable r'" and "serialize_response r = serialize_response r'"
  shows "(resp_kind r = resp_kind r' \<or>
      {resp_kind r, resp_kind r'} = {NULL, BULK_STRING} \<and>
      (resp_kind r = BULK_STRING \<longrightarrow> resp_value r = Some (lit ''-1'')) \<and>
      (resp_kind r' = BULK_STRING \<longrightarrow> resp_value r' = Some (lit ''-1''))) \<and>
    (resp_kind r = BULK_STRING \<and> resp_kind r' = BULK_STRING \<longrightarrow> resp_value r = resp_value r') \<and>
    (resp_kind r = INTEGER \<and> resp_kind r' = INTEGER \<longrightarrow> resp_integer r = resp_integer r')"
proof -
  have kinds: "resp_kind r = resp_kind r' \<or> {resp_kind r, resp_kind r'} = {NULL, BULK_STRING}"
    using serialize_ends [OF assms(1)] serialize_ends [OF assms(2)] assms(3)
    by (cases "resp_kind r"; cases "resp_kind r'") auto
  have null: "resp_value b = Some (lit ''-1'')"
    if b: "serializable b" "resp_kind b = BULK_STRING" and n: "resp_kind n = NULL"
      and eq: "serialize_response b = serialize_response n" for b n
  proof -
    obtain v where v: "resp_value b = Some v" "serialize_response b = Inr (36 # v @ crlf)"
      using serialize_SomeE(1) [OF b] by blast
    then have "v = [45, 49]"
      using eq unfolding serialize_eqs(4) [OF n] by (simp only: sum.inject list.inject append_same_eq)
    with v show ?thesis by simp
  qed
  have bulk: "resp_value r = resp_value r'" if "resp_kind r = BULK_STRING" "resp_kind r' = BULK_STRING"
    using serialize_SomeE(1) [OF assms(1) that(1)] serialize_SomeE(1) [OF assms(2) that(2)] assms(3)
    by auto
  have int: "resp_integer r = resp_integer r'" if "resp_kind r = INTEGER" "resp_kind r' = INTEGER"
    using serialize_SomeE(2) [OF assms(1) that(1)] serialize_SomeE(2) [OF assms(2) that(2)] assms(3)
    by (auto dest: py_str_int_inject)
  show ?thesis
  proof (cases "resp_kind r = resp_kind r'")
    case True
    with bulk int show ?thesis by simp
  next
    case False
    with kinds consider "resp_kind r = NULL" "resp_kind r' = BULK_STRING"
      | "resp_kind r = BULK_STRING" "resp_kind r' = NULL"
      by (auto simp: doubleton_eq_iff)
    then show ?thesis
      using null [of r r'] null [of r' r] assms by cases (simp_all add: insert_commute del: lit_Cons)
  qed
qed

theorem serialize_response_distinguishes_witness:
  "serialize_response (mk_response NULL) =
     serialize_response ((mk_response BULK_STRING)\<lparr>resp_value := Some (lit ''-1'')\<rparr>) \<and>
   resp_kind (mk_response NULL) \<noteq> BULK_STRING"
proof -
  let ?b = "(mk_response BULK_STRING)\<lparr>resp_value := Some (lit ''-1'')\<rparr>"
  have ser: "serializable (mk_response NULL)" "serializable ?b" by (simp_all add: serializable_def)
  have eq: "serialize_response (mk_response NULL) = serialize_response ?b" by (simp add: serialize_eqs)
  from serialize_response_distinguishes [OF ser eq] eq show ?thesis by simp
qed

end
