(* ===== verification/Worker_Pool.thy ===== *)
theory Worker_Pool
  imports Process_Worker Protocol
begin

text \<open>
  The pool of worker processes of src/src/worker_pool.py: for each worker a queue of requests, a
  queue of responses and the calls of \<open>execute\<close> that wait for one. Sending, the worker's loop and
  receiving interleave freely, so the pool is a step relation. A waiting call is a thread blocked in
  \<open>response_queue.get\<close>; nothing says which of several gets the next response. The response queue is
  the list \<open>wp_responses\<close> of the worker, from which receiving takes the head. Starting, joining and
  terminating operating-system processes is not modelled.
\<close>

section \<open>Messages and names\<close>

definition pool_worker_id :: "nat \<Rightarrow> pystr" where
  "pool_worker_id i = lit ''w'' @ py_str_int (int i)"

definition pool_worker_ids :: "int \<Rightarrow> pystr list" where
  "pool_worker_ids worker_count = map pool_worker_id [0..<nat worker_count]"

text \<open>\<open>Path.stem\<close> and \<open>Path.suffix\<close> of a final path component.\<close>

definition suffix_length :: "pystr \<Rightarrow> nat" where
  "suffix_length name =
     (let n = length (takeWhile (\<lambda>c. c \<noteq> 46) (rev name)) + 1
      in if 46 \<in> set name \<and> n < length name \<and> n > 1 then n else 0)"

definition aof_name_for_worker :: "pystr \<Rightarrow> pystr \<Rightarrow> pystr" where
  "aof_name_for_worker name wid =
     (let n = length name - suffix_length name; stem = take n name; suffix = drop n name
      in stem @ lit ''-'' @ wid @ suffix)"

text \<open>
  \<open>fresh_id\<close> is what \<open>uuid4\<close> would give; an empty request id counts as none.
\<close>

definition to_worker_request :: "pystr \<Rightarrow> CommandRequest \<Rightarrow> WorkerRequest" where
  "to_worker_request fresh_id request =
     \<lparr>wreq_request_id = (case req_request_id request of
          None \<Rightarrow> fresh_id | Some i \<Rightarrow> if i = [] then fresh_id else i),
      wreq_command = req_command request, wreq_args = req_args request,
      wreq_client_id = req_client_id request\<rparr>"

definition to_command_response :: "WorkerResponse \<Rightarrow> CommandResponse" where
  "to_command_response response = (mk_response (wresp_kind response))
     \<lparr>resp_message := wresp_message response, resp_value := wresp_value response,
      resp_integer := wresp_integer response, resp_error_code := wresp_error_code response,
      resp_request_id := Some (wresp_request_id response)\<rparr>"

section \<open>The steps\<close>

text \<open>
  \<open>handle_sent\<close> remembers the ids of the requests in the order they were put on the queue; the code
  does not keep it.
\<close>

record WorkerHandle =
  handle_worker_id :: pystr
  handle_partition_id :: int
  handle_requests :: "worker_msg list"
  handle_process :: WorkerProcess
  handle_alive :: bool
  handle_last_expiration :: rat
  handle_waiting :: "(nat \<times> pystr) list"
  handle_done :: "(nat \<times> pystr \<times> CommandResponse) list"
  handle_sent :: "pystr list"

definition pool_send :: "nat \<Rightarrow> WorkerRequest \<Rightarrow> WorkerHandle \<Rightarrow> WorkerHandle" where
  "pool_send call q h = h\<lparr>handle_requests := handle_requests h @ [MsgRequest q],
     handle_waiting := handle_waiting h @ [(call, wreq_request_id q)],
     handle_sent := handle_sent h @ [wreq_request_id q]\<rparr>"

definition pool_receive :: "nat \<times> pystr \<Rightarrow> WorkerResponse \<Rightarrow> WorkerResponse list \<Rightarrow> WorkerHandle \<Rightarrow> WorkerHandle" where
  "pool_receive call response rest h = h\<lparr>handle_waiting := remove1 call (handle_waiting h),
     handle_process := (handle_process h)\<lparr>wp_responses := rest\<rparr>,
     handle_done := handle_done h @ [(fst call, snd call, to_command_response response)]\<rparr>"

definition pool_shutdown :: "WorkerHandle \<Rightarrow> WorkerHandle" where
  "pool_shutdown h = h\<lparr>handle_requests := handle_requests h @
     [MsgControl \<lparr>ctl_action = lit ''shutdown'', ctl_request_id = None\<rparr>]\<rparr>"

text \<open>
  One turn of the loop of a worker's process, with the message it takes from its queue or, after a
  timeout, none. A process that an exception ends is no longer alive.
\<close>

definition turn_enabled :: "worker_msg option \<Rightarrow> WorkerHandle \<Rightarrow> bool" where
  "turn_enabled msg h \<longleftrightarrow> handle_alive h \<and> wp_running (handle_process h) \<and>
     (case msg of None \<Rightarrow> True | Some m \<Rightarrow> (case handle_requests h of [] \<Rightarrow> False | x # _ \<Rightarrow> x = m))"

definition worker_turn ::
    "unicode_db \<Rightarrow> ((pystr \<times> pystr) list \<Rightarrow> pystr) \<Rightarrow> worker_msg option \<Rightarrow> rat \<Rightarrow> WorkerHandle \<Rightarrow> WorkerHandle" where
  "worker_turn U show_dict msg now h =
     (let (r, w) = loop_step U show_dict msg now (handle_last_expiration h) (handle_process h);
          h1 = h\<lparr>handle_requests := (case msg of None \<Rightarrow> handle_requests h | Some _ \<Rightarrow> tl (handle_requests h)),
                 handle_process := w\<rparr>
      in case r of
           Inl e \<Rightarrow> h1\<lparr>handle_alive := False\<rparr>
         | Inr l \<Rightarrow> h1\<lparr>handle_last_expiration := l\<rparr>)"

text \<open>
  With \<open>serial\<close> a call is made only when no other call of the same worker waits. The operating
  system, or \<open>terminate\<close> after a shutdown, may end a process at any time.
\<close>

inductive handle_step ::
    "unicode_db \<Rightarrow> ((pystr \<times> pystr) list \<Rightarrow> pystr) \<Rightarrow> bool \<Rightarrow> WorkerHandle \<Rightarrow> WorkerHandle \<Rightarrow> bool"
  for U show_dict serial where
  send: "(serial \<longrightarrow> handle_waiting h = []) \<Longrightarrow>
    call \<notin> fst ` (set (handle_waiting h)) \<union> fst ` (set (handle_done h)) \<Longrightarrow>
    handle_step U show_dict serial h (pool_send call (to_worker_request fresh_id request) h)"
| turn: "turn_enabled msg h \<Longrightarrow> handle_step U show_dict serial h (worker_turn U show_dict msg now h)"
| receive: "call \<in> set (handle_waiting h) \<Longrightarrow> wp_responses (handle_process h) = r # rs \<Longrightarrow>
    handle_step U show_dict serial h (pool_receive call r rs h)"
| shutdown: "handle_step U show_dict serial h (pool_shutdown h)"
| killed: "handle_step U show_dict serial h (h\<lparr>handle_alive := False\<rparr>)"

text \<open>The handle of a worker whose process starts with the state \<open>w\<close>, if it gets that far.\<close>

definition handle_init :: "WorkerProcess \<Rightarrow> rat \<Rightarrow> bool \<Rightarrow> WorkerHandle" where
  "handle_init w now alive = \<lparr>handle_worker_id = wp_worker_id w, handle_partition_id = wp_partition_id w,
     handle_requests = [], handle_process = w, handle_alive = alive, handle_last_expiration = now,
     handle_waiting = [], handle_done = [], handle_sent = []\<rparr>"

definition handle_fresh :: "WorkerHandle \<Rightarrow> bool" where
  "handle_fresh h \<longleftrightarrow> handle_requests h = [] \<and> wp_responses (handle_process h) = [] \<and>
     handle_waiting h = [] \<and> handle_done h = [] \<and> handle_sent h = []"

lemma handle_fresh_init [simp]: "wp_responses w = [] \<Longrightarrow> handle_fresh (handle_init w now alive)"
  by (simp add: handle_fresh_def handle_init_def)

inductive handle_reachable ::
    "unicode_db \<Rightarrow> ((pystr \<times> pystr) list \<Rightarrow> pystr) \<Rightarrow> bool \<Rightarrow> WorkerHandle \<Rightarrow> bool"
  for U show_dict serial where
  start: "handle_fresh h \<Longrightarrow> handle_reachable U show_dict serial h"
| step: "handle_reachable U show_dict serial h \<Longrightarrow> handle_step U show_dict serial h h' \<Longrightarrow>
    handle_reachable U show_dict serial h'"

section \<open>The worker's side\<close>

lemma expiration_cycle_keeps [simp]:
  "wp_responses (snd (expiration_cycle now l w)) = wp_responses w"
  "wp_running (snd (expiration_cycle now l w)) = wp_running w"
  by (simp_all add: expiration_cycle_def)

lemma expiration_cycle_responses: "expiration_cycle now l w = (l', w') \<Longrightarrow> wp_responses w' = wp_responses w"
  by (metis expiration_cycle_keeps(1) snd_conv)

lemma handle_request_puts:
  "handle_request U q w = (Inr (), w') \<Longrightarrow>
     \<exists>x. wp_responses w' = wp_responses w @ [x] \<and> wresp_request_id x = wreq_request_id q"
  by (auto simp: handle_request_def to_worker_response_def Let_def
      split: prod.splits sum.splits option.splits if_splits)

lemma handle_shutdown_responses:
  "ctl_action c = lit ''shutdown'' \<Longrightarrow> wp_responses (snd (handle_control show_dict c w)) = wp_responses w"
  by (auto simp: handle_control_def Let_def case_prod_beta split: option.split)

definition msg_ids :: "worker_msg list \<Rightarrow> pystr list" where
  "msg_ids ms = concat (map (\<lambda>m. case m of MsgRequest q \<Rightarrow> [wreq_request_id q] | MsgControl _ \<Rightarrow> []) ms)"

definition only_shutdown :: "worker_msg list \<Rightarrow> bool" where
  "only_shutdown ms \<longleftrightarrow> (\<forall>c. MsgControl c \<in> set ms \<longrightarrow> ctl_action c = lit ''shutdown'')"

lemma msg_ids_simps [simp]:
  "msg_ids [] = []" "msg_ids (ms @ ns) = msg_ids ms @ msg_ids ns"
  "msg_ids (MsgRequest q # ms) = wreq_request_id q # msg_ids ms"
  "msg_ids (MsgControl c # ms) = msg_ids ms"
  by (simp_all add: msg_ids_def)

text \<open>One turn of the loop answers the request it took, and nothing else.\<close>

lemma loop_step_ids:
  assumes "loop_step U show_dict (Some m) now l w = (Inr l', w')" and "only_shutdown [m]"
  shows "map wresp_request_id (wp_responses w') = map wresp_request_id (wp_responses w) @ msg_ids [m]"
proof (cases m)
  case (MsgControl c)
  then show ?thesis
    using assms handle_shutdown_responses [of c show_dict w]
    by (auto simp: loop_step_def only_shutdown_def Let_def split: prod.splits sum.splits
        dest!: expiration_cycle_responses)
next
  case (MsgRequest q)
  then show ?thesis
    using assms handle_request_puts [of U q w]
    by (auto simp: loop_step_def Let_def split: prod.splits sum.splits dest!: expiration_cycle_responses)
qed

lemma loop_step_idle: "loop_step U show_dict None now l w = (Inr l', w') \<Longrightarrow> wp_responses w' = wp_responses w"
  by (auto simp: loop_step_def Let_def split: prod.splits dest: expiration_cycle_responses)

lemma loop_step_error:
  assumes "loop_step U show_dict (Some m) now l w = (Inl e, w')" and "only_shutdown [m]"
  shows "wp_responses w' = wp_responses w"
proof (cases m)
  case (MsgControl c)
  then show ?thesis
    using assms handle_shutdown_responses [of c show_dict w]
    by (auto simp: loop_step_def only_shutdown_def Let_def split: prod.splits sum.splits)
next
  case (MsgRequest q)
  then show ?thesis
    using assms
    by (auto simp: loop_step_def handle_request_def Let_def
        split: prod.splits sum.splits option.splits if_splits)
qed

section \<open>Invariants\<close>

definition delivered_ids :: "WorkerHandle \<Rightarrow> pystr list" where
  "delivered_ids h = map (\<lambda>(_, _, r). the (resp_request_id r)) (handle_done h)"

definition response_ids :: "WorkerHandle \<Rightarrow> pystr list" where
  "response_ids h = map wresp_request_id (wp_responses (handle_process h))"

lemma only_shutdown_simps [simp]:
  "only_shutdown []" "only_shutdown (ms @ ns) \<longleftrightarrow> only_shutdown ms \<and> only_shutdown ns"
  "only_shutdown (MsgRequest q # ms) = only_shutdown ms"
  "only_shutdown (MsgControl c # ms) \<longleftrightarrow> ctl_action c = lit ''shutdown'' \<and> only_shutdown ms"
  by (auto simp: only_shutdown_def)

lemma worker_turn_keeps [simp]:
  "handle_waiting (worker_turn U show_dict msg now h) = handle_waiting h"
  "handle_done (worker_turn U show_dict msg now h) = handle_done h"
  "handle_sent (worker_turn U show_dict msg now h) = handle_sent h"
  "handle_worker_id (worker_turn U show_dict msg now h) = handle_worker_id h"
  "handle_partition_id (worker_turn U show_dict msg now h) = handle_partition_id h"
  by (simp_all add: worker_turn_def Let_def split: prod.split sum.split)

lemma worker_turn_requests:
  "handle_requests (worker_turn U show_dict msg now h) =
     (case msg of None \<Rightarrow> handle_requests h | Some _ \<Rightarrow> tl (handle_requests h))"
  by (simp add: worker_turn_def Let_def split: prod.split sum.split)

lemma delivered_ids_turn [simp]: "delivered_ids (worker_turn U show_dict msg now h) = delivered_ids h"
  by (simp add: delivered_ids_def)

text \<open>A turn moves the id of the request it takes to the responses, or the process dies.\<close>

lemma worker_turn_ids:
  fixes U show_dict now
  assumes e: "turn_enabled msg h" and o: "only_shutdown (handle_requests h)"
  defines "h' \<equiv> worker_turn U show_dict msg now h"
  shows "only_shutdown (handle_requests h')"
    and "handle_alive h' \<Longrightarrow> response_ids h' @ msg_ids (handle_requests h') =
      response_ids h @ msg_ids (handle_requests h)"
    and "\<not> handle_alive h' \<Longrightarrow> response_ids h' = response_ids h"
proof -
  obtain r w where x: "loop_step U show_dict msg now (handle_last_expiration h) (handle_process h) = (r, w)"
    by fastforce
  have alive: "handle_alive h" using e by (simp add: turn_enabled_def)
  show "only_shutdown (handle_requests h')"
    using o e unfolding h'_def worker_turn_requests turn_enabled_def only_shutdown_def
    by (auto split: option.splits list.splits)
  show "response_ids h' @ msg_ids (handle_requests h') = response_ids h @ msg_ids (handle_requests h)"
    if al: "handle_alive h'"
  proof -
    obtain l where r: "r = Inr l" using al x by (cases r) (auto simp: h'_def worker_turn_def Let_def)
    show ?thesis
    proof (cases msg)
      case None
      then show ?thesis
        using x r loop_step_idle [of U show_dict now _ "handle_process h" l w]
        by (simp add: h'_def worker_turn_def response_ids_def)
    next
      case (Some m)
      then obtain ms where ms: "handle_requests h = m # ms"
        using e by (auto simp: turn_enabled_def split: list.splits)
      then have "only_shutdown [m]" using o by (cases m) simp_all
      from loop_step_ids [OF _ this, of U show_dict now _ "handle_process h" l w] show ?thesis
        using x r Some ms by (cases m) (simp_all add: h'_def worker_turn_def response_ids_def)
    qed
  qed
  show "response_ids h' = response_ids h" if al: "\<not> handle_alive h'"
  proof -
    obtain exc where r: "r = Inl exc" using al x alive by (cases r) (auto simp: h'_def worker_turn_def)
    then obtain m where m: "msg = Some m"
      using x by (cases msg) (auto simp: loop_step_def split: prod.splits)
    then have "only_shutdown [m]"
      using e o by (auto simp: turn_enabled_def only_shutdown_def split: list.splits)
    from loop_step_error [OF _ this, of U show_dict now _ "handle_process h" exc w] show ?thesis
      using x r m by (simp add: h'_def worker_turn_def response_ids_def)
  qed
qed

lemma worker_turn_alive: "handle_alive (worker_turn U show_dict msg now h) \<Longrightarrow> handle_alive h"
  by (simp add: worker_turn_def Let_def split: prod.splits sum.splits)

definition fifo_inv :: "WorkerHandle \<Rightarrow> bool" where
  "fifo_inv h \<longleftrightarrow> only_shutdown (handle_requests h) \<and>
     (handle_alive h \<longrightarrow> delivered_ids h @ response_ids h @ msg_ids (handle_requests h) = handle_sent h) \<and>
     prefix (delivered_ids h @ response_ids h) (handle_sent h)"

lemma fifo_inv_turn:
  assumes I: "fifo_inv h" and e: "turn_enabled msg h"
  shows "fifo_inv (worker_turn U show_dict msg now h)" (is "fifo_inv ?h")
proof -
  have o: "only_shutdown (handle_requests h)" using I by (simp add: fifo_inv_def)
  note T = worker_turn_ids [OF e o, of U show_dict now]
  have alive: "handle_alive h" using e by (simp add: turn_enabled_def)
  show ?thesis
  proof (cases "handle_alive ?h")
    case True
    then have "delivered_ids ?h @ response_ids ?h @ msg_ids (handle_requests ?h) = handle_sent ?h"
      using T(2) I alive by (simp add: fifo_inv_def)
    moreover from this have "prefix (delivered_ids ?h @ response_ids ?h) (handle_sent ?h)"
      by (metis append.assoc prefixI)
    ultimately show ?thesis using T(1) by (simp add: fifo_inv_def)
  next
    case False
    then show ?thesis using T I by (simp add: fifo_inv_def)
  qed
qed

lemma fifo_inv_send: "fifo_inv h \<Longrightarrow> fifo_inv (pool_send call q h)"
  by (auto simp: fifo_inv_def pool_send_def delivered_ids_def response_ids_def)

lemma fifo_inv_receive:
  "fifo_inv h \<Longrightarrow> wp_responses (handle_process h) = r # rs \<Longrightarrow> fifo_inv (pool_receive call r rs h)"
  by (auto simp: fifo_inv_def pool_receive_def delivered_ids_def response_ids_def to_command_response_def)

lemma fifo_inv_shutdown: "fifo_inv h \<Longrightarrow> fifo_inv (pool_shutdown h)"
  by (simp add: fifo_inv_def pool_shutdown_def delivered_ids_def response_ids_def)

lemma fifo_inv_killed: "fifo_inv h \<Longrightarrow> fifo_inv (h\<lparr>handle_alive := False\<rparr>)"
  by (simp add: fifo_inv_def delivered_ids_def response_ids_def)

lemma handle_reachable_fifo:
  "handle_reachable U show_dict serial h \<Longrightarrow> fifo_inv h"
proof (induction rule: handle_reachable.induct)
  case (start h)
  then show ?case
    by (simp add: fifo_inv_def handle_fresh_def delivered_ids_def response_ids_def)
next
  case (step h h')
  from step.hyps(2) step.IH show ?case
    by (cases rule: handle_step.cases)
      (simp_all add: fifo_inv_turn fifo_inv_send fifo_inv_receive fifo_inv_shutdown fifo_inv_killed)
qed

text \<open>Every call that was made waits or is done.\<close>

definition handle_calls :: "WorkerHandle \<Rightarrow> nat set" where
  "handle_calls h = fst ` set (handle_waiting h) \<union> fst ` set (handle_done h)"

definition count_inv :: "WorkerHandle \<Rightarrow> bool" where
  "count_inv h \<longleftrightarrow> length (handle_waiting h) + length (handle_done h) = length (handle_sent h)"

lemma handle_reachable_count: "handle_reachable U show_dict serial h \<Longrightarrow> count_inv h"
proof (induction rule: handle_reachable.induct)
  case (step h h')
  from step.hyps(2) step.IH show ?case
  proof (cases rule: handle_step.cases)
    case (receive call r rs)
    then obtain n where "length (handle_waiting h) = Suc n" by (cases "handle_waiting h") auto
    with receive step.IH show ?thesis by (simp add: count_inv_def pool_receive_def length_remove1)
  qed (simp_all add: count_inv_def pool_send_def pool_shutdown_def)
qed (simp add: count_inv_def handle_fresh_def)

text \<open>Of an alive worker with an empty queue, as many responses are ready as calls wait.\<close>

lemma waiting_is_answered:
  assumes "fifo_inv h" "count_inv h" "handle_alive h" "handle_requests h = []"
  shows "length (wp_responses (handle_process h)) = length (handle_waiting h)"
proof -
  have "length (delivered_ids h @ response_ids h) = length (handle_sent h)"
    using assms(1,3,4) by (auto simp: fifo_inv_def)
  then show ?thesis using assms(2) by (simp add: count_inv_def delivered_ids_def response_ids_def)
qed

definition serial_inv :: "WorkerHandle \<Rightarrow> bool" where
  "serial_inv h \<longleftrightarrow> (\<forall>(n, i, r) \<in> set (handle_done h). resp_request_id r = Some i) \<and>
     (handle_waiting h = [] \<and> response_ids h = [] \<and> (handle_alive h \<longrightarrow> msg_ids (handle_requests h) = []) \<or>
      (\<exists>n i. handle_waiting h = [(n, i)] \<and>
         (response_ids h = [] \<and> (handle_alive h \<longrightarrow> msg_ids (handle_requests h) = [i]) \<or>
          response_ids h = [i] \<and> (handle_alive h \<longrightarrow> msg_ids (handle_requests h) = []))))"

lemma handle_reachable_serial:
  assumes "handle_reachable U show_dict True h"
  shows "serial_inv h"
  using assms
proof (induction rule: handle_reachable.induct)
  case (start h)
  then show ?case by (simp add: serial_inv_def handle_fresh_def response_ids_def)
next
  case (step h h')
  have only: "only_shutdown (handle_requests h)"
    using handle_reachable_fifo [OF step.hyps(1)] by (simp add: fifo_inv_def)
  note I = step.IH [unfolded serial_inv_def]
  from step.hyps(2) show ?case
  proof (cases rule: handle_step.cases)
    case (send call fresh_id request)
    then show ?thesis using I by (auto simp: serial_inv_def pool_send_def response_ids_def)
  next
    case (turn msg now)
    note T = worker_turn_ids [OF turn(2) only, of U show_dict now]
    have alive: "handle_alive h" using turn(2) by (simp add: turn_enabled_def)
    show ?thesis
    proof (cases "handle_alive h'")
      case True
      then have "response_ids h' @ msg_ids (handle_requests h') = response_ids h @ msg_ids (handle_requests h)"
        using T(2) turn(1) by simp
      then show ?thesis
        using I alive turn(1) by (fastforce simp: serial_inv_def append_eq_Cons_conv)
    next
      case False
      then show ?thesis using I alive turn(1) T(3) by (auto simp: serial_inv_def)
    qed
  next
    case (receive call r rs)
    with I show ?thesis
      by (auto simp: serial_inv_def pool_receive_def response_ids_def to_command_response_def)
  next
    case shutdown
    with I show ?thesis by (auto simp: serial_inv_def pool_shutdown_def response_ids_def)
  next
    case killed
    with I show ?thesis by (auto simp: serial_inv_def response_ids_def)
  qed
qed

section \<open>Properties of the pool\<close>

definition ping_request :: "pystr \<Rightarrow> WorkerRequest" where
  "ping_request i = \<lparr>wreq_request_id = i, wreq_command = PING, wreq_args = [], wreq_client_id = None\<rparr>"

definition pong_response :: "pystr \<Rightarrow> WorkerResponse" where
  "pong_response i = \<lparr>wresp_request_id = i, wresp_kind = SIMPLE_STRING, wresp_message = Some (lit ''PONG''),
     wresp_value = None, wresp_integer = None, wresp_error_code = None\<rparr>"

lemma ping_step:
  "wp_persistence w = None \<Longrightarrow> loop_step U show_dict (Some (MsgRequest (ping_request i))) 0 0 w =
     (Inr 0, w\<lparr>wp_responses := wp_responses w @ [pong_response i]\<rparr>)"
  by (simp add: loop_step_def handle_request_def execute_eqs(1) ping_request_def pong_response_def
      to_worker_response_def expiration_cycle_def Let_def del: lit_Cons)

lemma ping_send:
  "i \<noteq> [] \<Longrightarrow> to_worker_request [] \<lparr>req_command = PING, req_args = [], req_request_id = Some i, req_client_id = None\<rparr>
     = ping_request i"
  by (simp add: to_worker_request_def ping_request_def)

lemma reach_send:
  assumes "handle_reachable U show_dict serial h" and "serial \<longrightarrow> handle_waiting h = []"
    and "call \<notin> fst ` set (handle_waiting h) \<union> fst ` set (handle_done h)" and "i \<noteq> []"
  shows "handle_reachable U show_dict serial (pool_send call (ping_request i) h)"
  using handle_reachable.step [OF assms(1) handle_step.send [OF assms(2,3)]] ping_send [OF assms(4)] by metis

lemma reach_ping:
  assumes "handle_reachable U show_dict serial h" and "handle_requests h = MsgRequest (ping_request i) # ms"
    and "handle_alive h" "wp_running (handle_process h)" "wp_persistence (handle_process h) = None"
    and "handle_last_expiration h = 0"
  shows "handle_reachable U show_dict serial (h\<lparr>handle_requests := ms,
    handle_process := (handle_process h)\<lparr>wp_responses := wp_responses (handle_process h) @ [pong_response i]\<rparr>,
    handle_last_expiration := 0\<rparr>)"
proof -
  let ?m = "Some (MsgRequest (ping_request i))"
  have "turn_enabled ?m h" using assms(2-4) by (simp add: turn_enabled_def)
  from handle_reachable.step [OF assms(1) handle_step.turn [OF this, of U show_dict serial 0]]
  show ?thesis using ping_step [OF assms(5)] assms(2,6) by (simp add: worker_turn_def)
qed

definition idle_worker :: WorkerProcess where
  "idle_worker = \<lparr>wp_worker_id = lit ''w0'', wp_partition_id = 0, wp_responses = [],
     wp_store = MemoryStore_init (\<lambda>n. of_nat n) None, wp_persistence = None, wp_running = True\<rparr>"

text \<open>
  C17: answers come in the order of the requests. However sends, the worker's loop, receives and
  shutdown interleave, the ids of the answers returned so far are a prefix of the ids sent, also
  when the worker dies; and if a call is made only when no other call waits for the same worker,
  every call returns the answer to its own request.
\<close>
theorem pool_answers_in_order:
  assumes "handle_reachable U show_dict serial h"
  shows "prefix (delivered_ids h) (handle_sent h) \<and>
    (serial \<longrightarrow> (\<forall>(n, i, r) \<in> set (handle_done h). resp_request_id r = Some i))"
proof (intro conjI impI)
  show "prefix (delivered_ids h) (handle_sent h)"
    using handle_reachable_fifo [OF assms] append_prefixD by (auto simp: fifo_inv_def)
  show "\<forall>(n, i, r) \<in> set (handle_done h). resp_request_id r = Some i" if serial
    using handle_reachable_serial assms that by (simp add: serial_inv_def)
qed

theorem pool_answers_in_order_witness:
  "\<exists>h. handle_reachable \<lparr>uni_upper = \<lambda>c. [c], uni_decimal = \<lambda>c. None\<rparr> (\<lambda>_. []) True h \<and> handle_done h \<noteq> [] \<and>
     (\<forall>(n, i, r) \<in> set (handle_done h). resp_request_id r = Some i)"
proof -
  let ?U = "\<lparr>uni_upper = \<lambda>c. [c], uni_decimal = \<lambda>c. None\<rparr>" and ?show = "\<lambda>_ :: (pystr \<times> pystr) list. [] :: pystr"
  let ?h0 = "handle_init idle_worker 0 True"
  let ?h1 = "pool_send 0 (ping_request [97]) ?h0"
  let ?h2 = "?h1\<lparr>handle_requests := [], handle_process := (handle_process ?h1)\<lparr>wp_responses :=
    wp_responses (handle_process ?h1) @ [pong_response [97]]\<rparr>, handle_last_expiration := 0\<rparr>"
  have h0: "handle_reachable ?U ?show True ?h0"
    by (rule handle_reachable.start) (simp add: idle_worker_def)
  have h1: "handle_reachable ?U ?show True ?h1"
    by (rule reach_send [OF h0]) (simp_all add: handle_init_def)
  have h2: "handle_reachable ?U ?show True ?h2"
    by (rule reach_ping [OF h1]) (simp_all add: handle_init_def pool_send_def idle_worker_def)
  have "handle_step ?U ?show True ?h2 (pool_receive (0, [97]) (pong_response [97]) [] ?h2)"
    by (rule handle_step.receive)
      (simp_all add: handle_init_def pool_send_def idle_worker_def ping_request_def)
  note h3 = handle_reachable.step [OF h2 this]
  show ?thesis
    by (rule exI, rule conjI [OF h3])
      (use pool_answers_in_order [OF h3] in \<open>simp add: pool_receive_def\<close>)
qed

text \<open>
  C36: concurrent calls can swap their answers. Two calls of \<open>execute\<close> that wait for the same worker
  both read its one response queue, and nothing ties a response to its call: there is a run in
  which a call returns the answer to another request.
\<close>
theorem pool_answers_mixed_up:
  "\<exists>h. handle_reachable U show_dict False h \<and>
     (\<exists>(n, i, r) \<in> set (handle_done h). resp_request_id r \<noteq> Some i)"
proof -
  let ?h0 = "handle_init idle_worker 0 True"
  let ?h1 = "pool_send 0 (ping_request [97]) ?h0"
  let ?h2 = "pool_send 1 (ping_request [98]) ?h1"
  let ?h3 = "?h2\<lparr>handle_requests := [MsgRequest (ping_request [98])], handle_process :=
    (handle_process ?h2)\<lparr>wp_responses := wp_responses (handle_process ?h2) @ [pong_response [97]]\<rparr>,
    handle_last_expiration := 0\<rparr>"
  have h0: "handle_reachable U show_dict False ?h0"
    by (rule handle_reachable.start) (simp add: idle_worker_def)
  have h1: "handle_reachable U show_dict False ?h1"
    by (rule reach_send [OF h0]) (simp_all add: handle_init_def)
  have h2: "handle_reachable U show_dict False ?h2"
    by (rule reach_send [OF h1]) (simp_all add: handle_init_def pool_send_def)
  have h3: "handle_reachable U show_dict False ?h3"
    by (rule reach_ping [OF h2]) (simp_all add: handle_init_def pool_send_def idle_worker_def)
  have "handle_step U show_dict False ?h3 (pool_receive (1, [98]) (pong_response [97]) [] ?h3)"
    by (rule handle_step.receive)
      (simp_all add: handle_init_def pool_send_def idle_worker_def ping_request_def)
  note h4 = handle_reachable.step [OF h3 this]
  show ?thesis
    by (rule exI, rule conjI [OF h4])
      (simp add: pool_receive_def handle_init_def pool_send_def to_command_response_def pong_response_def)
qed

text \<open>
  C29: what the way through a worker process keeps of a response. What the client is sent is what it
  would be sent for the response itself, except for an array: its values are lost and the client is
  sent an empty array, so that MGET and KEYS never return anything with worker processes.
\<close>
theorem pool_transport:
  "serialize_response (to_command_response (to_worker_response rid response)) =
     (if resp_kind response = ARRAY then Inr (lit ''*0'' @ crlf) else serialize_response response)"
proof (cases "resp_kind response")
  case ARRAY
  then show ?thesis
    by (simp add: serialize_response_def to_command_response_def to_worker_response_def
        py_format_int_def py_str_int_def nat_digits.simps)
qed (simp_all add: serialize_response_def to_command_response_def to_worker_response_def cong: option.case_cong)

section \<open>Separate logs\<close>

text \<open>Two workers never share a log file, whatever the configured path.\<close>

lemma aof_name_for_worker_inject:
  "aof_name_for_worker name a = aof_name_for_worker name b \<longleftrightarrow> a = b"
  by (simp add: aof_name_for_worker_def Let_def)

lemma nat_digits_inject: "nat_digits m = nat_digits n \<longleftrightarrow> m = n"
  using nat_digits_props [of m] nat_digits_props [of n] by metis

lemma pool_worker_id_inject: "pool_worker_id i = pool_worker_id j \<longleftrightarrow> i = j"
  by (simp add: pool_worker_id_def py_str_int_def nat_digits_inject)

lemma distinct_pool_worker_ids: "distinct (pool_worker_ids n)"
  by (simp add: pool_worker_ids_def distinct_map inj_on_def pool_worker_id_inject)

end
