(* ===== verification/Worker.thy ===== *)
theory Worker
  imports Commands
begin

text \<open>
  The in-process worker of src/src/worker.py: a store behind a running flag and a counter of
  requests in flight. The async methods of the code run their synchronous counterparts and are
  the same functions here. A worker is generic in its store, as in the code; its properties are
  stated for the store of theory Store.
\<close>

section \<open>The worker\<close>

record 's StoreWorker =
  worker_id :: pystr
  worker_partition_id :: int
  worker_store :: 's
  worker_running :: bool
  worker_in_flight :: int

definition StoreWorker_init :: "pystr \<Rightarrow> int \<Rightarrow> 's \<Rightarrow> 's StoreWorker" where
  "StoreWorker_init wid part store = \<lparr>worker_id = wid, worker_partition_id = part,
     worker_store = store, worker_running = False, worker_in_flight = 0\<rparr>"

definition worker_start :: "'s StoreWorker \<Rightarrow> 's StoreWorker" where
  "worker_start w = w\<lparr>worker_running := True\<rparr>"

definition worker_stop :: "'s StoreWorker \<Rightarrow> 's StoreWorker" where
  "worker_stop w = w\<lparr>worker_running := False\<rparr>"

definition ensure_started :: "'s StoreWorker \<Rightarrow> py_exn + unit" where
  "ensure_started w = (if \<not> worker_running w then
     Inl (RuntimeError (lit ''Worker '' @ worker_id w @ lit '' is not running'')) else Inr ())"

text \<open>The \<open>finally\<close> clause runs whether or not the command raised.\<close>

definition worker_execute ::
    "unicode_db \<Rightarrow> 's StoreInterface \<Rightarrow> CommandRequest \<Rightarrow> 's StoreWorker \<Rightarrow>
     (py_exn + CommandResponse) \<times> 's StoreWorker" where
  "worker_execute U ops request w =
     (case ensure_started w of
        Inl e \<Rightarrow> (Inl e, w)
      | Inr _ \<Rightarrow>
          let w1 = w\<lparr>worker_in_flight := worker_in_flight w + 1\<rparr>;
              (_, s1) = op_process_expirations ops None (worker_store w1);
              (result, s2) = execute_command U ops request s1;
              w2 = w1\<lparr>worker_store := s2\<rparr>
          in (result, w2\<lparr>worker_in_flight := worker_in_flight w2 - 1\<rparr>))"

definition run_expiration_cycle ::
    "'s StoreInterface \<Rightarrow> rat option \<Rightarrow> 's StoreWorker \<Rightarrow> int \<times> 's StoreWorker" where
  "run_expiration_cycle ops now w =
     (let (n, s1) = op_process_expirations ops now (worker_store w) in (n, w\<lparr>worker_store := s1\<rparr>))"

definition worker_snapshot ::
    "'s StoreInterface \<Rightarrow> 's StoreWorker \<Rightarrow> (pystr \<times> pystr) list \<times> 's StoreWorker" where
  "worker_snapshot ops w =
     (let (d, s1) = op_snapshot ops (worker_store w) in (d, w\<lparr>worker_store := s1\<rparr>))"

definition worker_stats :: "'s StoreWorker \<Rightarrow> WorkerStats" where
  "worker_stats w = \<lparr>stats_worker_id = worker_id w, stats_partition_id = worker_partition_id w,
     stats_in_flight = worker_in_flight w, stats_queued = 0\<rparr>"

section \<open>Executing\<close>

lemma worker_execute_running:
  "worker_running w \<Longrightarrow> worker_execute U ops r w =
     (let x = execute_command U ops r (snd (op_process_expirations ops None (worker_store w)))
      in (fst x, w\<lparr>worker_store := snd x\<rparr>))"
  by (simp add: worker_execute_def ensure_started_def Let_def case_prod_beta)

lemma worker_execute_stopped:
  "\<not> worker_running w \<Longrightarrow> worker_execute U ops r w =
     (Inl (RuntimeError (lit ''Worker '' @ worker_id w @ lit '' is not running'')), w)"
  by (simp add: worker_execute_def ensure_started_def)

text \<open>A worker is well formed when its store is and nothing is in flight between requests.\<close>

definition worker_inv :: "MemoryStore StoreWorker \<Rightarrow> bool" where
  "worker_inv w \<longleftrightarrow> store_inv (worker_store w) \<and> worker_in_flight w = 0"

lemma worker_execute_inv:
  assumes "worker_inv w"
  shows "worker_inv (snd (worker_execute U memory_store_ops r w))"
proof (cases "worker_running w")
  case True
  have "store_inv (snd (op_process_expirations memory_store_ops None (worker_store w)))"
    using assms memory_store.invar_process by (simp add: worker_inv_def)
  from memory_store.execute_invar [OF this] True assms show ?thesis
    by (simp add: worker_execute_running worker_inv_def Let_def)
next
  case False
  with assms show ?thesis by (simp add: worker_execute_stopped)
qed

lemma worker_execute_keeps:
  "worker_id (snd (worker_execute U ops r w)) = worker_id w \<and>
   worker_running (snd (worker_execute U ops r w)) = worker_running w \<and>
   worker_in_flight (snd (worker_execute U ops r w)) = worker_in_flight w"
  by (cases "worker_running w") (simp_all add: worker_execute_running worker_execute_stopped Let_def)

section \<open>The contract\<close>

text \<open>
  What the runtime relies on: a started worker takes every request until it is stopped, answers with
  the request's id, raises \<open>OverflowError\<close> at most, and keeps its name and its count of requests
  in flight; a snapshot shows what the worker then holds, and only what it held.
\<close>

locale worker_contract =
  fixes ops :: "'w WorkerInterface"
    and invar :: "'w \<Rightarrow> bool"
    and running :: "'w \<Rightarrow> bool"
    and holding :: "'w \<Rightarrow> pystr \<rightharpoonup> pystr"
  assumes invar_start: "invar w \<Longrightarrow> invar (op_start ops w)"
    and running_start: "running (op_start ops w)"
    and holding_start: "holding (op_start ops w) = holding w"
    and invar_stop: "invar w \<Longrightarrow> invar (op_stop ops w)"
    and running_stop: "\<not> running (op_stop ops w)"
    and execute_stopped: "\<not> running w \<Longrightarrow> op_execute ops r w =
      (Inl (RuntimeError (lit ''Worker '' @ op_worker_id ops w @ lit '' is not running'')), w)"
    and invar_execute: "invar w \<Longrightarrow> invar (snd (op_execute ops r w))"
    and running_execute: "running (snd (op_execute ops r w)) = running w"
    and id_execute: "op_worker_id ops (snd (op_execute ops r w)) = op_worker_id ops w"
    and execute_raises: "invar w \<Longrightarrow> running w \<Longrightarrow> fst (op_execute ops r w) = Inl e \<Longrightarrow> e = OverflowError"
    and execute_id: "fst (op_execute ops r w) = Inr resp \<Longrightarrow> resp_request_id resp = req_request_id r"
    and invar_cycle: "invar w \<Longrightarrow> invar (snd (op_run_expiration_cycle ops t w))"
    and snapshot_holding: "invar w \<Longrightarrow>
      map_of (fst (op_worker_snapshot ops w)) = holding (snd (op_worker_snapshot ops w))"
    and snapshot_le: "invar w \<Longrightarrow> holding (snd (op_worker_snapshot ops w)) \<subseteq>\<^sub>m holding w"
    and stats_eq: "invar w \<Longrightarrow> op_stats ops w = \<lparr>stats_worker_id = op_worker_id ops w,
      stats_partition_id = op_partition_id ops w, stats_in_flight = 0, stats_queued = 0\<rparr>"
begin

text \<open>A worker between its start and its stop, after any requests.\<close>

lemma execute_all:
  "invar w \<Longrightarrow> invar (fold (\<lambda>r w. snd (op_execute ops r w)) rs w) \<and>
     running (fold (\<lambda>r w. snd (op_execute ops r w)) rs w) = running w \<and>
     op_worker_id ops (fold (\<lambda>r w. snd (op_execute ops r w)) rs w) = op_worker_id ops w"
  by (induction rs arbitrary: w) (simp_all add: invar_execute running_execute id_execute)

lemma started_never_refuses:
  assumes "invar w"
  shows "fst (op_execute ops r (fold (\<lambda>r w. snd (op_execute ops r w)) rs (op_start ops w))) \<noteq> Inl (RuntimeError x)"
  using execute_all [OF invar_start [OF assms], of rs] running_start [of w] execute_raises by blast

lemma stopped_always_refuses:
  "\<exists>x. fst (op_execute ops r (op_stop ops w)) = Inl (RuntimeError x)"
  using execute_stopped [OF running_stop] by simp

end

definition worker_ops :: "unicode_db \<Rightarrow> 's StoreInterface \<Rightarrow> 's StoreWorker WorkerInterface" where
  "worker_ops U ops = \<lparr>op_worker_id = worker_id, op_partition_id = worker_partition_id,
     op_start = worker_start, op_stop = worker_stop, op_execute = worker_execute U ops,
     op_run_expiration_cycle = run_expiration_cycle ops, op_worker_snapshot = worker_snapshot ops,
     op_stats = worker_stats\<rparr>"

text \<open>
  The one command that raises, on the store \<open>s\<close> it meets: EXPIRE of a key that is found, with a
  number beyond the range of a double or a deadline too far ahead for the timing wheel.
\<close>

definition overflowing_expire :: "unicode_db \<Rightarrow> CommandRequest \<Rightarrow> MemoryStore \<Rightarrow> bool" where
  "overflowing_expire U r s \<longleftrightarrow> req_command r = EXPIRE \<and> length (req_args r) = 2 \<and>
     content (swept s) (req_args r ! 0) \<noteq> None \<and>
     (\<exists>n. py_int U (req_args r ! 1) = Inr n \<and>
        (2 ^ 1024 - 2 ^ 970 \<le> n \<or> 0 < n \<and> deadline_too_far (swept s) n))"

lemma execute_only_overflow:
  assumes s: "store_inv s" and x: "execute_command U memory_store_ops r s = (Inl e, s')"
  shows "e = OverflowError \<and> overflowing_expire U r s"
proof -
  have "fst (execute_command U memory_store_ops r s) = Inl e" using x by simp
  moreover have "parse_ttl_seconds U z = Some n \<longleftrightarrow> py_int U z = Inr n" for z n
    by (simp add: parse_ttl_seconds_def split: sum.split)
  ultimately show ?thesis
    using memory_store.execute_raises_iff [OF s, of U r e]
    unfolding overflowing_expire_def float_int_limit_def by blast
qed

lemma worker_execute_raises:
  assumes "worker_inv w" "worker_running w" "fst (worker_execute U memory_store_ops r w) = Inl e"
  shows "e = OverflowError"
proof -
  let ?s = "snd (op_process_expirations memory_store_ops None (worker_store w))"
  have "store_inv ?s" using assms(1) memory_store.invar_process by (simp add: worker_inv_def)
  moreover have "fst (execute_command U memory_store_ops r ?s) = Inl e"
    using assms(2,3) by (simp add: worker_execute_running Let_def)
  ultimately show ?thesis using execute_only_overflow by (metis prod.collapse)
qed

lemma worker_execute_id:
  assumes "fst (worker_execute U ops r w) = Inr resp"
  shows "resp_request_id resp = req_request_id r"
proof -
  let ?x = "execute_command U ops r (snd (op_process_expirations ops None (worker_store w)))"
  have "fst ?x = Inr resp" using assms by (cases "worker_running w")
    (simp_all add: worker_execute_running worker_execute_stopped Let_def)
  then show ?thesis using execute_response_ok [of U ops r _ resp "snd ?x"] by (metis prod.collapse)
qed

interpretation store_worker: worker_contract "worker_ops U memory_store_ops" worker_inv worker_running
  "\<lambda>w. content (worker_store w)" for U
proof (unfold_locales, unfold worker_ops_def, simp_all only: WorkerInterface.simps)
  fix w :: "MemoryStore StoreWorker" and r e t
  show "worker_inv (snd (worker_execute U memory_store_ops r w))" if "worker_inv w" using that by (rule worker_execute_inv)
  show "worker_running w \<Longrightarrow> worker_inv w \<Longrightarrow> fst (worker_execute U memory_store_ops r w) = Inl e \<Longrightarrow> e = OverflowError"
    using worker_execute_raises by blast
  show "worker_inv (snd (run_expiration_cycle memory_store_ops t w))" if "worker_inv w"
    using that memory_store.invar_process by (simp add: worker_inv_def run_expiration_cycle_def case_prod_beta)
qed (auto simp: worker_inv_def worker_start_def worker_stop_def worker_stats_def worker_execute_stopped
      worker_execute_keeps worker_snapshot_def case_prod_beta memory_store.snapshot_eq swept_sub worker_execute_id)

section \<open>Properties of the worker\<close>

text \<open>
  The worker is transparent. A running worker answers what \<open>execute_command\<close> answers on its
  store after one more expiration pass and keeps the store's invariant, its identity, its running
  flag and its in-flight count, also when the command raises; a worker that is not running raises
  and does nothing.
\<close>
theorem worker_execute_spec:
  assumes "worker_inv w"
  shows "worker_inv (snd (worker_execute U memory_store_ops r w)) \<and>
    worker_id (snd (worker_execute U memory_store_ops r w)) = worker_id w \<and>
    (if worker_running w then
       fst (worker_execute U memory_store_ops r w) =
         fst (execute_command U memory_store_ops r (swept (worker_store w))) \<and>
       worker_store (snd (worker_execute U memory_store_ops r w)) =
         snd (execute_command U memory_store_ops r (swept (worker_store w))) \<and>
       worker_running (snd (worker_execute U memory_store_ops r w))
     else worker_execute U memory_store_ops r w =
       (Inl (RuntimeError (lit ''Worker '' @ worker_id w @ lit '' is not running'')), w))"
proof -
  have "snd (op_process_expirations memory_store_ops None (worker_store w)) = swept (worker_store w)"
    using assms memory_store.process_eq by (simp add: worker_inv_def)
  then show ?thesis
    using worker_execute_inv [OF assms, of U r] worker_execute_keeps [of U memory_store_ops r w]
    by (simp add: worker_execute_running worker_execute_stopped Let_def)
qed

theorem worker_execute_spec_witness:
  "worker_inv (snd (worker_execute \<lparr>uni_upper = \<lambda>c. [c], uni_decimal = \<lambda>c. None\<rparr> memory_store_ops
     (mk_request GET [lit ''k'']) (worker_start (StoreWorker_init (lit ''w0'') 0 demo_store))))"
proof -
  have "worker_inv (worker_start (StoreWorker_init (lit ''w0'') 0 demo_store))"
    using demo_store_inv by (simp add: worker_inv_def worker_start_def StoreWorker_init_def)
  from worker_execute_spec [OF this] show ?thesis by blast
qed

end
