(* ===== verification/Sha256.thy ===== *)
theory Sha256
  imports Prelude "HOL-Library.Word"
begin

text \<open>
  The two library functions behind every hash of the program: \<open>str.encode("utf-8")\<close> and
  \<open>hashlib.sha256(...).digest()\<close>, with \<open>int.from_bytes(..., "big")\<close>. Bytes are \<^typ>\<open>8 word\<close>,
  and SHA-256 is the function of FIPS 180-4 on \<^typ>\<open>32 word\<close>, whose addition wraps.
\<close>

unbundle bit_operations_syntax

declare map_of_eq_Some_iff [simp del] Some_eq_map_of_iff [simp del] map_of_is_SomeI [simp del]

section \<open>UTF-8\<close>

text \<open>A lone surrogate cannot be encoded; such a string exists in Python and encoding it raises.\<close>

definition utf8_char :: "nat \<Rightarrow> py_exn + 8 word list" where
  "utf8_char c =
     (if c < 128 then Inr [of_nat c]
      else if c < 2048 then Inr [of_nat (192 + c div 64), of_nat (128 + c mod 64)]
      else if 55296 \<le> c \<and> c \<le> 57343 then Inl UnicodeEncodeError
      else if c < 65536 then
        Inr [of_nat (224 + c div 4096), of_nat (128 + c div 64 mod 64), of_nat (128 + c mod 64)]
      else Inr [of_nat (240 + c div 262144), of_nat (128 + c div 4096 mod 64),
                of_nat (128 + c div 64 mod 64), of_nat (128 + c mod 64)])"

primrec utf8_encode :: "pystr \<Rightarrow> py_exn + 8 word list" where
  "utf8_encode [] = Inr []"
| "utf8_encode (c # cs) =
     (case utf8_char c of Inl e \<Rightarrow> Inl e
      | Inr bs \<Rightarrow> (case utf8_encode cs of Inl e \<Rightarrow> Inl e | Inr rest \<Rightarrow> Inr (bs @ rest)))"

definition has_surrogate :: "pystr \<Rightarrow> bool" where
  "has_surrogate s \<longleftrightarrow> (\<exists>c \<in> set s. 55296 \<le> c \<and> c \<le> 57343)"

lemma utf8_encode_Inl_iff: "(\<exists>e. utf8_encode s = Inl e) \<longleftrightarrow> has_surrogate s"
  by (induction s) (auto simp: has_surrogate_def utf8_char_def split: sum.splits if_splits)

lemma utf8_encode_Inr_iff: "(\<exists>b. utf8_encode s = Inr b) \<longleftrightarrow> \<not> has_surrogate s"
  using utf8_encode_Inl_iff [of s] by (cases "utf8_encode s") auto

lemma utf8_encode_exn: "utf8_encode s = Inl e \<Longrightarrow> e = UnicodeEncodeError"
  by (induction s) (auto simp: utf8_char_def split: sum.splits if_splits)

section \<open>SHA-256\<close>

definition rotr32 :: "nat \<Rightarrow> 32 word \<Rightarrow> 32 word" where
  "rotr32 n x = drop_bit n x OR push_bit (32 - n) x"

text \<open>
  The round constants, the first 32 bits of the fractional parts of the cube roots of the first
  64 primes, and the initial state, those of the square roots of the first eight, in decimal.
\<close>

definition sha_k :: "32 word list" where
  "sha_k = [
  1116352408, 1899447441, 3049323471, 3921009573, 961987163, 1508970993, 2453635748, 2870763221,
   3624381080, 310598401, 607225278, 1426881987, 1925078388, 2162078206, 2614888103, 3248222580,
   3835390401, 4022224774, 264347078, 604807628, 770255983, 1249150122, 1555081692, 1996064986,
   2554220882, 2821834349, 2952996808, 3210313671, 3336571891, 3584528711, 113926993, 338241895,
   666307205, 773529912, 1294757372, 1396182291, 1695183700, 1986661051, 2177026350, 2456956037,
   2730485921, 2820302411, 3259730800, 3345764771, 3516065817, 3600352804, 4094571909, 275423344,
   430227734, 506948616, 659060556, 883997877, 958139571, 1322822218, 1537002063, 1747873779,
   1955562222, 2024104815, 2227730452, 2361852424, 2428436474, 2756734187, 3204031479, 3329325298]"

definition sha_h0 :: "32 word list" where
  "sha_h0 = [
  1779033703, 3144134277, 1013904242, 2773480762, 1359893119, 2600822924, 528734635, 1541459225]"

text \<open>The bytes of a word, most significant first.\<close>

definition be_bytes :: "nat \<Rightarrow> 'a::len word \<Rightarrow> 8 word list" where
  "be_bytes n x = map (\<lambda>i. ucast (drop_bit (8 * (n - 1 - i)) x)) [0..<n]"

definition sha_pad :: "8 word list \<Rightarrow> 8 word list" where
  "sha_pad m = m @ [0x80] @ replicate ((119 - length m mod 64) mod 64) 0 @ 
     be_bytes 8 (of_nat (8 * length m) :: 64 word)"

fun be_words :: "8 word list \<Rightarrow> 32 word list" where
  "be_words (a # b # c # d # r) =
     (push_bit 24 (ucast a) OR push_bit 16 (ucast b) OR push_bit 8 (ucast c) OR ucast d) # be_words r"
| "be_words _ = []"

text \<open>The message schedule, kept with the newest word first.\<close>

primrec sha_extend :: "nat \<Rightarrow> 32 word list \<Rightarrow> 32 word list" where
  "sha_extend 0 w = w"
| "sha_extend (Suc n) w =
     (let x = w ! 14; y = w ! 1;
          s0 = rotr32 7 x XOR rotr32 18 x XOR drop_bit 3 x;
          s1 = rotr32 17 y XOR rotr32 19 y XOR drop_bit 10 y
      in sha_extend n ((w ! 15 + s0 + w ! 6 + s1) # w))"

fun sha_round :: "32 word \<times> 32 word \<Rightarrow> 32 word list \<Rightarrow> 32 word list" where
  "sha_round (k, w) [a, b, c, d, e, f, g, h] =
     (let s1 = rotr32 6 e XOR rotr32 11 e XOR rotr32 25 e;
          ch = (e AND f) XOR (NOT e AND g);
          t1 = h + s1 + ch + k + w;
          s0 = rotr32 2 a XOR rotr32 13 a XOR rotr32 22 a;
          maj = (a AND b) XOR (a AND c) XOR (b AND c)
      in [t1 + s0 + maj, a, b, c, d + t1, e, f, g])"
| "sha_round _ hs = hs"

definition sha_block :: "8 word list \<Rightarrow> 32 word list \<Rightarrow> 32 word list" where
  "sha_block block hs =
     map2 (+) hs (fold sha_round (zip sha_k (rev (sha_extend 48 (rev (be_words block))))) hs)"

fun sha_chunks :: "8 word list \<Rightarrow> 8 word list list" where
  "sha_chunks m = (if length m < 64 then [] else take 64 m # sha_chunks (drop 64 m))"

declare sha_chunks.simps [simp del]

definition sha256 :: "8 word list \<Rightarrow> 8 word list" where
  "sha256 m = concat (map (\<lambda>h. be_bytes 4 h) (fold sha_block (sha_chunks (sha_pad m)) sha_h0))"

text \<open>\<open>int.from_bytes(b, byteorder="big", signed=False)\<close>.\<close>

definition from_bytes_big :: "8 word list \<Rightarrow> int" where
  "from_bytes_big bs = foldl (\<lambda>a b. 256 * a + uint b) 0 bs"

lemma length_be_bytes [simp]: "length (be_bytes n x) = n"
  by (simp add: be_bytes_def)

lemma length_sha_round: "length (sha_round p hs) = length hs"
  by (cases "(p, hs)" rule: sha_round.cases) (simp_all add: Let_def)

lemma length_sha_rounds: "length (fold sha_round ps hs) = length hs"
  by (induction ps arbitrary: hs) (simp_all add: length_sha_round)

lemma length_sha_block: "length (sha_block b hs) = length hs"
  by (simp add: sha_block_def length_sha_rounds)

lemma length_sha_blocks: "length (fold sha_block bs hs) = length hs"
  by (induction bs arbitrary: hs) (simp_all add: length_sha_block)

text \<open>A digest has 32 bytes, so the slices the code takes are never short.\<close>

lemma length_sha256: "length (sha256 m) = 32"
proof -
  have "length (concat (map (\<lambda>h. be_bytes 4 h) hs)) = 4 * length hs" for hs :: "32 word list"
    by (induction hs) simp_all
  then show ?thesis by (simp add: sha256_def length_sha_blocks sha_h0_def)
qed

text \<open>Padding: whole blocks, at least one.\<close>

lemma length_sha_pad: "length (sha_pad m) mod 64 = 0 \<and> 64 \<le> length (sha_pad m)"
proof -
  have pad: "length (sha_pad m) = length m + (119 - length m mod 64) mod 64 + 9"
    by (simp add: sha_pad_def)
  define r where "r = length m mod 64"
  have "r < 64" by (simp add: r_def)
  moreover have "119 - r = (55 - r) + 64" if "r \<le> 55" using that by simp
  ultimately have "(119 - r) mod 64 = (if r \<le> 55 then 55 - r else 119 - r)"
    by (cases "r \<le> 55") (simp_all only: mod_add_self2, simp_all)
  then have "(r + (119 - r) mod 64 + 9) mod 64 = 0" by (simp add: r_def)
  then have "(length m + (119 - r) mod 64 + 9) mod 64 = 0"
    unfolding r_def by (metis mod_add_left_eq)
  moreover have "0 < length (sha_pad m)" using pad by simp
  ultimately show ?thesis
    using pad unfolding r_def by (metis mod_less not_le not_less_zero less_numeral_extra(3))
qed

lemma from_bytes_big_bounds: "0 \<le> from_bytes_big bs \<and> from_bytes_big bs < 256 ^ length bs"
proof (induction bs rule: rev_induct)
  case (snoc b bs)
  have "0 \<le> uint b" "uint b < 256" using uint_lt2p [of b] by simp_all
  moreover have "from_bytes_big (bs @ [b]) = 256 * from_bytes_big bs + uint b"
    by (simp add: from_bytes_big_def)
  ultimately show ?case using snoc by simp
qed (simp add: from_bytes_big_def)

end
