(* ===== verification/Router.thy ===== *)
theory Router
  imports Sha256 Interfaces
begin

text \<open>
  The routing of src/src/router.py: a key's partition is the first eight bytes of its SHA-256
  digest modulo the number of workers, and a request goes to its key's partition or, without a
  key, to the first worker. The contract the runtime relies on is a locale, interpreted here.
\<close>

section \<open>The router\<close>

record DeterministicHashRouter =
  router_worker_ids :: "pystr list"
  router_partition_count :: int
  default_worker :: pystr

definition DeterministicHashRouter_init :: "pystr list \<Rightarrow> py_exn + DeterministicHashRouter" where
  "DeterministicHashRouter_init worker_ids =
     (if worker_ids = [] then Inl ValueError
      else Inr \<lparr>router_worker_ids = worker_ids,
                router_partition_count = int (length worker_ids),
                default_worker = worker_ids ! 0\<rparr>)"

definition stable_partition_for_key :: "pystr \<Rightarrow> int \<Rightarrow> py_exn + int" where
  "stable_partition_for_key key partition_count =
     (case utf8_encode key of
        Inl e \<Rightarrow> Inl e
      | Inr bytes \<Rightarrow>
          let digest = sha256 bytes; hash_value = from_bytes_big (take 8 digest) in
          if partition_count = 0 then Inl ZeroDivisionError
          else Inr (hash_value mod partition_count))"

definition route_key :: "DeterministicHashRouter \<Rightarrow> pystr \<Rightarrow> py_exn + KeyRoute" where
  "route_key router key =
     (case stable_partition_for_key key (router_partition_count router) of
        Inl e \<Rightarrow> Inl e
      | Inr part \<Rightarrow>
          if 0 \<le> part \<and> part < int (length (router_worker_ids router)) then
            Inr \<lparr>partition_id = part, route_worker_id = router_worker_ids router ! nat part\<rparr>
          else Inl IndexError)"

definition extract_key_from_request :: "CommandRequest \<Rightarrow> pystr option" where
  "extract_key_from_request request =
     (if req_command request \<in> {SET, GET, DEL, EXPIRE, TTL} \<and> req_args request \<noteq> []
      then Some (req_args request ! 0) else None)"

definition route_request :: "DeterministicHashRouter \<Rightarrow> CommandRequest \<Rightarrow> py_exn + KeyRoute" where
  "route_request router request =
     (case extract_key_from_request request of
        None \<Rightarrow> Inr \<lparr>partition_id = 0, route_worker_id = default_worker router\<rparr>
      | Some key \<Rightarrow> route_key router key)"

section \<open>The contract\<close>

text \<open>The router as the protocol asks for it.\<close>

definition hash_router_ops :: "DeterministicHashRouter RouterInterface" where
  "hash_router_ops = \<lparr>op_route_key = route_key, op_route_request = route_request\<rparr>"

definition router_inv :: "DeterministicHashRouter \<Rightarrow> bool" where
  "router_inv r \<longleftrightarrow> router_worker_ids r \<noteq> [] \<and>
     router_partition_count r = int (length (router_worker_ids r)) \<and>
     default_worker r = router_worker_ids r ! 0"

lemma router_init_inv:
  "DeterministicHashRouter_init ws = Inr r \<Longrightarrow> router_inv r \<and> router_worker_ids r = ws"
  by (auto simp: DeterministicHashRouter_init_def router_inv_def split: if_splits)

text \<open>
  A router names a worker it knows, at that worker's own index, and only a key that cannot be
  encoded has no route.
\<close>

locale key_router =
  fixes ops :: "'r RouterInterface"
    and workers :: "'r \<Rightarrow> pystr list"
    and invar :: "'r \<Rightarrow> bool"
  assumes workers_nonempty: "invar r \<Longrightarrow> workers r \<noteq> []"
    and owner_in_range: "invar r \<Longrightarrow> op_route_key ops r k = Inr kr \<Longrightarrow>
      0 \<le> partition_id kr \<and> partition_id kr < int (length (workers r)) \<and>
      route_worker_id kr = workers r ! nat (partition_id kr)"
    and owner_error: "invar r \<Longrightarrow> (\<exists>e. op_route_key ops r k = Inl e) \<longleftrightarrow> has_surrogate k"
    and route_by_key: "invar r \<Longrightarrow> extract_key_from_request q = Some k \<Longrightarrow> op_route_request ops r q = op_route_key ops r k"
    and route_keyless: "invar r \<Longrightarrow> extract_key_from_request q = None \<Longrightarrow>
      op_route_request ops r q = Inr \<lparr>partition_id = 0, route_worker_id = workers r ! 0\<rparr>"
begin

lemma route_in_range:
  assumes "invar r" and "op_route_request ops r q = Inr kr"
  shows "0 \<le> partition_id kr \<and> partition_id kr < int (length (workers r)) \<and>
    route_worker_id kr = workers r ! nat (partition_id kr)"
  using assms workers_nonempty owner_in_range route_by_key route_keyless
  by (cases "extract_key_from_request q") auto

lemma route_worker_mem: "invar r \<Longrightarrow> op_route_request ops r q = Inr kr \<Longrightarrow> route_worker_id kr \<in> set (workers r)"
  using route_in_range [of r q kr] by (auto intro!: nth_mem)

lemma route_error:
  "invar r \<Longrightarrow> (\<exists>e. op_route_request ops r q = Inl e) \<longleftrightarrow>
     (\<exists>k. extract_key_from_request q = Some k \<and> has_surrogate k)"
  using owner_error route_by_key route_keyless by (cases "extract_key_from_request q") auto

end

lemma route_key_cases:
  assumes "router_inv r"
  shows "route_key r k = (case utf8_encode k of
      Inl e \<Rightarrow> Inl e
    | Inr bytes \<Rightarrow>
        let p = from_bytes_big (take 8 (sha256 bytes)) mod int (length (router_worker_ids r)) in
        Inr \<lparr>partition_id = p, route_worker_id = router_worker_ids r ! nat p\<rparr>)"
proof -
  have n: "0 < int (length (router_worker_ids r))" using assms by (simp add: router_inv_def)
  show ?thesis
    using assms n
    by (simp add: route_key_def stable_partition_for_key_def router_inv_def Let_def split: sum.split)
qed

interpretation router: key_router hash_router_ops router_worker_ids router_inv
  rewrites "op_route_request hash_router_ops = route_request" and "op_route_key hash_router_ops = route_key"
proof -
  have ops: "op_route_request hash_router_ops = route_request" "op_route_key hash_router_ops = route_key"
    by (simp_all add: hash_router_ops_def)
  then show "op_route_request hash_router_ops = route_request" "op_route_key hash_router_ops = route_key" by blast+
  show "key_router hash_router_ops router_worker_ids router_inv"
  proof (unfold_locales, unfold ops)
    fix r k kr q
    assume r: "router_inv r"
    show "router_worker_ids r \<noteq> []" using r by (simp add: router_inv_def)
    show "0 \<le> partition_id kr \<and> partition_id kr < int (length (router_worker_ids r)) \<and>
        route_worker_id kr = router_worker_ids r ! nat (partition_id kr)"
      if "route_key r k = Inr kr"
      using that r by (auto simp: route_key_cases Let_def router_inv_def split: sum.splits)
    show "(\<exists>e. route_key r k = Inl e) \<longleftrightarrow> has_surrogate k"
      by (auto simp: route_key_cases [OF r] Let_def simp flip: utf8_encode_Inl_iff split: sum.splits)
    show "route_request r q = route_key r k" if "extract_key_from_request q = Some k"
      using that by (simp add: route_request_def)
    show "route_request r q = Inr \<lparr>partition_id = 0, route_worker_id = router_worker_ids r ! 0\<rparr>"
      if "extract_key_from_request q = None"
      using that r by (simp add: route_request_def router_inv_def)
  qed
qed

section \<open>Properties of routing\<close>

text \<open>
  C26: routing is total and in range. For a router over any nonempty list of workers, a request
  is routed to a worker of the list, at the index it reports as the partition, unless its key
  contains a lone surrogate, which is the only error.
\<close>
theorem route_request_in_range:
  assumes "DeterministicHashRouter_init ws = Inr r"
  shows "case route_request r q of
      Inr kr \<Rightarrow> 0 \<le> partition_id kr \<and> partition_id kr < int (length ws) \<and>
        route_worker_id kr = ws ! nat (partition_id kr)
    | Inl e \<Rightarrow> e = UnicodeEncodeError \<and>
        (\<exists>k. extract_key_from_request q = Some k \<and> has_surrogate k)"
proof (cases "route_request r q")
  case (Inr kr)
  with router.route_in_range [of r q kr] router_init_inv [OF assms] show ?thesis by simp
next
  case (Inl e)
  note r = router_init_inv [OF assms]
  have "\<exists>k. extract_key_from_request q = Some k \<and> has_surrogate k"
    using router.route_error [of r q] r Inl by blast
  moreover have "e = UnicodeEncodeError"
    using Inl r utf8_encode_exn
    by (auto simp: route_request_def route_key_cases Let_def split: option.splits sum.splits)
  ultimately show ?thesis using Inl by simp
qed

theorem route_request_in_range_witness:
  "\<exists>kr. route_request \<lparr>router_worker_ids = [lit ''w0'', lit ''w1''], router_partition_count = 2,
      default_worker = lit ''w0''\<rparr> (mk_request GET [lit ''user:1'']) = Inr kr \<and>
    0 \<le> partition_id kr \<and> partition_id kr < 2"
proof -
  let ?r = "\<lparr>router_worker_ids = [lit ''w0'', lit ''w1''], router_partition_count = 2,
      default_worker = lit ''w0''\<rparr>"
  let ?q = "mk_request GET [lit ''user:1'']"
  have init: "DeterministicHashRouter_init [lit ''w0'', lit ''w1''] = Inr ?r"
    by (simp add: DeterministicHashRouter_init_def)
  have "\<not> has_surrogate (lit ''user:1'')" by (simp add: has_surrogate_def)
  moreover have "extract_key_from_request ?q = Some (lit ''user:1'')"
    by (simp add: extract_key_from_request_def)
  ultimately show ?thesis
    using route_request_in_range [OF init, of ?q] by (cases "route_request ?r ?q") auto
qed

text \<open>
  One owner per key. The route of a request with a key depends on the key alone, so every
  SET, GET, DEL, EXPIRE and TTL of one key goes to the same worker, and routers made from the
  same workers agree.
\<close>
theorem route_request_by_key:
  assumes "DeterministicHashRouter_init ws = Inr r" and "DeterministicHashRouter_init ws = Inr r'"
    and "req_command q \<in> {SET, GET, DEL, EXPIRE, TTL}" and "req_command q' \<in> {SET, GET, DEL, EXPIRE, TTL}"
    and "req_args q = k # xs" and "req_args q' = k # ys"
  shows "route_request r q = route_request r' q' \<and> route_request r q = route_key r k"
  using assms by (simp add: route_request_def extract_key_from_request_def)

theorem route_request_by_key_witness:
  "route_request \<lparr>router_worker_ids = [lit ''w0'', lit ''w1''], router_partition_count = 2,
      default_worker = lit ''w0''\<rparr> (mk_request SET [lit ''a'', lit ''1'']) =
   route_request \<lparr>router_worker_ids = [lit ''w0'', lit ''w1''], router_partition_count = 2,
      default_worker = lit ''w0''\<rparr> (mk_request GET [lit ''a''])"
proof -
  let ?r = "\<lparr>router_worker_ids = [lit ''w0'', lit ''w1''], router_partition_count = 2,
      default_worker = lit ''w0''\<rparr>"
  have init: "DeterministicHashRouter_init [lit ''w0'', lit ''w1''] = Inr ?r"
    by (simp add: DeterministicHashRouter_init_def)
  from route_request_by_key [OF init init, of "mk_request SET [lit ''a'', lit ''1'']"
      "mk_request GET [lit ''a'']" "lit ''a''" "[lit ''1'']" "[]"]
  show ?thesis by (simp del: lit_Cons)
qed

text \<open>
  Keyless routing. MGET, KEYS, FLUSHALL and PING always go to partition 0, whatever keys
  they name; so with more than one worker an MGET is answered by a worker that need not own its
  keys.
\<close>
theorem route_request_keyless:
  assumes "DeterministicHashRouter_init ws = Inr r" and "req_command q \<in> {MGET, KEYS, FLUSHALL, PING}"
  shows "route_request r q = Inr \<lparr>partition_id = 0, route_worker_id = ws ! 0\<rparr>"
  using router.route_keyless [of r q] router_init_inv [OF assms(1)] assms(2)
  by (auto simp: extract_key_from_request_def)

theorem route_request_keyless_witness:
  "route_request \<lparr>router_worker_ids = [lit ''w0'', lit ''w1''], router_partition_count = 2,
      default_worker = lit ''w0''\<rparr> (mk_request MGET [lit ''a'', lit ''b'']) =
   Inr \<lparr>partition_id = 0, route_worker_id = lit ''w0''\<rparr>"
proof -
  let ?r = "\<lparr>router_worker_ids = [lit ''w0'', lit ''w1''], router_partition_count = 2,
      default_worker = lit ''w0''\<rparr>"
  have init: "DeterministicHashRouter_init [lit ''w0'', lit ''w1''] = Inr ?r"
    by (simp add: DeterministicHashRouter_init_def)
  from route_request_keyless [OF init, of "mk_request MGET [lit ''a'', lit ''b'']"]
  show ?thesis by (simp del: lit_Cons)
qed

end
