(* ===== verification/Countmin.thy ===== *)
theory Countmin
  imports Sha256
begin

text \<open>
  The count-min sketch and the hot-key tracker of src/src/countmin.py.

  The tracker's heap is only pushed to, popped from, measured and asked for its first element, by
  \<open>heapq\<close>, whose contract is that the first element is a smallest one; so the model keeps it as
  the sorted list of its elements. Entries are pairs (count, key), ordered as Python orders
  tuples.
\<close>

section \<open>The sketch\<close>

record CountMinSketch =
  sketch_width :: int
  sketch_depth :: int
  sketch_table :: "int list list"

definition CountMinSketch_init :: "int \<Rightarrow> int \<Rightarrow> CountMinSketch" where
  "CountMinSketch_init width depth = \<lparr>sketch_width = width, sketch_depth = depth,
     sketch_table = replicate (nat depth) (replicate (nat width) 0)\<rparr>"

definition sketch_hash :: "CountMinSketch \<Rightarrow> 8 word list \<Rightarrow> nat \<Rightarrow> py_exn + int" where
  "sketch_hash s key_bytes seed =
     (if seed > 255 then Inl ValueError
      else let digest = sha256 (of_nat seed # key_bytes); val = from_bytes_big (take 4 digest) in
        if sketch_width s = 0 then Inl ZeroDivisionError else Inr (val mod sketch_width s))"

primrec increment_rows ::
    "8 word list \<Rightarrow> nat list \<Rightarrow> CountMinSketch \<Rightarrow> (py_exn + unit) \<times> CountMinSketch" where
  "increment_rows key_bytes [] s = (Inr (), s)"
| "increment_rows key_bytes (row # rows) s =
     (case sketch_hash s key_bytes row of
        Inl e \<Rightarrow> (Inl e, s)
      | Inr col \<Rightarrow>
          if 0 \<le> col \<and> col < int (length (sketch_table s ! row)) then
            increment_rows key_bytes rows
              (s\<lparr>sketch_table := (sketch_table s)[row :=
                 (sketch_table s ! row)[nat col := sketch_table s ! row ! nat col + 1]]\<rparr>)
          else (Inl IndexError, s))"

definition increment :: "pystr \<Rightarrow> CountMinSketch \<Rightarrow> (py_exn + unit) \<times> CountMinSketch" where
  "increment key s =
     (case utf8_encode key of
        Inl e \<Rightarrow> (Inl e, s)
      | Inr key_bytes \<Rightarrow> increment_rows key_bytes [0..<nat (sketch_depth s)] s)"

primrec read_rows :: "CountMinSketch \<Rightarrow> 8 word list \<Rightarrow> nat list \<Rightarrow> py_exn + int list" where
  "read_rows s key_bytes [] = Inr []"
| "read_rows s key_bytes (row # rows) =
     (case sketch_hash s key_bytes row of
        Inl e \<Rightarrow> Inl e
      | Inr col \<Rightarrow>
          if 0 \<le> col \<and> col < int (length (sketch_table s ! row)) then
            map_sum id ((#) (sketch_table s ! row ! nat col)) (read_rows s key_bytes rows)
          else Inl IndexError)"

definition sketch_estimate :: "pystr \<Rightarrow> CountMinSketch \<Rightarrow> py_exn + int" where
  "sketch_estimate key s =
     (case utf8_encode key of
        Inl e \<Rightarrow> Inl e
      | Inr key_bytes \<Rightarrow>
          (case read_rows s key_bytes [0..<nat (sketch_depth s)] of
             Inl e \<Rightarrow> Inl e
           | Inr [] \<Rightarrow> Inl ValueError
           | Inr cells \<Rightarrow> Inr (Min (set cells))))"

section \<open>What the table counts\<close>

text \<open>
  The column of a key in a row, and the invariant: after increments with the keys \<open>ks\<close> every
  cell holds how many of them the row hashes to its column.
\<close>

definition column :: "int \<Rightarrow> nat \<Rightarrow> pystr \<Rightarrow> nat" where
  "column width row key = (case utf8_encode key of Inl _ \<Rightarrow> 0
     | Inr bs \<Rightarrow> nat (from_bytes_big (take 4 (sha256 (of_nat row # bs))) mod width))"

definition collisions :: "int \<Rightarrow> nat \<Rightarrow> nat \<Rightarrow> pystr list \<Rightarrow> int" where
  "collisions width row col ks = int (length (filter (\<lambda>k. column width row k = col) ks))"

definition sketch_counts :: "CountMinSketch \<Rightarrow> pystr list \<Rightarrow> bool" where
  "sketch_counts s ks \<longleftrightarrow> 0 < sketch_width s \<and> 0 < sketch_depth s \<and> sketch_depth s \<le> 256 \<and>
     length (sketch_table s) = nat (sketch_depth s) \<and>
     (\<forall>row < nat (sketch_depth s). length (sketch_table s ! row) = nat (sketch_width s) \<and>
        (\<forall>col < nat (sketch_width s).
           sketch_table s ! row ! col = collisions (sketch_width s) row col ks))"

lemma sketch_countsD:
  assumes "sketch_counts s ks"
  shows "0 < sketch_width s" "0 < sketch_depth s" "sketch_depth s \<le> 256"
    "length (sketch_table s) = nat (sketch_depth s)"
    "row < nat (sketch_depth s) \<Longrightarrow> length (sketch_table s ! row) = nat (sketch_width s)"
    "row < nat (sketch_depth s) \<Longrightarrow> col < nat (sketch_width s) \<Longrightarrow>
       sketch_table s ! row ! col = collisions (sketch_width s) row col ks"
  using assms by (auto simp: sketch_counts_def)

lemma sketch_counts_init:
  "0 < w \<Longrightarrow> 0 < d \<Longrightarrow> d \<le> 256 \<Longrightarrow> sketch_counts (CountMinSketch_init w d) []"
  by (simp add: sketch_counts_def CountMinSketch_init_def collisions_def)

lemma column_less: "0 < w \<Longrightarrow> column w row k < nat w"
  by (auto simp: column_def nat_less_iff split: sum.split)

lemma sketch_hash_column:
  assumes "utf8_encode k = Inr bs" and "row \<le> 255" and "0 < sketch_width s"
  shows "sketch_hash s bs row = Inr (int (column (sketch_width s) row k))"
  using assms by (simp add: sketch_hash_def column_def)

lemma collisions_Cons: "collisions w row col (k # ks) =
    collisions w row col ks + (if column w row k = col then 1 else 0)"
  by (simp add: collisions_def)

text \<open>Incrementing the rows from a given one on.\<close>

definition bump :: "int \<Rightarrow> pystr \<Rightarrow> nat \<Rightarrow> int list \<Rightarrow> int list" where
  "bump w k row cells = cells[column w row k := cells ! column w row k + 1]"

lemma increment_rows_effect:
  assumes k: "utf8_encode k = Inr bs" and w: "0 < sketch_width s" and rows: "n \<le> 256"
    and len: "length (sketch_table s) = n"
      "\<forall>row < n. length (sketch_table s ! row) = nat (sketch_width s)"
  shows "i \<le> n \<Longrightarrow> increment_rows bs [i..<n] s = (Inr (), s\<lparr>sketch_table :=
    take i (sketch_table s) @ map (\<lambda>row. bump (sketch_width s) k row (sketch_table s ! row)) [i..<n]\<rparr>)"
  using w len
proof (induction "n - i" arbitrary: i s)
  case 0
  then have "i = n" by simp
  with 0 show ?case by simp
next
  case (Suc m)
  then have i: "i < n" by simp
  let ?w = "sketch_width s" and ?T = "sketch_table s"
  have c: "column ?w i k < nat ?w" using Suc.prems by (intro column_less)
  let ?s' = "s\<lparr>sketch_table := ?T[i := bump ?w k i (?T ! i)]\<rparr>"
  have up: "[i..<n] = i # [Suc i..<n]" using i by (rule upt_conv_Cons)
  have hash: "sketch_hash s bs i = Inr (int (column ?w i k))"
    using k i rows Suc.prems by (intro sketch_hash_column) auto
  have "increment_rows bs [i..<n] s = increment_rows bs [Suc i..<n] ?s'"
    using i c Suc.prems by (simp add: up hash bump_def zless_nat_eq_int_zless)
  also have "\<dots> = (Inr (), ?s'\<lparr>sketch_table := take (Suc i) (sketch_table ?s') @
      map (\<lambda>row. bump (sketch_width ?s') k row (sketch_table ?s' ! row)) [Suc i..<n]\<rparr>)"
    using Suc.hyps(2) Suc.prems i
    by (intro Suc.hyps(1)) (auto simp: bump_def nth_list_update)
  also have "\<dots> = (Inr (), s\<lparr>sketch_table := take i ?T @ map (\<lambda>row. bump ?w k row (?T ! row)) [i..<n]\<rparr>)"
    using i Suc.prems by (simp add: up take_Suc_conv_app_nth)
  finally show ?case .
qed

lemma increment_effect:
  assumes s: "sketch_counts s ks" and k: "\<not> has_surrogate k"
  shows "\<exists>s'. increment k s = (Inr (), s') \<and> sketch_counts s' (k # ks) \<and>
    sketch_width s' = sketch_width s \<and> sketch_depth s' = sketch_depth s"
proof -
  obtain bs where bs: "utf8_encode k = Inr bs" using k utf8_encode_Inr_iff by blast
  let ?n = "nat (sketch_depth s)" and ?w = "sketch_width s"
  note D = sketch_countsD [OF s]
  let ?s' = "s\<lparr>sketch_table := map (\<lambda>row. bump ?w k row (sketch_table s ! row)) [0..<?n]\<rparr>"
  have "increment k s = (Inr (), ?s')"
    using increment_rows_effect [OF bs D(1), of ?n 0] D by (simp add: increment_def bs)
  moreover have "sketch_counts ?s' (k # ks)"
    unfolding sketch_counts_def
    using D column_less [OF D(1), of _ k]
    by (auto simp: bump_def nth_list_update collisions_Cons)
  ultimately show ?thesis by auto
qed

lemma increment_error:
  "has_surrogate k \<Longrightarrow> increment k s = (Inl UnicodeEncodeError, s)"
  using utf8_encode_Inl_iff [of k] utf8_encode_exn by (auto simp: increment_def)

lemma read_rows_effect:
  assumes k: "utf8_encode k = Inr bs" and s: "sketch_counts s ks"
  shows "\<forall>row \<in> set rows. row < nat (sketch_depth s) \<Longrightarrow> read_rows s bs rows =
    Inr (map (\<lambda>row. collisions (sketch_width s) row (column (sketch_width s) row k) ks) rows)"
proof (induction rows)
  case (Cons row rows)
  note D = sketch_countsD [OF s]
  have c: "column (sketch_width s) row k < nat (sketch_width s)" using D(1) by (rule column_less)
  have "sketch_hash s bs row = Inr (int (column (sketch_width s) row k))"
    using k Cons.prems D by (intro sketch_hash_column) auto
  with Cons c D show ?case by (auto simp: zless_nat_eq_int_zless)
qed simp

lemma estimate_eq:
  assumes s: "sketch_counts s ks" and k: "\<not> has_surrogate k"
  shows "sketch_estimate k s = Inr (Min ((\<lambda>row. collisions (sketch_width s) row
    (column (sketch_width s) row k) ks) ` {0..<nat (sketch_depth s)}))"
proof -
  obtain bs where bs: "utf8_encode k = Inr bs" using k utf8_encode_Inr_iff by blast
  let ?cs = "map (\<lambda>row. collisions (sketch_width s) row (column (sketch_width s) row k) ks)
    [0..<nat (sketch_depth s)]"
  have "read_rows s bs [0..<nat (sketch_depth s)] = Inr ?cs"
    by (rule read_rows_effect [OF bs s]) simp
  moreover have "?cs \<noteq> []" using sketch_countsD(2) [OF s] by simp
  moreover have "(case cs of [] \<Rightarrow> Inl ValueError | y # ys \<Rightarrow> Inr (Min (set (y # ys)))) = Inr (Min (set cs))"
    if "cs \<noteq> []" for cs :: "int list"
    using that by (cases cs) simp_all
  ultimately have "sketch_estimate k s = Inr (Min (set ?cs))"
    by (simp only: sketch_estimate_def bs sum.case)
  then show ?thesis by simp
qed

lemma count_le_collisions: "int (count_list ks k) \<le> collisions w row (column w row k) ks"
  by (induction ks) (auto simp: collisions_Cons, simp add: collisions_def)

lemma collisions_le_length: "collisions w row col ks \<le> int (length ks)"
  by (simp add: collisions_def)

lemma estimate_bounds:
  assumes s: "sketch_counts s ks" and k: "\<not> has_surrogate k"
  shows "\<exists>n. sketch_estimate k s = Inr n \<and> int (count_list ks k) \<le> n \<and> n \<le> int (length ks)"
proof -
  let ?f = "\<lambda>row. collisions (sketch_width s) row (column (sketch_width s) row k) ks"
  let ?R = "?f ` {0..<nat (sketch_depth s)}"
  have "0 < nat (sketch_depth s)" using sketch_countsD(2) [OF s] by simp
  then have ne: "?R \<noteq> {}" "?f 0 \<in> ?R" by auto
  have "int (count_list ks k) \<le> Min ?R"
    using ne by (auto intro!: Min.boundedI count_le_collisions)
  moreover have "Min ?R \<le> int (length ks)"
    using Min_le [OF _ ne(2)] collisions_le_length [of "sketch_width s" 0] by (meson finite_atLeastLessThan finite_imageI order_trans)
  ultimately show ?thesis using estimate_eq [OF assms] by simp
qed

end
