(* ===== verification/Topk.thy ===== *)
theory Topk
  imports Countmin
begin

text \<open>
  The hot-key tracker \<open>TopKTracker\<close> of src/src/countmin.py: a sketch, a dictionary of at most
  \<open>k\<close> tracked keys with the count they had when they were last recorded, and a heap of (count,
  key) entries with lazy deletion. The heap is kept as the sorted list of its entries (see
  theory Countmin). Method \<open>record\<close> is called \<open>track_record\<close> here.
\<close>

section \<open>The tracker\<close>

definition heappush :: "int \<times> pystr \<Rightarrow> (int \<times> pystr) list \<Rightarrow> (int \<times> pystr) list" where
  "heappush x heap = insort x heap"

definition heappop :: "(int \<times> pystr) list \<Rightarrow> py_exn + (int \<times> pystr) \<times> (int \<times> pystr) list" where
  "heappop heap = (case heap of [] \<Rightarrow> Inl IndexError | x # rest \<Rightarrow> Inr (x, rest))"

definition heapify :: "(int \<times> pystr) list \<Rightarrow> (int \<times> pystr) list" where
  "heapify heap = sort heap"

record TopKTracker =
  tracker_k :: int
  tracker_sketch :: CountMinSketch
  tracker_heap :: "(int \<times> pystr) list"
  tracker_tracked :: "(pystr \<times> int) list"

definition heap_cleanup_ratio :: int where
  "heap_cleanup_ratio = 3"

definition TopKTracker_init :: "int \<Rightarrow> int \<Rightarrow> int \<Rightarrow> TopKTracker" where
  "TopKTracker_init k width depth = \<lparr>tracker_k = k, tracker_sketch = CountMinSketch_init width depth,
     tracker_heap = [], tracker_tracked = []\<rparr>"

fun peek_loop ::
    "(pystr \<times> int) list \<Rightarrow> (int \<times> pystr) list \<Rightarrow> (int \<times> pystr) option \<times> (int \<times> pystr) list" where
  "peek_loop tracked [] = (None, [])"
| "peek_loop tracked ((count, key) # heap) =
     (if map_of tracked key = Some count then (Some (count, key), (count, key) # heap)
      else peek_loop tracked heap)"

definition peek_min :: "TopKTracker \<Rightarrow> (int \<times> pystr) option \<times> TopKTracker" where
  "peek_min t = (let (entry, heap) = peek_loop (tracker_tracked t) (tracker_heap t)
     in (entry, t\<lparr>tracker_heap := heap\<rparr>))"

definition compact_heap :: "TopKTracker \<Rightarrow> TopKTracker" where
  "compact_heap t =
     t\<lparr>tracker_heap := heapify (map (\<lambda>(key, count). (count, key)) (tracker_tracked t))\<rparr>"

definition set_tracked :: "pystr \<Rightarrow> int \<Rightarrow> TopKTracker \<Rightarrow> TopKTracker" where
  "set_tracked key estimated t = t\<lparr>tracker_tracked := AList.update key estimated (tracker_tracked t),
     tracker_heap := heappush (estimated, key) (tracker_heap t)\<rparr>"

definition track_record :: "pystr \<Rightarrow> TopKTracker \<Rightarrow> (py_exn + unit) \<times> TopKTracker" where
  "track_record key t =
     (case increment key (tracker_sketch t) of
        (Inl e, sk) \<Rightarrow> (Inl e, t\<lparr>tracker_sketch := sk\<rparr>)
      | (Inr _, sk) \<Rightarrow>
          let t1 = t\<lparr>tracker_sketch := sk\<rparr> in
          (case sketch_estimate key sk of
             Inl e \<Rightarrow> (Inl e, t1)
           | Inr estimated \<Rightarrow>
               if map_of (tracker_tracked t1) key \<noteq> None then
                 let t2 = set_tracked key estimated t1 in
                 (Inr (), if int (length (tracker_heap t2)) > tracker_k t2 * heap_cleanup_ratio
                          then compact_heap t2 else t2)
               else if int (length (tracker_tracked t1)) < tracker_k t1 then
                 (Inr (), set_tracked key estimated t1)
               else let (min_entry, t2) = peek_min t1 in
                 (case min_entry of
                    None \<Rightarrow> (Inr (), t2)
                  | Some (min_count, _) \<Rightarrow>
                      if estimated > min_count then
                        (case heappop (tracker_heap t2) of
                           Inl e \<Rightarrow> (Inl e, t2)
                         | Inr ((_, evicted), heap) \<Rightarrow>
                             let t3 = t2\<lparr>tracker_heap := heap\<rparr> in
                             if map_of (tracker_tracked t3) evicted = None then (Inl KeyError, t3)
                             else (Inr (), set_tracked key estimated (t3\<lparr>tracker_tracked :=
                                     AList.delete evicted (tracker_tracked t3)\<rparr>)))
                      else (Inr (), t2))))"

definition top_k :: "TopKTracker \<Rightarrow> (pystr \<times> int) list" where
  "top_k t = sort_key (\<lambda>item. - snd item) (tracker_tracked t)"

section \<open>The invariant\<close>

text \<open>The estimate as a function of the keys recorded so far; it only grows.\<close>

definition est_of :: "int \<Rightarrow> int \<Rightarrow> pystr list \<Rightarrow> pystr \<Rightarrow> int" where
  "est_of w d ks k = Min ((\<lambda>row. collisions w row (column w row k) ks) ` {0..<nat d})"

lemma est_of_mono: "0 < d \<Longrightarrow> est_of w d ks k \<le> est_of w d (x # ks) k"
proof -
  assume d: "0 < d"
  let ?f = "\<lambda>ks row. collisions w row (column w row k) ks"
  have ne: "?f (x # ks) ` {0..<nat d} \<noteq> {}" using d by simp
  have "Min (?f ks ` {0..<nat d}) \<le> ?f (x # ks) row" if "row \<in> {0..<nat d}" for row
  proof -
    have "Min (?f ks ` {0..<nat d}) \<le> ?f ks row" using that by (intro Min_le) auto
    then show ?thesis by (simp add: collisions_Cons)
  qed
  with ne show ?thesis unfolding est_of_def by (intro Min.boundedI) auto
qed

text \<open>
  What the dictionary promises after the keys \<open>ks\<close> (newest first), \<open>f\<close> being the estimates:
  a tracked count lies between the key's true count and its estimate, and a recorded key that
  is not tracked means that the dictionary is full and every tracked count is at least that
  key's true count.
\<close>

definition tracked_ok :: "int \<Rightarrow> pystr list \<Rightarrow> (pystr \<Rightarrow> int) \<Rightarrow> (pystr \<times> int) list \<Rightarrow> bool" where
  "tracked_ok k ks f tracked \<longleftrightarrow> dict_ok tracked \<and> int (length tracked) \<le> max 0 k \<and>
     (\<forall>y c. map_of tracked y = Some c \<longrightarrow> int (count_list ks y) \<le> c \<and> c \<le> f y) \<and>
     (\<forall>x. map_of tracked x = None \<longrightarrow> x \<in> set ks \<longrightarrow> k \<le> int (length tracked) \<and>
        (\<forall>y c. map_of tracked y = Some c \<longrightarrow> int (count_list ks x) \<le> c))"

lemma tracked_okI:
  assumes "dict_ok tracked" and "int (length tracked) \<le> max 0 k"
    and "\<And>y c. map_of tracked y = Some c \<Longrightarrow> int (count_list ks y) \<le> c \<and> c \<le> f y"
    and "\<And>x. map_of tracked x = None \<Longrightarrow> x \<in> set ks \<Longrightarrow> k \<le> int (length tracked)"
    and "\<And>x y c. map_of tracked x = None \<Longrightarrow> x \<in> set ks \<Longrightarrow> map_of tracked y = Some c \<Longrightarrow>
      int (count_list ks x) \<le> c"
  shows "tracked_ok k ks f tracked"
  using assms unfolding tracked_ok_def by blast

lemma tracked_okD:
  assumes "tracked_ok k ks f tracked"
  shows "dict_ok tracked" "int (length tracked) \<le> max 0 k"
    "map_of tracked y = Some c \<Longrightarrow> int (count_list ks y) \<le> c"
    "map_of tracked y = Some c \<Longrightarrow> c \<le> f y"
    "map_of tracked x = None \<Longrightarrow> x \<in> set ks \<Longrightarrow> k \<le> int (length tracked)"
    "map_of tracked x = None \<Longrightarrow> map_of tracked y = Some c \<Longrightarrow> int (count_list ks x) \<le> c"
proof -
  note T = assms [unfolded tracked_ok_def]
  show "dict_ok tracked" "int (length tracked) \<le> max 0 k" using T by blast+
  show c: "int (count_list ks y) \<le> c" if "map_of tracked y = Some c" for y c using T that by blast
  show "c \<le> f y" if "map_of tracked y = Some c" using T that by blast
  show "k \<le> int (length tracked)" if "map_of tracked x = None" "x \<in> set ks" using T that by blast
  show "int (count_list ks x) \<le> c" if "map_of tracked x = None" "map_of tracked y = Some c"
  proof (cases "x \<in> set ks")
    case True
    with T that show ?thesis by blast
  next
    case False
    then show ?thesis using c [OF that(2)] by simp
  qed
qed

lemma tracked_raise:
  assumes t: "tracked_ok k ks f tracked" and x: "map_of tracked x = Some c0"
    and f: "\<And>y. f y \<le> f' y" and e: "int (count_list (x # ks) x) \<le> f' x"
  shows "tracked_ok k (x # ks) f' (AList.update x (f' x) tracked)"
proof (rule tracked_okI)
  note D = tracked_okD [OF t]
  have len: "length (AList.update x (f' x) tracked) = length tracked"
    using x by (simp add: length_update_present)
  show "dict_ok (AList.update x (f' x) tracked)" using D(1) by simp
  show "int (length (AList.update x (f' x) tracked)) \<le> max 0 k" using D(2) len by simp
  fix y c assume y: "map_of (AList.update x (f' x) tracked) y = Some c"
  show "int (count_list (x # ks) y) \<le> c \<and> c \<le> f' y"
    using y D(3,4) [of y c] f [of y] e by (auto simp: AList.update_conv' split: if_splits)
  fix z assume z: "map_of (AList.update x (f' x) tracked) z = None" "z \<in> set (x # ks)"
  then have z': "z \<noteq> x" "map_of tracked z = None" "z \<in> set ks"
    by (auto simp: AList.update_conv' split: if_splits)
  have "int (count_list ks z) \<le> c0" using D(6) [OF z'(2) x] .
  also have "c0 \<le> f' x" using D(4) [OF x] f [of x] by linarith
  finally show "int (count_list (x # ks) z) \<le> c"
    using y z' D(6) [OF z'(2), of y c] by (auto simp: AList.update_conv' split: if_splits)
next
  fix z assume "map_of (AList.update x (f' x) tracked) z = None" "z \<in> set (x # ks)"
  then show "k \<le> int (length (AList.update x (f' x) tracked))"
    using tracked_okD(5) [OF t, of z] x
    by (auto simp: AList.update_conv' length_update_present split: if_splits)
qed

lemma tracked_add:
  assumes t: "tracked_ok k ks f tracked" and x: "map_of tracked x = None"
    and room: "int (length tracked) < k"
    and f: "\<And>y. f y \<le> f' y" and e: "int (count_list (x # ks) x) \<le> f' x"
  shows "tracked_ok k (x # ks) f' (AList.update x (f' x) tracked)"
proof (rule tracked_okI)
  note D = tracked_okD [OF t]
  show "dict_ok (AList.update x (f' x) tracked)" using D(1) by simp
  show "int (length (AList.update x (f' x) tracked)) \<le> max 0 k"
    using room x by (simp add: length_update_absent)
  fix y c assume y: "map_of (AList.update x (f' x) tracked) y = Some c"
  show "int (count_list (x # ks) y) \<le> c \<and> c \<le> f' y"
    using y D(3,4) [of y c] f [of y] e by (auto simp: AList.update_conv' split: if_splits)
next
  fix z assume z: "map_of (AList.update x (f' x) tracked) z = None" "z \<in> set (x # ks)"
  then have "map_of tracked z = None" "z \<in> set ks"
    by (auto simp: AList.update_conv' split: if_splits)
  then have False using tracked_okD(5) [OF t, of z] room by simp
  then show "k \<le> int (length (AList.update x (f' x) tracked))" ..
  show "int (count_list (x # ks) z) \<le> c" for c using \<open>False\<close> ..
qed

lemma tracked_skip:
  assumes t: "tracked_ok k ks f tracked" and x: "map_of tracked x = None"
    and full: "k \<le> int (length tracked)"
    and low: "\<And>y c. map_of tracked y = Some c \<Longrightarrow> f' x \<le> c"
    and f: "\<And>y. f y \<le> f' y" and e: "int (count_list (x # ks) x) \<le> f' x"
  shows "tracked_ok k (x # ks) f' tracked"
proof (rule tracked_okI)
  note D = tracked_okD [OF t]
  show "dict_ok tracked" "int (length tracked) \<le> max 0 k" "k \<le> int (length tracked)"
    using D(1,2) full by blast+
  fix y c assume y: "map_of tracked y = Some c"
  then have "y \<noteq> x" using x by auto
  then show "int (count_list (x # ks) y) \<le> c \<and> c \<le> f' y"
    using D(3,4) [OF y] f [of y] by simp
  fix z assume z: "map_of tracked z = None"
  show "int (count_list (x # ks) z) \<le> c"
    using D(6) [OF z y] low [OF y] e by (cases "z = x") auto
qed

lemma tracked_evict:
  assumes t: "tracked_ok k ks f tracked" and x: "map_of tracked x = None"
    and full: "k \<le> int (length tracked)" and m: "map_of tracked m = Some cm"
    and least: "\<And>y c. map_of tracked y = Some c \<Longrightarrow> cm \<le> c" and less: "cm < f' x"
    and f: "\<And>y. f y \<le> f' y" and e: "int (count_list (x # ks) x) \<le> f' x"
  shows "tracked_ok k (x # ks) f' (AList.update x (f' x) (AList.delete m tracked))"
proof (rule tracked_okI)
  note D = tracked_okD [OF t]
  let ?t = "AList.update x (f' x) (AList.delete m tracked)"
  have mx: "m \<noteq> x" using m x by auto
  have len: "length ?t = length tracked"
    using x mx length_delete_present [OF D(1) m]
    by (subst length_update_absent) (simp_all add: AList.delete_conv')
  show "dict_ok ?t" using D(1) by simp
  show "int (length ?t) \<le> max 0 k" "k \<le> int (length ?t)" using D(2) full len by simp_all
  fix y c assume y: "map_of ?t y = Some c"
  have y': "y = x \<and> c = f' x \<or> y \<noteq> x \<and> y \<noteq> m \<and> map_of tracked y = Some c"
    using y by (auto simp: AList.update_conv' AList.delete_conv' split: if_splits)
  show "int (count_list (x # ks) y) \<le> c \<and> c \<le> f' y"
    using y' D(3,4) [of y c] f [of y] e by auto
  fix z assume "map_of ?t z = None"
  then have z: "z \<noteq> x" "z = m \<or> map_of tracked z = None"
    by (auto simp: AList.update_conv' AList.delete_conv' split: if_splits)
  have "int (count_list ks z) \<le> cm" using z(2) D(3) [OF m] D(6) [OF _ m, of z] by blast
  with z(1) y' least [of y c] less show "int (count_list (x # ks) z) \<le> c" by auto
qed

section \<open>The heap\<close>

text \<open>The heap is in order and holds the current entry of every tracked key.\<close>

definition heap_ok :: "(pystr \<times> int) list \<Rightarrow> (int \<times> pystr) list \<Rightarrow> bool" where
  "heap_ok tracked heap \<longleftrightarrow> sorted heap \<and> (\<forall>y c. map_of tracked y = Some c \<longrightarrow> (c, y) \<in> set heap)"

lemma heap_ok_push:
  "heap_ok tracked heap \<Longrightarrow> heap_ok (AList.update x c tracked) (heappush (c, x) heap)"
  by (auto simp: heap_ok_def heappush_def sorted_insort set_insort_key AList.update_conv' split: if_splits)

lemma heap_ok_compact:
  "dict_ok tracked \<Longrightarrow> heap_ok tracked (heapify (map (\<lambda>(key, count). (count, key)) tracked))"
  by (force simp: heap_ok_def heapify_def dest: map_of_SomeD)

lemma peek_loop_spec:
  "heap_ok tracked heap \<Longrightarrow> peek_loop tracked heap = (entry, heap') \<Longrightarrow>
     heap_ok tracked heap' \<and> length heap' \<le> length heap \<and>
     (case entry of None \<Rightarrow> tracked = [] \<and> heap' = []
      | Some (c, m) \<Rightarrow> map_of tracked m = Some c \<and> hd heap' = (c, m) \<and> heap' \<noteq> [])"
proof (induction tracked heap rule: peek_loop.induct)
  case (1 tracked)
  then have "tracked = []" by (cases tracked) (auto simp: heap_ok_def split: if_splits)
  with 1 show ?case by auto
next
  case (2 tracked count key heap)
  show ?case
  proof (cases "map_of tracked key = Some count")
    case True
    with 2 show ?thesis by auto
  next
    case False
    then have "heap_ok tracked heap" using "2.prems"(1) by (auto simp: heap_ok_def)
    with "2.IH" [OF False] "2.prems"(2) False show ?thesis by auto
  qed
qed

lemma heap_head_least:
  assumes "heap_ok tracked heap" and "heap \<noteq> []" and "hd heap = (c, m)"
    and "map_of tracked y = Some d"
  shows "c \<le> d"
proof -
  have "(d, y) \<in> set heap" using assms(1,4) by (simp add: heap_ok_def)
  moreover have "sorted heap" using assms(1) by (simp add: heap_ok_def)
  ultimately have "(c, m) \<le> (d, y)" using assms(2,3) by (cases heap) auto
  then show ?thesis by (auto simp: less_eq_prod_def)
qed

lemma heap_ok_pop:
  assumes "heap_ok tracked ((c, m) # heap)"
  shows "heap_ok (AList.delete m tracked) heap"
  using assms by (auto simp: heap_ok_def AList.delete_conv' split: if_splits)

section \<open>Recording a key\<close>

definition tracker_inv :: "TopKTracker \<Rightarrow> pystr list \<Rightarrow> bool" where
  "tracker_inv t ks \<longleftrightarrow> sketch_counts (tracker_sketch t) ks \<and>
     tracked_ok (tracker_k t) ks
       (est_of (sketch_width (tracker_sketch t)) (sketch_depth (tracker_sketch t)) ks) (tracker_tracked t) \<and>
     heap_ok (tracker_tracked t) (tracker_heap t) \<and>
     int (length (tracker_heap t)) \<le> 3 * max 0 (tracker_k t) + int (length (tracker_tracked t))"

lemma tracker_inv_init: "0 < w \<Longrightarrow> 0 < d \<Longrightarrow> d \<le> 256 \<Longrightarrow> tracker_inv (TopKTracker_init k w d) []"
  by (simp add: tracker_inv_def TopKTracker_init_def sketch_counts_init tracked_ok_def heap_ok_def)

lemma length_heappush [simp]: "length (heappush x h) = Suc (length h)"
  by (simp add: heappush_def)

text \<open>The tracked keys and the heap together, and what recording a key does to them in each case.\<close>

definition tables_ok ::
    "int \<Rightarrow> pystr list \<Rightarrow> (pystr \<Rightarrow> int) \<Rightarrow> (pystr \<times> int) list \<Rightarrow> (int \<times> pystr) list \<Rightarrow> bool" where
  "tables_ok k ks f tracked heap \<longleftrightarrow> tracked_ok k ks f tracked \<and> heap_ok tracked heap \<and>
     int (length heap) \<le> 3 * max 0 k + int (length tracked)"

lemma tracker_inv_tables:
  "tracker_inv t ks \<longleftrightarrow> sketch_counts (tracker_sketch t) ks \<and>
     tables_ok (tracker_k t) ks (est_of (sketch_width (tracker_sketch t)) (sketch_depth (tracker_sketch t)) ks)
       (tracker_tracked t) (tracker_heap t)"
  by (simp add: tracker_inv_def tables_ok_def)

lemma tables_raise:
  assumes T: "tables_ok k ks f tr heap" and x: "map_of tr x = Some c0"
    and f: "\<And>y. f y \<le> f' y" and e: "int (count_list (x # ks) x) \<le> f' x"
  defines "up \<equiv> AList.update x (f' x) tr" and "h \<equiv> heappush (f' x, x) heap"
  shows "tables_ok k (x # ks) f' up
    (if int (length h) > k * 3 then heapify (map (\<lambda>(key, count). (count, key)) up) else h)"
proof -
  have tr: "tracked_ok k ks f tr" "heap_ok tr heap" using T by (simp_all add: tables_ok_def)
  note up = tracked_raise [OF tr(1) x f e, folded up_def]
  have "heap_ok up h" unfolding up_def h_def using heap_ok_push [OF tr(2)] .
  with up heap_ok_compact [OF tracked_okD(1) [OF up]] show ?thesis
    by (auto simp: tables_ok_def heapify_def)
qed

lemma tables_add:
  assumes T: "tables_ok k ks f tr heap" and x: "map_of tr x = None" and room: "int (length tr) < k"
    and f: "\<And>y. f y \<le> f' y" and e: "int (count_list (x # ks) x) \<le> f' x"
  shows "tables_ok k (x # ks) f' (AList.update x (f' x) tr) (heappush (f' x, x) heap)"
proof -
  have tr: "tracked_ok k ks f tr" using T by (simp add: tables_ok_def)
  show ?thesis
    using T tracked_add [OF tr x room f e] heap_ok_push [of tr heap x "f' x"]
    by (simp add: tables_ok_def length_update_absent [OF x])
qed

lemma tables_full:
  assumes T: "tables_ok k ks f tr heap" and x: "map_of tr x = None" and full: "k \<le> int (length tr)"
    and f: "\<And>y. f y \<le> f' y" and e: "int (count_list (x # ks) x) \<le> f' x"
    and pk: "peek_loop tr heap = (entry, h)"
  shows "case entry of
      None \<Rightarrow> tables_ok k (x # ks) f' tr h
    | Some (c, m) \<Rightarrow> \<exists>h2. h = (c, m) # h2 \<and> map_of tr m = Some c \<and>
        (if f' x > c then tables_ok k (x # ks) f' (AList.update x (f' x) (AList.delete m tr)) (heappush (f' x, x) h2)
         else tables_ok k (x # ks) f' tr h)"
proof -
  have tr: "tracked_ok k ks f tr" "heap_ok tr heap" "int (length heap) \<le> 3 * max 0 k + int (length tr)"
    using T by (simp_all add: tables_ok_def)
  note P = peek_loop_spec [OF tr(2) pk]
  have h: "heap_ok tr h" "int (length h) \<le> 3 * max 0 k + int (length tr)" using P tr(3) by auto
  show ?thesis
  proof (cases entry)
    case None
    then have "tr = []" using P by simp
    then have "tracked_ok k (x # ks) f' tr" by (intro tracked_skip [OF tr(1) x full _ f e]) simp
    then show ?thesis using None h by (simp add: tables_ok_def)
  next
    case (Some p)
    obtain c m where p: "p = (c, m)" by fastforce
    then obtain h2 where h2: "h = (c, m) # h2" and m: "map_of tr m = Some c" using P Some by (cases h) auto
    have least: "c \<le> d" if "map_of tr y = Some d" for y d
      using heap_head_least [OF h(1) _ _ that] h2 by simp
    let ?tr = "AList.update x (f' x) (AList.delete m tr)"
    have "tables_ok k (x # ks) f' ?tr (heappush (f' x, x) h2)" if "f' x > c"
    proof -
      have "map_of (AList.delete m tr) x = None" using x by (simp add: AList.delete_conv')
      then have "length ?tr = length tr"
        using length_delete_present [OF tracked_okD(1) [OF tr(1)] m] by (simp add: length_update_absent)
      then show ?thesis
        using tracked_evict [OF tr(1) x full m least that f e] heap_ok_push [OF heap_ok_pop [OF h(1) [unfolded h2]]]
          h(2) h2 by (simp add: tables_ok_def)
    qed
    moreover have "tables_ok k (x # ks) f' tr h" if "\<not> f' x > c"
    proof -
      have "tracked_ok k (x # ks) f' tr"
        using least that by (intro tracked_skip [OF tr(1) x full _ f e]) fastforce
      then show ?thesis using h by (simp add: tables_ok_def)
    qed
    ultimately show ?thesis using Some p h2 m by simp
  qed
qed

lemma track_record_step:
  assumes inv: "tracker_inv t ks" and x: "\<not> has_surrogate x"
  shows "\<exists>t'. track_record x t = (Inr (), t') \<and> tracker_inv t' (x # ks) \<and> tracker_k t' = tracker_k t"
proof -
  let ?k = "tracker_k t" and ?w = "sketch_width (tracker_sketch t)"
  let ?d = "sketch_depth (tracker_sketch t)" and ?tr = "tracker_tracked t"
  have counts: "sketch_counts (tracker_sketch t) ks" using inv by (simp add: tracker_inv_tables)
  have T: "tables_ok ?k ks (est_of ?w ?d ks) ?tr (tracker_heap t)" using inv by (simp add: tracker_inv_tables)
  obtain sk where inc: "increment x (tracker_sketch t) = (Inr (), sk)" and sk: "sketch_counts sk (x # ks)"
    "sketch_width sk = ?w" "sketch_depth sk = ?d"
    using increment_effect [of "tracker_sketch t" ks x] counts x by blast
  let ?f' = "est_of ?w ?d (x # ks)"
  have est: "sketch_estimate x sk = Inr (?f' x)" using estimate_eq [OF sk(1) x] sk by (simp add: est_of_def)
  have e: "int (count_list (x # ks) x) \<le> ?f' x" using estimate_bounds [OF sk(1) x] est by simp
  have "0 < ?d" using sketch_countsD(2) [OF counts] .
  then have f: "est_of ?w ?d ks y \<le> ?f' y" for y by (rule est_of_mono)
  let ?res = "\<lambda>tr h. track_record x t = (Inr (), t\<lparr>tracker_sketch := sk, tracker_tracked := tr, tracker_heap := h\<rparr>) \<and>
    tables_ok ?k (x # ks) ?f' tr h"
  have "\<exists>tr h. ?res tr h"
  proof (cases "map_of ?tr x")
    case (Some c0)
    show ?thesis
      using tables_raise [OF T Some f e] Some by (intro exI conjI)
        (simp_all add: track_record_def inc est Let_def set_tracked_def compact_heap_def heap_cleanup_ratio_def
          del: length_heappush)
  next
    case None
    show ?thesis
    proof (cases "int (length ?tr) < ?k")
      case True
      show ?thesis
        using tables_add [OF T None True f e] None True by (intro exI conjI)
          (simp_all add: track_record_def inc est Let_def set_tracked_def)
    next
      case False
      obtain entry h where pk: "peek_loop ?tr (tracker_heap t) = (entry, h)" by fastforce
      have full: "?k \<le> int (length ?tr)" using False by simp
      note F = tables_full [OF T None full f e pk]
      show ?thesis
      proof (cases entry)
        case None
        then show ?thesis
          using F \<open>map_of ?tr x = None\<close> False
          by (intro exI [of _ ?tr] exI [of _ h]) (simp add: track_record_def inc est Let_def peek_min_def pk)
      next
        case (Some p)
        then obtain c m h2 where p: "p = (c, m)" "h = (c, m) # h2" "map_of ?tr m = Some c" using F by (cases p) auto
        show ?thesis
        proof (cases "?f' x > c")
          case True
          then show ?thesis
            using F \<open>map_of ?tr x = None\<close> False Some p
            by (intro exI [of _ "AList.update x (?f' x) (AList.delete m ?tr)"] exI [of _ "heappush (?f' x, x) h2"])
              (simp add: track_record_def inc est Let_def peek_min_def pk heappop_def set_tracked_def)
        next
          case low: False
          then show ?thesis
            using F \<open>map_of ?tr x = None\<close> False Some p
            by (intro exI [of _ ?tr] exI [of _ h]) (simp add: track_record_def inc est Let_def peek_min_def pk)
        qed
      qed
    qed
  qed
  then show ?thesis using sk by (fastforce simp: tracker_inv_tables)
qed

section \<open>Properties of the sketch and the tracker\<close>

primrec increment_all :: "pystr list \<Rightarrow> CountMinSketch \<Rightarrow> (py_exn + unit) \<times> CountMinSketch" where
  "increment_all [] s = (Inr (), s)"
| "increment_all (k # ks) s =
     (case increment k s of (Inl e, s1) \<Rightarrow> (Inl e, s1) | (Inr _, s1) \<Rightarrow> increment_all ks s1)"

primrec track_all :: "pystr list \<Rightarrow> TopKTracker \<Rightarrow> (py_exn + unit) \<times> TopKTracker" where
  "track_all [] t = (Inr (), t)"
| "track_all (k # ks) t =
     (case track_record k t of (Inl e, t1) \<Rightarrow> (Inl e, t1) | (Inr _, t1) \<Rightarrow> track_all ks t1)"

lemma increment_all_counts:
  "sketch_counts s hist \<Longrightarrow> \<forall>k \<in> set ks. \<not> has_surrogate k \<Longrightarrow>
     \<exists>s'. increment_all ks s = (Inr (), s') \<and> sketch_counts s' (rev ks @ hist) \<and>
       sketch_width s' = sketch_width s \<and> sketch_depth s' = sketch_depth s"
proof (induction ks arbitrary: s hist)
  case (Cons k ks)
  obtain s1 where s1: "increment k s = (Inr (), s1)" "sketch_counts s1 (k # hist)"
    "sketch_width s1 = sketch_width s" "sketch_depth s1 = sketch_depth s"
    using increment_effect [OF Cons.prems(1), of k] Cons.prems(2) by auto
  with Cons.IH [OF s1(2)] Cons.prems(2) show ?case by simp
qed simp

lemma track_all_inv:
  "tracker_inv t hist \<Longrightarrow> \<forall>k \<in> set ks. \<not> has_surrogate k \<Longrightarrow>
     \<exists>t'. track_all ks t = (Inr (), t') \<and> tracker_inv t' (rev ks @ hist) \<and> tracker_k t' = tracker_k t"
proof (induction ks arbitrary: t hist)
  case (Cons k ks)
  obtain t1 where t1: "track_record k t = (Inr (), t1)" "tracker_inv t1 (k # hist)"
    "tracker_k t1 = tracker_k t"
    using track_record_step [OF Cons.prems(1), of k] Cons.prems(2) by auto
  with Cons.IH [OF t1(2)] Cons.prems(2) show ?case by simp
qed simp

lemma est_of_le_length: "0 < d \<Longrightarrow> est_of w d ks k \<le> int (length ks)"
proof -
  assume d: "0 < d"
  let ?f = "\<lambda>row. collisions w row (column w row k) ks"
  have "Min (?f ` {0..<nat d}) \<le> ?f 0" using d by (intro Min_le) auto
  then show ?thesis
    unfolding est_of_def using collisions_le_length [of w 0 "column w 0 k" ks] by linarith
qed

lemma collisions_rev: "collisions w row col (rev ks) = collisions w row col ks"
  by (simp add: collisions_def flip: rev_filter)

text \<open>
  C25: the sketch never undercounts. After any sequence of increments with encodable keys on a
  fresh sketch of positive width and 1 to 256 rows, no increment has failed and the estimate of a
  key is the least, over the rows, of the number of increments whose key the row hashes to the
  key's column; so it is at least the number of increments of that key and at most the number of
  all increments.
\<close>
theorem sketch_estimate_spec:
  assumes "0 < w" and "0 < d" and "d \<le> 256" and "\<forall>x \<in> set (k # ks). \<not> has_surrogate x"
  shows "\<exists>s n. increment_all ks (CountMinSketch_init w d) = (Inr (), s) \<and>
    sketch_estimate k s = Inr n \<and>
    n = Min ((\<lambda>row. int (length (filter (\<lambda>x. column w row x = column w row k) ks))) ` {0..<nat d}) \<and>
    int (count_list ks k) \<le> n \<and> n \<le> int (length ks)"
proof -
  have ks: "\<forall>x \<in> set ks. \<not> has_surrogate x" and k: "\<not> has_surrogate k" using assms(4) by simp_all
  obtain s where s: "increment_all ks (CountMinSketch_init w d) = (Inr (), s)"
    "sketch_counts s (rev ks)" "sketch_width s = w" "sketch_depth s = d"
    using increment_all_counts [OF sketch_counts_init [OF assms(1-3)] ks]
    by (auto simp: CountMinSketch_init_def)
  from estimate_bounds [OF s(2) k] estimate_eq [OF s(2) k] s show ?thesis
    by (auto simp: collisions_rev [unfolded collisions_def] collisions_def)
qed

theorem sketch_estimate_witness:
  "\<exists>s n. increment_all [lit ''a'', lit ''b'', lit ''a''] (CountMinSketch_init 2048 4) = (Inr (), s) \<and>
     sketch_estimate (lit ''a'') s = Inr n \<and> 2 \<le> n \<and> n \<le> 3"
proof -
  have "\<forall>x \<in> set (lit ''a'' # [lit ''a'', lit ''b'', lit ''a'']). \<not> has_surrogate x"
    by (simp add: has_surrogate_def)
  from sketch_estimate_spec [OF _ _ _ this, of 2048 4]
  obtain s n where "increment_all [lit ''a'', lit ''b'', lit ''a''] (CountMinSketch_init 2048 4) = (Inr (), s)"
    "sketch_estimate (lit ''a'') s = Inr n" "int (count_list [lit ''a'', lit ''b'', lit ''a''] (lit ''a'')) \<le> n"
    "n \<le> int (length [lit ''a'', lit ''b'', lit ''a''])"
    by auto
  then show ?thesis by (intro exI [of _ s] exI [of _ n] conjI) simp_all
qed

text \<open>
  C23: the hot-key guarantee. After recording any sequence of encodable keys on a fresh tracker,
  at most \<open>k\<close> keys are reported, in descending order of count, each once. A reported count is at
  least the number of times the key was recorded and at most the number of all records. A
  recorded key that is missing from the report was recorded at most as often as the smallest
  count reported, and then the report is full.
\<close>
theorem hot_keys_guarantee:
  assumes "0 < w" and "0 < d" and "d \<le> 256" and "\<forall>x \<in> set ks. \<not> has_surrogate x"
  shows "\<exists>t. track_all ks (TopKTracker_init k w d) = (Inr (), t) \<and>
    int (length (top_k t)) \<le> max 0 k \<and> distinct (map fst (top_k t)) \<and>
    sorted_wrt (\<ge>) (map snd (top_k t)) \<and>
    (\<forall>(y, c) \<in> set (top_k t). int (count_list ks y) \<le> c \<and> c \<le> int (length ks)) \<and>
    (\<forall>x \<in> set ks - fst ` set (top_k t). k \<le> int (length (top_k t)) \<and>
       (\<forall>(y, c) \<in> set (top_k t). int (count_list ks x) \<le> c))"
proof -
  obtain t where t: "track_all ks (TopKTracker_init k w d) = (Inr (), t)"
    "tracker_inv t (rev ks)" "tracker_k t = k"
    using track_all_inv [OF tracker_inv_init [OF assms(1-3)] assms(4), of k]
    by (auto simp: TopKTracker_init_def)
  let ?s = "tracker_sketch t"
  have ok: "tracked_ok k (rev ks) (est_of (sketch_width ?s) (sketch_depth ?s) (rev ks)) (tracker_tracked t)"
    and d: "0 < sketch_depth ?s"
    using t(2,3) sketch_countsD(2) [of ?s "rev ks"] by (auto simp: tracker_inv_def)
  note D = tracked_okD [OF ok]
  have top: "set (top_k t) = set (tracker_tracked t)" "length (top_k t) = length (tracker_tracked t)"
    by (simp_all add: top_k_def)
  have mem: "map_of (tracker_tracked t) y = Some c" if "(y, c) \<in> set (top_k t)" for y c
    using that mem_dict_iff [OF D(1)] by (simp add: top)
  have "distinct (map fst (top_k t))"
    using D(1) by (simp add: top_k_def distinct_map)
  moreover have "sorted_wrt (\<ge>) (map snd (top_k t))"
    using sorted_sort_key [of "\<lambda>item. - snd item" "tracker_tracked t"]
    by (simp add: top_k_def sorted_map sorted_wrt_map)
  moreover have "int (count_list ks y) \<le> c \<and> c \<le> int (length ks)" if "(y, c) \<in> set (top_k t)" for y c
    using D(3) [OF mem [OF that]] D(4) [OF mem [OF that]] est_of_le_length [OF d, of "sketch_width ?s" "rev ks" y]
    by simp
  moreover have "k \<le> int (length (top_k t)) \<and> (\<forall>(y, c) \<in> set (top_k t). int (count_list ks x) \<le> c)"
    if x: "x \<in> set ks" "x \<notin> fst ` set (top_k t)" for x
  proof -
    have none: "map_of (tracker_tracked t) x = None"
      using x(2) by (simp add: top map_of_eq_None_iff)
    have "int (count_list ks x) \<le> c" if "(y, c) \<in> set (top_k t)" for y c
      using D(6) [OF none mem [OF that]] by simp
    then show ?thesis using D(5) [OF none] x(1) top(2) by auto
  qed
  ultimately show ?thesis using t(1) D(2) top(2) by (intro exI [of _ t]) auto
qed

theorem hot_keys_guarantee_witness:
  "\<exists>t. track_all [lit ''a'', lit ''b'', lit ''a''] (TopKTracker_init 1 2048 4) = (Inr (), t) \<and>
     int (length (top_k t)) \<le> 1"
proof -
  have "\<forall>x \<in> set [lit ''a'', lit ''b'', lit ''a'']. \<not> has_surrogate x"
    by (simp add: has_surrogate_def)
  from hot_keys_guarantee [OF _ _ _ this, of 2048 4 1]
  obtain t where "track_all [lit ''a'', lit ''b'', lit ''a''] (TopKTracker_init 1 2048 4) = (Inr (), t)"
    "int (length (top_k t)) \<le> max 0 1"
    by auto
  then show ?thesis by (intro exI [of _ t] conjI) simp_all
qed

text \<open>
  The tracker is bounded. Recording one more encodable key on a tracker that satisfies the
  invariant succeeds and keeps it, so the dictionary never holds more than \<open>k\<close> keys and the
  heap with its stale entries never more than \<open>4 * k\<close> entries.
\<close>
theorem track_record_bounded:
  assumes "tracker_inv t ks" and "\<not> has_surrogate x"
  shows "\<exists>t'. track_record x t = (Inr (), t') \<and> tracker_inv t' (x # ks) \<and>
    int (length (tracker_tracked t')) \<le> max 0 (tracker_k t) \<and>
    int (length (tracker_heap t')) \<le> 4 * max 0 (tracker_k t)"
proof -
  obtain t' where t': "track_record x t = (Inr (), t')" "tracker_inv t' (x # ks)" "tracker_k t' = tracker_k t"
    using track_record_step [OF assms] by blast
  then have "int (length (tracker_tracked t')) \<le> max 0 (tracker_k t)"
    and "int (length (tracker_heap t')) \<le> 3 * max 0 (tracker_k t) + int (length (tracker_tracked t'))"
    using tracked_okD(2) unfolding tracker_inv_def by fastforce+
  then show ?thesis using t' by simp
qed

theorem track_record_bounded_witness:
  "\<exists>t'. track_record (lit ''a'') (TopKTracker_init 100 2048 4) = (Inr (), t') \<and>
     int (length (tracker_heap t')) \<le> 400"
proof -
  have "tracker_inv (TopKTracker_init 100 2048 4) []" by (rule tracker_inv_init) simp_all
  moreover have "\<not> has_surrogate (lit ''a'')" by (simp add: has_surrogate_def)
  ultimately show ?thesis
    using track_record_bounded [of "TopKTracker_init 100 2048 4" "[]" "lit ''a''"]
    by (auto simp: TopKTracker_init_def simp del: lit_Cons)
qed

end
