(* ===== verification/Metrics.thy ===== *)
theory Metrics
  imports Topk Pystr Types
begin

text \<open>
  The metrics collector of src/src/metrics.py: counters per command, the latency histogram, the
  hot keys, the memory per key prefix, and the Prometheus text made of them. Durations are exact
  rationals; how Python prints a float is the parameter \<open>show_float\<close> of the rendering, and the
  counts are taken to have fewer than 4300 digits. The lock is not modelled: every method is one
  step.
\<close>

section \<open>The collector\<close>

record HotKeyEntry =
  hot_key :: pystr
  hot_count :: int

text \<open>The bucket bounds, in increasing order.\<close>

definition latency_buckets :: "rat list" where
  "latency_buckets = [1 / 1000, 1 / 200, 1 / 100, 1 / 20, 1 / 10, 1 / 2, 1, 5]"

record MetricsCollector =
  throughput_total :: int
  throughput_by_command :: "(pystr \<times> int) list"
  latency_sum_by_command :: "(pystr \<times> rat) list"
  latency_count_by_command :: "(pystr \<times> int) list"
  latency_bucket_counts :: "(pystr \<times> (rat \<times> int) list) list"
  hot_key_tracker :: TopKTracker
  memory_by_prefix_bytes :: "(pystr \<times> int) list"

definition MetricsCollector_init :: MetricsCollector where
  "MetricsCollector_init = \<lparr>throughput_total = 0, throughput_by_command = [],
     latency_sum_by_command = [], latency_count_by_command = [], latency_bucket_counts = [],
     hot_key_tracker = TopKTracker_init 100 2048 4, memory_by_prefix_bytes = []\<rparr>"

text \<open>\<open>Counter\<close>: a missing key counts 0.\<close>

definition counter_get :: "('k \<times> int) list \<Rightarrow> 'k \<Rightarrow> int" where
  "counter_get c k = (case map_of c k of None \<Rightarrow> 0 | Some n \<Rightarrow> n)"

definition counter_add :: "'k \<Rightarrow> int \<Rightarrow> ('k \<times> int) list \<Rightarrow> ('k \<times> int) list" where
  "counter_add k n c = AList.update k (counter_get c k + n) c"

definition observe_latency_bucket :: "pystr \<Rightarrow> rat \<Rightarrow> MetricsCollector \<Rightarrow> MetricsCollector" where
  "observe_latency_bucket name duration m =
     (let bucket_counts = (case map_of (latency_bucket_counts m) name of None \<Rightarrow> [] | Some c \<Rightarrow> c) in
      m\<lparr>latency_bucket_counts := AList.update name
         (case find (\<lambda>bucket. duration \<le> bucket) latency_buckets of
            None \<Rightarrow> bucket_counts | Some bucket \<Rightarrow> counter_add bucket 1 bucket_counts)
         (latency_bucket_counts m)\<rparr>)"

text \<open>Only the hot-key tracker can raise, on a key that has no UTF-8 encoding, after the counters.\<close>

definition observe_command ::
    "CommandRequest \<Rightarrow> rat \<Rightarrow> MetricsCollector \<Rightarrow> (py_exn + unit) \<times> MetricsCollector" where
  "observe_command request duration m =
     (let name = CommandName_value (req_command request);
          m1 = m\<lparr>throughput_total := throughput_total m + 1,
                 throughput_by_command := counter_add name 1 (throughput_by_command m),
                 latency_sum_by_command := AList.update name
                   ((case map_of (latency_sum_by_command m) name of None \<Rightarrow> 0 | Some x \<Rightarrow> x) + duration)
                   (latency_sum_by_command m),
                 latency_count_by_command := counter_add name 1 (latency_count_by_command m)\<rparr>;
          m2 = observe_latency_bucket name duration m1
      in (case req_args request of
            [] \<Rightarrow> (Inr (), m2)
          | key # _ \<Rightarrow> (let (r, t) = track_record key (hot_key_tracker m2) in (r, m2\<lparr>hot_key_tracker := t\<rparr>))))"

text \<open>\<open>key.partition(":")\<close>: the text before the first colon, if there is one.\<close>

definition key_prefix :: "pystr \<Rightarrow> pystr" where
  "key_prefix key = (if 58 \<in> set key then takeWhile (\<lambda>c. c \<noteq> 58) key else lit ''default'')"

primrec prefix_totals :: "(pystr \<times> pystr) list \<Rightarrow> (pystr \<times> int) list \<Rightarrow> py_exn + (pystr \<times> int) list" where
  "prefix_totals [] totals = Inr totals"
| "prefix_totals (kv # data) totals =
     (case utf8_encode (fst kv) of
        Inl e \<Rightarrow> Inl e
      | Inr kb \<Rightarrow>
          (case utf8_encode (snd kv) of
             Inl e \<Rightarrow> Inl e
           | Inr vb \<Rightarrow> prefix_totals data
               (counter_add (key_prefix (fst kv)) (int (length kb) + int (length vb)) totals)))"

definition observe_store_snapshot ::
    "(pystr \<times> pystr) list \<Rightarrow> MetricsCollector \<Rightarrow> (py_exn + unit) \<times> MetricsCollector" where
  "observe_store_snapshot data m =
     (case prefix_totals data [] of
        Inl e \<Rightarrow> (Inl e, m)
      | Inr totals \<Rightarrow> (Inr (), m\<lparr>memory_by_prefix_bytes := totals\<rparr>))"

definition hot_keys :: "int \<Rightarrow> MetricsCollector \<Rightarrow> HotKeyEntry list" where
  "hot_keys limit m =
     (let top = top_k (hot_key_tracker m);
          n = (if limit < 0 then length top - nat (- limit) else nat limit)
      in map (\<lambda>(key, count). \<lparr>hot_key = key, hot_count = count\<rparr>) (take n top))"

section \<open>The Prometheus text\<close>

text \<open>\<open>value.replace(c, r)\<close> for a single character \<open>c\<close>.\<close>

definition replace_char :: "nat \<Rightarrow> pystr \<Rightarrow> pystr \<Rightarrow> pystr" where
  "replace_char c r s = concat (map (\<lambda>x. if x = c then r else [x]) s)"

definition escape_label_value :: "pystr \<Rightarrow> pystr" where
  "escape_label_value value =
     replace_char 10 [92, 110] (replace_char 34 [92, 34] (replace_char 92 [92, 92] value))"

text \<open>\<open>name{label="value"\<close>, up to what may follow.\<close>

definition label_open :: "string \<Rightarrow> string \<Rightarrow> pystr \<Rightarrow> pystr" where
  "label_open name label value = lit name @ lit ''{'' @ lit label @ lit ''='' @ [34] @ value @ [34]"

definition sample :: "pystr \<Rightarrow> pystr \<Rightarrow> pystr" where
  "sample labels value = labels @ lit ''} '' @ value"

primrec cumulative_counts :: "rat list \<Rightarrow> (rat \<times> int) list \<Rightarrow> int \<Rightarrow> (rat \<times> int) list" where
  "cumulative_counts [] bucket_counts cumulative = []"
| "cumulative_counts (bucket # buckets) bucket_counts cumulative =
     (let cumulative' = cumulative + counter_get bucket_counts bucket
      in (bucket, cumulative') # cumulative_counts buckets bucket_counts cumulative')"

text \<open>
  The lines of one command's histogram. \<open>_latency_sum_by_command[name]\<close> has the same keys as
  the counts.
\<close>

definition latency_lines :: "(rat \<Rightarrow> pystr) \<Rightarrow> MetricsCollector \<Rightarrow> pystr \<Rightarrow> pystr list" where
  "latency_lines show_float m name =
     (let bucket_counts = (case map_of (latency_bucket_counts m) name of None \<Rightarrow> [] | Some c \<Rightarrow> c);
          bucket_label = (\<lambda>le. label_open ''litestore_command_latency_seconds_bucket'' ''command'' name @
            lit '',le='' @ [34] @ le @ [34]);
          total_count = py_str_int (counter_get (latency_count_by_command m) name)
      in map (\<lambda>(bucket, n). sample (bucket_label (show_float bucket)) (py_str_int n))
           (cumulative_counts latency_buckets bucket_counts 0) @
         [sample (bucket_label (lit ''+Inf'')) total_count,
          sample (label_open ''litestore_command_latency_seconds_count'' ''command'' name) total_count,
          sample (label_open ''litestore_command_latency_seconds_sum'' ''command'' name)
            (show_float (the (map_of (latency_sum_by_command m) name)))])"

definition render_lines :: "(rat \<Rightarrow> pystr) \<Rightarrow> MetricsCollector \<Rightarrow> pystr list" where
  "render_lines show_float m =
     [lit ''# HELP litestore_commands_total Total number of executed commands.'',
      lit ''# TYPE litestore_commands_total counter'',
      lit ''litestore_commands_total '' @ py_str_int (throughput_total m),
      lit ''# HELP litestore_command_requests_total Total requests by command.'',
      lit ''# TYPE litestore_command_requests_total counter''] @
     map (\<lambda>name. sample (label_open ''litestore_command_requests_total'' ''command'' name)
            (py_str_int (counter_get (throughput_by_command m) name)))
       (sort (map fst (throughput_by_command m))) @
     [lit ''# HELP litestore_command_latency_seconds Command latency by command.'',
      lit ''# TYPE litestore_command_latency_seconds histogram''] @
     concat (map (latency_lines show_float m) (sort (map fst (latency_count_by_command m)))) @
     [lit ''# HELP litestore_hot_key_access_total Access count by key.'',
      lit ''# TYPE litestore_hot_key_access_total gauge''] @
     map (\<lambda>(key, count). sample (label_open ''litestore_hot_key_access_total'' ''key'' (escape_label_value key))
            (py_str_int count)) (top_k (hot_key_tracker m)) @
     [lit ''# HELP litestore_memory_by_prefix_bytes Approximate memory used by key prefix.'',
      lit ''# TYPE litestore_memory_by_prefix_bytes gauge''] @
     map (\<lambda>prefix. sample (label_open ''litestore_memory_by_prefix_bytes'' ''prefix'' (escape_label_value prefix))
            (py_str_int (counter_get (memory_by_prefix_bytes m) prefix)))
       (sort (map fst (memory_by_prefix_bytes m)))"

definition render_prometheus :: "(rat \<Rightarrow> pystr) \<Rightarrow> MetricsCollector \<Rightarrow> pystr" where
  "render_prometheus show_float m = concat (map (\<lambda>line. line @ [10]) (render_lines show_float m))"

section \<open>The latency histogram\<close>

lemma counter_get_add [simp]:
  "counter_get (counter_add k n c) j = counter_get c j + (if j = k then n else 0)"
  by (simp add: counter_get_def counter_add_def AList.update_conv')

lemma counter_get_Nil [simp]: "counter_get [] k = 0"
  by (simp add: counter_get_def)

text \<open>The collector after a sequence of observations; one that raised still counted.\<close>

primrec observe_all :: "(CommandRequest \<times> rat) list \<Rightarrow> MetricsCollector \<Rightarrow> MetricsCollector" where
  "observe_all [] m = m"
| "observe_all (x # xs) m = observe_all xs (snd (observe_command (fst x) (snd x) m))"

definition durations :: "pystr \<Rightarrow> (CommandRequest \<times> rat) list \<Rightarrow> rat list" where
  "durations name obs = map snd (filter (\<lambda>x. CommandName_value (req_command (fst x)) = name) obs)"

definition bucket_of :: "rat \<Rightarrow> rat option" where
  "bucket_of d = find (\<lambda>bucket. d \<le> bucket) latency_buckets"

definition bucket_counts_of :: "MetricsCollector \<Rightarrow> pystr \<Rightarrow> (rat \<times> int) list" where
  "bucket_counts_of m name = (case map_of (latency_bucket_counts m) name of None \<Rightarrow> [] | Some c \<Rightarrow> c)"

definition latency_sum_of :: "MetricsCollector \<Rightarrow> pystr \<Rightarrow> rat" where
  "latency_sum_of m name = (case map_of (latency_sum_by_command m) name of None \<Rightarrow> 0 | Some x \<Rightarrow> x)"

lemma observe_command_effect:
  defines "hit name r \<equiv> (name = CommandName_value (req_command r))"
  shows "throughput_total (snd (observe_command r d m)) = throughput_total m + 1"
    and "counter_get (throughput_by_command (snd (observe_command r d m))) name =
      counter_get (throughput_by_command m) name + (if hit name r then 1 else 0)"
    and "counter_get (latency_count_by_command (snd (observe_command r d m))) name =
      counter_get (latency_count_by_command m) name + (if hit name r then 1 else 0)"
    and "latency_sum_of (snd (observe_command r d m)) name =
      latency_sum_of m name + (if hit name r then d else 0)"
    and "counter_get (bucket_counts_of (snd (observe_command r d m)) name) b =
      counter_get (bucket_counts_of m name) b + (if hit name r \<and> bucket_of d = Some b then 1 else 0)"
  by (simp_all add: observe_command_def observe_latency_bucket_def Let_def case_prod_beta hit_def
      latency_sum_of_def bucket_counts_of_def bucket_of_def AList.update_conv'
      split: list.split option.split)

lemma observe_all_effect:
  "throughput_total (observe_all obs m) = throughput_total m + int (length obs) \<and>
   counter_get (throughput_by_command (observe_all obs m)) name =
     counter_get (throughput_by_command m) name + int (length (durations name obs)) \<and>
   counter_get (latency_count_by_command (observe_all obs m)) name =
     counter_get (latency_count_by_command m) name + int (length (durations name obs)) \<and>
   latency_sum_of (observe_all obs m) name = latency_sum_of m name + sum_list (durations name obs) \<and>
   counter_get (bucket_counts_of (observe_all obs m) name) b =
     counter_get (bucket_counts_of m name) b +
     int (length (filter (\<lambda>d. bucket_of d = Some b) (durations name obs)))"
  by (induction obs arbitrary: m) (auto simp: observe_command_effect durations_def)

lemma cumulative_counts_map:
  "sorted_wrt (<) bs \<Longrightarrow> cumulative_counts bs c n =
     map (\<lambda>b. (b, n + (\<Sum>x \<leftarrow> filter (\<lambda>x. x \<le> b) bs. counter_get c x))) bs"
proof (induction bs arbitrary: n)
  case (Cons b bs)
  have "filter (\<lambda>x. x \<le> b) bs = []" using Cons.prems by (auto simp: filter_empty_conv)
  moreover have "\<And>x. x \<in> set bs \<Longrightarrow> b \<le> x" using Cons.prems by auto
  ultimately show ?case
    using Cons by (auto simp: Let_def)
qed simp

lemma find_first_le:
  "sorted_wrt (<) bs \<Longrightarrow> b \<in> set bs \<Longrightarrow>
     (\<exists>x. find (\<lambda>x. d \<le> x) bs = Some x \<and> x \<le> b) \<longleftrightarrow> d \<le> (b :: rat)"
proof (induction bs)
  case (Cons y bs)
  have "find (\<lambda>x. d \<le> x) bs = Some x \<Longrightarrow> d \<le> x" for x by (auto simp: find_Some_iff)
  with Cons show ?case by (auto dest: order.trans)
qed simp

text \<open>A list split by the bucket its elements fall in.\<close>

lemma sum_filters:
  "distinct bs \<Longrightarrow> (\<Sum>x \<leftarrow> bs. int (length (filter (\<lambda>d. f d = Some x) ds))) =
     int (length (filter (\<lambda>d. \<exists>x \<in> set bs. f d = Some x) ds))"
proof (induction ds)
  case (Cons d ds)
  have "(\<Sum>x \<leftarrow> bs. int (length (filter (\<lambda>d. f d = Some x) (d # ds)))) =
      (\<Sum>x \<leftarrow> bs. (if f d = Some x then 1 else 0) + int (length (filter (\<lambda>d. f d = Some x) ds)))"
    by (intro arg_cong [of _ _ sum_list] map_cong) auto
  also have "\<dots> = (\<Sum>x \<leftarrow> bs. if f d = Some x then 1 else 0) +
      (\<Sum>x \<leftarrow> bs. int (length (filter (\<lambda>d. f d = Some x) ds)))"
    by (rule sum_list_addf)
  also have "(\<Sum>x \<leftarrow> bs. if f d = Some x then 1 else 0 :: int) = (if \<exists>x \<in> set bs. f d = Some x then 1 else 0)"
    using Cons.prems by (induction bs) (auto simp: split: if_splits)
  finally show ?case using Cons by simp
qed simp

lemma latency_buckets_sorted: "sorted_wrt (<) latency_buckets"
  by (simp add: latency_buckets_def)

lemma cumulative_at:
  assumes "b \<in> set latency_buckets"
  shows "int (length (filter (\<lambda>d. \<exists>x \<in> set (filter (\<lambda>x. x \<le> b) latency_buckets). bucket_of d = Some x) ds)) =
    int (length (filter (\<lambda>d. d \<le> b) ds))"
proof -
  have "(\<exists>x \<in> set (filter (\<lambda>x. x \<le> b) latency_buckets). bucket_of d = Some x) \<longleftrightarrow> d \<le> b" for d
  proof -
    have "x \<in> set latency_buckets" if "bucket_of d = Some x" for x
      using that by (auto simp: bucket_of_def find_Some_iff)
    then show ?thesis
      using find_first_le [OF latency_buckets_sorted assms, of d] by (auto simp: bucket_of_def)
  qed
  then show ?thesis by simp
qed

text \<open>
  C24: the counters are exact. After any observations the totals are the numbers of observations,
  overall and per command; the sum is the sum of the durations; and the number rendered for a
  bucket \<open>le\<close> is the number of that command's durations that are at most \<open>le\<close>, although an
  observation is counted in one bucket only.
\<close>
theorem latency_histogram_spec:
  "let m = observe_all obs MetricsCollector_init; ds = durations name obs in
     throughput_total m = int (length obs) \<and>
     counter_get (throughput_by_command m) name = int (length ds) \<and>
     counter_get (latency_count_by_command m) name = int (length ds) \<and>
     latency_sum_of m name = sum_list ds \<and>
     cumulative_counts latency_buckets (bucket_counts_of m name) 0 =
       map (\<lambda>le. (le, int (length (filter (\<lambda>d. d \<le> le) ds)))) latency_buckets"
proof -
  have init: "throughput_total MetricsCollector_init = 0" "throughput_by_command MetricsCollector_init = []"
    "latency_count_by_command MetricsCollector_init = []" "latency_sum_of MetricsCollector_init name = 0"
    "bucket_counts_of MetricsCollector_init name = []"
    by (simp_all add: MetricsCollector_init_def latency_sum_of_def bucket_counts_of_def)
  define m where "m = observe_all obs MetricsCollector_init"
  note E = observe_all_effect [of obs MetricsCollector_init name, folded m_def]
  have "counter_get (bucket_counts_of m name) b =
      int (length (filter (\<lambda>d. bucket_of d = Some b) (durations name obs)))" for b
    using E by (simp add: init)
  moreover have "distinct latency_buckets" by (simp add: latency_buckets_def)
  ultimately have "cumulative_counts latency_buckets (bucket_counts_of m name) 0 =
      map (\<lambda>b. (b, int (length (filter (\<lambda>d. \<exists>x \<in> set (filter (\<lambda>x. x \<le> b) latency_buckets). bucket_of d = Some x)
        (durations name obs))))) latency_buckets"
    by (simp only: cumulative_counts_map [OF latency_buckets_sorted] sum_filters distinct_filter add_0)
  then show ?thesis
    using E cumulative_at by (simp add: init Let_def flip: m_def cong: map_cong)
qed

section \<open>Label values\<close>

text \<open>How a reader of the exposition format takes a quoted label value off the text.\<close>

fun unescape_label :: "pystr \<Rightarrow> (pystr \<times> pystr) option" where
  "unescape_label [] = None"
| "unescape_label (c # r) =
     (if c = 34 then Some ([], r)
      else if c = 10 then None
      else if c = 92 then
        (case r of
           [] \<Rightarrow> None
         | e # r' \<Rightarrow>
             if e \<in> {92, 34} then map_option (\<lambda>(v, u). (e # v, u)) (unescape_label r')
             else if e = 110 then map_option (\<lambda>(v, u). (10 # v, u)) (unescape_label r')
             else None)
      else map_option (\<lambda>(v, u). (c # v, u)) (unescape_label r))"

definition escape_char :: "nat \<Rightarrow> pystr" where
  "escape_char c = (if c = 92 then [92, 92] else if c = 34 then [92, 34] else if c = 10 then [92, 110] else [c])"

lemma escape_label_value_map: "escape_label_value v = concat (map escape_char v)"
  by (induction v) (simp_all add: escape_label_value_def replace_char_def escape_char_def)

text \<open>
  A key cannot break out of its label. Whatever characters a key or a prefix has, the text
  rendered for it up to the closing quote is read back as exactly that key, with the rest of the
  line untouched, and it contains no newline.
\<close>
theorem escape_label_value_roundtrip:
  "unescape_label (escape_label_value v @ 34 # r) = Some (v, r) \<and> 10 \<notin> set (escape_label_value v)"
proof (induction v)
  case (Cons c v)
  then show ?case by (simp add: escape_label_value_map escape_char_def)
qed (simp add: escape_label_value_map)

end
