(* ===== verification/Utf8.thy ===== *)
theory Utf8
  imports Sha256 Json
begin

text \<open>
  Decoding what a client sends: \<open>raw.decode("utf-8", errors="replace")\<close> of
  src/src/server.py. Each maximal part of an ill-formed sequence becomes one U+FFFD, as
  Python's decoder does it.
\<close>

section \<open>The decoder\<close>

text \<open>
  What a lead byte announces: the number of continuation bytes, the range of the first of them,
  and the bits of the lead byte.
\<close>

definition utf8_lead :: "nat \<Rightarrow> (nat \<times> nat \<times> nat \<times> nat) option" where
  "utf8_lead b =
     (if b < 194 then None
      else if b < 224 then Some (1, 128, 191, b - 192)
      else if b = 224 then Some (2, 160, 191, 0)
      else if b = 237 then Some (2, 128, 159, 13)
      else if b < 240 then Some (2, 128, 191, b - 224)
      else if b = 240 then Some (3, 144, 191, 0)
      else if b < 244 then Some (3, 128, 191, b - 240)
      else if b = 244 then Some (3, 128, 143, 4)
      else None)"

fun utf8_rest :: "nat \<Rightarrow> nat \<Rightarrow> nat \<Rightarrow> nat \<Rightarrow> nat list \<Rightarrow> nat \<times> nat list" where
  "utf8_rest 0 lo hi code bs = (code, bs)"
| "utf8_rest (Suc n) lo hi code [] = (65533, [])"
| "utf8_rest (Suc n) lo hi code (b # bs) =
     (if lo \<le> b \<and> b \<le> hi then utf8_rest n 128 191 (code * 64 + (b - 128)) bs else (65533, b # bs))"

lemma length_utf8_rest: "length (snd (utf8_rest n lo hi code bs)) \<le> length bs"
  by (induction n lo hi code bs rule: utf8_rest.induct) auto

function utf8_codes :: "nat list \<Rightarrow> pystr" where
  "utf8_codes [] = []"
| "utf8_codes (b # bs) =
     (if b < 128 then b # utf8_codes bs
      else (case utf8_lead b of
          None \<Rightarrow> 65533 # utf8_codes bs
        | Some (n, lo, hi, code) \<Rightarrow>
            fst (utf8_rest n lo hi code bs) # utf8_codes (snd (utf8_rest n lo hi code bs))))"
  by pat_completeness auto

termination
  by (relation "measure length") (auto simp: le_imp_less_Suc length_utf8_rest)

definition utf8_decode_replace :: "8 word list \<Rightarrow> pystr" where
  "utf8_decode_replace raw = utf8_codes (map unat raw)"

declare utf8_codes.simps(2) [simp del]

section \<open>What decoding yields\<close>

lemma utf8_rest_one:
  "fst (utf8_rest 1 lo hi code bs) = 65533 \<or>
   (\<exists>x. lo \<le> x \<and> x \<le> hi \<and> fst (utf8_rest 1 lo hi code bs) = code * 64 + (x - 128))"
  by (cases bs) auto

lemma utf8_rest_Suc:
  "fst (utf8_rest (Suc n) lo hi code bs) = 65533 \<or>
   (\<exists>x r. lo \<le> x \<and> x \<le> hi \<and>
      fst (utf8_rest (Suc n) lo hi code bs) = fst (utf8_rest n 128 191 (code * 64 + (x - 128)) r))"
  by (cases bs) auto

lemma utf8_rest_two:
  "fst (utf8_rest 2 lo hi code bs) = 65533 \<or>
   (\<exists>x y. lo \<le> x \<and> x \<le> hi \<and> 128 \<le> y \<and> y \<le> 191 \<and>
      fst (utf8_rest 2 lo hi code bs) = (code * 64 + (x - 128)) * 64 + (y - 128))"
proof -
  have "fst (utf8_rest 2 lo hi code bs) = 65533 \<or> (\<exists>x r. lo \<le> x \<and> x \<le> hi \<and>
      fst (utf8_rest 2 lo hi code bs) = fst (utf8_rest 1 128 191 (code * 64 + (x - 128)) r))"
    using utf8_rest_Suc [of 1 lo hi code bs] unfolding Suc_1 .
  then show ?thesis using utf8_rest_one [of 128 191] by fastforce
qed

lemma utf8_rest_three:
  "fst (utf8_rest 3 lo hi code bs) = 65533 \<or>
   (\<exists>x y z. lo \<le> x \<and> x \<le> hi \<and> 128 \<le> y \<and> y \<le> 191 \<and> 128 \<le> z \<and> z \<le> 191 \<and>
      fst (utf8_rest 3 lo hi code bs) = ((code * 64 + (x - 128)) * 64 + (y - 128)) * 64 + (z - 128))"
proof -
  have three: "Suc 2 = 3" by simp
  have "fst (utf8_rest 3 lo hi code bs) = 65533 \<or> (\<exists>x r. lo \<le> x \<and> x \<le> hi \<and>
      fst (utf8_rest 3 lo hi code bs) = fst (utf8_rest 2 128 191 (code * 64 + (x - 128)) r))"
    using utf8_rest_Suc [of 2 lo hi code bs] unfolding three .
  then consider "fst (utf8_rest 3 lo hi code bs) = 65533"
    | x r where "lo \<le> x" "x \<le> hi"
      "fst (utf8_rest 3 lo hi code bs) = fst (utf8_rest 2 128 191 (code * 64 + (x - 128)) r)" by blast
  then show ?thesis
  proof cases
    case 2
    show ?thesis
      using utf8_rest_two [of 128 191 "code * 64 + (x - 128)" r] 2 by metis
  qed simp
qed

definition scalar :: "nat \<Rightarrow> bool" where
  "scalar c \<longleftrightarrow> c < 1114112 \<and> \<not> (55296 \<le> c \<and> c \<le> 57343)"

lemma utf8_lead_scalar:
  assumes "utf8_lead b = Some (n, lo, hi, code)"
  shows "scalar (fst (utf8_rest n lo hi code bs))"
proof -
  have "n = 1 \<and> lo = 128 \<and> hi = 191 \<and> code < 32 \<or>
      n = 2 \<and> 128 \<le> lo \<and> hi \<le> 191 \<and> code < 16 \<and> (code < 13 \<or> 13 < code \<or> code = 13 \<and> hi = 159) \<or>
      n = 3 \<and> 128 \<le> lo \<and> hi \<le> 191 \<and> code \<le> 4 \<and> (0 < code \<or> code = 0 \<and> 144 \<le> lo) \<and>
        (code < 4 \<or> code = 4 \<and> hi = 143)"
    using assms by (auto simp: utf8_lead_def split: if_splits)
  then consider "n = 1" "lo = 128" "hi = 191" "code < 32"
    | "n = 2" "128 \<le> lo" "hi \<le> 191" "code < 16" "code < 13 \<or> 13 < code \<or> code = 13 \<and> hi = 159"
    | "n = 3" "128 \<le> lo" "hi \<le> 191" "code \<le> 4" "0 < code \<or> code = 0 \<and> 144 \<le> lo"
      "code < 4 \<or> code = 4 \<and> hi = 143" by blast
  then show ?thesis
  proof cases
    case 1
    then show ?thesis
      using utf8_rest_one [of lo hi code bs] by (auto simp: scalar_def)
  next
    case 2
    then show ?thesis
      using utf8_rest_two [of lo hi code bs] by (auto simp: scalar_def)
  next
    case 3
    then show ?thesis
      using utf8_rest_three [of lo hi code bs] by (auto simp: scalar_def)
  qed
qed

lemma utf8_codes_scalar: "scalar_text (utf8_codes bs)"
proof (induction bs rule: utf8_codes.induct)
  case (2 b bs)
  then show ?case
    using utf8_lead_scalar [of b]
    by (auto simp: utf8_codes.simps(2) scalar_text_def scalar_def split: option.split)
qed (simp add: scalar_text_def)

section \<open>Decoding what was encoded\<close>

lemma unat_byte: "x < 256 \<Longrightarrow> unat (of_nat x :: 8 word) = x"
  by (simp add: unat_of_nat take_bit_nat_eq_self)

lemma scalar_text_Cons [simp]: "scalar_text (c # s) \<longleftrightarrow> scalar c \<and> scalar_text s"
  by (auto simp: scalar_text_def scalar_def)

lemma utf8_codes_char:
  assumes "scalar c" and "utf8_char c = Inr bs"
  shows "utf8_codes (map unat bs @ r) = c # utf8_codes r"
proof -
  consider "c < 128" | "128 \<le> c" "c < 2048" | "2048 \<le> c" "c < 65536" | "65536 \<le> c" by linarith
  then show ?thesis
  proof cases
    case 1
    then show ?thesis using assms by (auto simp: utf8_char_def unat_byte utf8_codes.simps(2))
  next
    case 2
    then have b: "194 \<le> 192 + c div 64" "192 + c div 64 < 224" by linarith+
    have lead: "utf8_lead (192 + c div 64) = Some (1, 128, 191, c div 64)"
      using b by (simp add: utf8_lead_def)
    have bs: "map unat bs = [192 + c div 64, 128 + c mod 64]"
      using assms(2) 2 b by (auto simp: utf8_char_def unat_byte simp del: of_nat_add)
    have "c mod 64 \<le> 63" by presburger
    then show ?thesis using b lead by (simp add: bs utf8_codes.simps(2))
  next
    case 3
    define x y z where "x = c div 4096" and "y = c div 64 mod 64" and "z = c mod 64"
    have "x = c div 64 div 64" by (simp add: x_def div_mult2_eq [symmetric])
    then have c: "c = (x * 64 + y) * 64 + z" by (simp add: y_def z_def)
    have r: "x < 16" "y < 64" "z < 64"
      using 3 by (simp_all add: x_def y_def z_def less_mult_imp_div_less)
    have bs: "map unat bs = [224 + x, 128 + y, 128 + z]"
      using assms 3 r by (auto simp: utf8_char_def unat_byte scalar_def x_def y_def z_def simp del: of_nat_add)
    have "x = 0 \<longrightarrow> 32 \<le> y" "x = 13 \<longrightarrow> y \<le> 31"
      using c 3 assms(1) r by (auto simp: scalar_def)
    then have "\<exists>lo hi. utf8_lead (224 + x) = Some (2, lo, hi, x) \<and> lo \<le> 128 + y \<and> 128 + y \<le> hi"
      using r by (auto simp: utf8_lead_def)
    then show ?thesis using r by (auto simp: bs c utf8_codes.simps(2) numeral_2_eq_2)
  next
    case 4
    define w x y z where "w = c div 262144" and "x = c div 4096 mod 64"
      and "y = c div 64 mod 64" and "z = c mod 64"
    have "w = c div 64 div 64 div 64" "x = c div 64 div 64 mod 64"
      by (simp_all add: w_def x_def div_mult2_eq [symmetric])
    then have c: "c = ((w * 64 + x) * 64 + y) * 64 + z" by (simp add: y_def z_def)
    have r: "x < 64" "y < 64" "z < 64" by (simp_all add: x_def y_def z_def)
    have w: "w \<le> 4" using assms(1) by (auto simp: scalar_def w_def)
    have bs: "map unat bs = [240 + w, 128 + x, 128 + y, 128 + z]"
      using assms 4 r w by (auto simp: utf8_char_def unat_byte scalar_def w_def x_def y_def z_def simp del: of_nat_add)
    have "w = 0 \<longrightarrow> 16 \<le> x" "w = 4 \<longrightarrow> x \<le> 15"
      using c 4 assms(1) r by (auto simp: scalar_def)
    then have "\<exists>lo hi. utf8_lead (240 + w) = Some (3, lo, hi, w) \<and> lo \<le> 128 + x \<and> 128 + x \<le> hi"
      using r w by (auto simp: utf8_lead_def)
    then show ?thesis using r by (auto simp: bs c utf8_codes.simps(2) numeral_3_eq_3)
  qed
qed

text \<open>
  The byte layer. Whatever bytes arrive, decoding them yields text of Unicode scalar values
  (so that hashing and logging it never raises), and encoding such a text and decoding the bytes
  gives it back.
\<close>
theorem utf8_decode_roundtrip:
  "scalar_text (utf8_decode_replace raw) \<and>
   (scalar_text s \<longrightarrow> (\<exists>bs. utf8_encode s = Inr bs \<and> utf8_decode_replace bs = s))"
proof (intro conjI impI)
  show "scalar_text (utf8_decode_replace raw)"
    by (simp add: utf8_decode_replace_def utf8_codes_scalar)
  show "\<exists>bs. utf8_encode s = Inr bs \<and> utf8_decode_replace bs = s" if "scalar_text s"
    using that
  proof (induction s)
    case (Cons c s)
    then obtain bs where "utf8_encode s = Inr bs" "utf8_decode_replace bs = s" by auto
    moreover obtain cb where cb: "utf8_char c = Inr cb"
      using Cons.prems by (cases "utf8_char c") (auto simp: utf8_char_def scalar_def split: if_splits)
    moreover have "scalar c" using Cons.prems by simp
    ultimately show ?case
      using utf8_codes_char [of c cb] by (simp add: utf8_decode_replace_def)
  qed (simp add: utf8_decode_replace_def)
qed

theorem utf8_decode_roundtrip_witness:
  "\<exists>bs. utf8_encode [8364, 65] = Inr bs \<and> utf8_decode_replace bs = [8364, 65]"
proof -
  have "scalar_text [8364, 65]" by (simp add: scalar_text_def)
  then show ?thesis using utf8_decode_roundtrip by blast
qed

end
