(* ===== verification/Server.thy ===== *)
theory Server
  imports Worker_Pool Worker Router Metrics Utf8
begin

text \<open>
  The runtime of src/src/server.py: from the bytes of a connection to the bytes of the answer.
  The state is that of the single-process mode (router, workers, log, metrics); with worker
  processes a request goes to the pool of theory Worker_Pool instead. The coroutines never suspend
  between a request's dispatch and its answer, so one command is one step; several connections
  interleave by commands. Opening and closing sockets is not modelled.
\<close>

section \<open>HTTP\<close>

record HttpResponse =
  http_status_code :: int
  http_content_type :: pystr
  http_body :: pystr

definition metrics_endpoint :: "(rat \<Rightarrow> pystr) \<Rightarrow> MetricsCollector \<Rightarrow> pystr \<Rightarrow> HttpResponse" where
  "metrics_endpoint show_float metrics path =
     (if path \<noteq> lit ''/metrics'' then
        \<lparr>http_status_code = 404, http_content_type = lit ''text/plain; charset=utf-8'',
         http_body = lit ''not found'' @ [10]\<rparr>
      else \<lparr>http_status_code = 200, http_content_type = lit ''text/plain; version=0.0.4; charset=utf-8'',
            http_body = render_prometheus show_float metrics\<rparr>)"

definition reason_phrase :: "int \<Rightarrow> pystr" where
  "reason_phrase status_code =
     (if status_code = 200 then lit ''OK''
      else if status_code = 404 then lit ''Not Found''
      else lit ''Error'')"

definition request_path :: "8 word list \<Rightarrow> pystr" where
  "request_path request_line =
     (if request_line = [] then lit ''/''
      else let parts = py_split (py_strip (utf8_decode_replace request_line))
           in if length parts \<ge> 2 then parts ! 1 else lit ''/'')"

text \<open>The answer to one HTTP request; the request's other header lines are read and dropped.\<close>

definition handle_metrics_http ::
    "(rat \<Rightarrow> pystr) \<Rightarrow> MetricsCollector \<Rightarrow> 8 word list \<Rightarrow> py_exn + 8 word list" where
  "handle_metrics_http show_float metrics request_line =
     (let response = metrics_endpoint show_float metrics (request_path request_line) in
      case utf8_encode (http_body response) of
        Inl e \<Rightarrow> Inl e
      | Inr payload \<Rightarrow>
          (case utf8_encode (
             lit ''HTTP/1.1 '' @ py_str_int (http_status_code response) @ lit '' '' @
               reason_phrase (http_status_code response) @ crlf @
             lit ''Content-Type: '' @ http_content_type response @ crlf @
             lit ''Content-Length: '' @ py_str_int (int (length payload)) @ crlf @
             lit ''Connection: close'' @ crlf @ crlf) of
             Inl e \<Rightarrow> Inl e
           | Inr headers \<Rightarrow> Inr (headers @ payload)))"

section \<open>The runtime\<close>

record Runtime =
  rt_router :: DeterministicHashRouter
  rt_workers :: "(pystr \<times> MemoryStore StoreWorker) list"
  rt_persistence :: AofPersistence
  rt_metrics :: MetricsCollector
  rt_connection_sequence :: int

text \<open>
  \<open>clocks\<close> gives each worker's store its time source. The log is opened with the defaults of
  \<open>AofPersistence\<close>; a worker count below one makes the router raise.
\<close>

definition Runtime_init ::
    "LiteStoreConfig \<Rightarrow> (pystr \<Rightarrow> nat \<Rightarrow> rat) \<Rightarrow> pystr \<times> (nat \<Rightarrow> (nat \<times> pystr) option) \<Rightarrow> py_exn + Runtime" where
  "Runtime_init config clocks aof =
     (let worker_ids = pool_worker_ids (cfg_worker_count config) in
      case DeterministicHashRouter_init worker_ids of
        Inl e \<Rightarrow> Inl e
      | Inr router \<Rightarrow>
          (case AofPersistence_init (fst aof) (snd aof) EVERY_N 100 of
             Inl e \<Rightarrow> Inl e
           | Inr persistence \<Rightarrow> Inr
               \<lparr>rt_router = router,
                rt_workers = map (\<lambda>(index, wid). (wid, StoreWorker_init wid index (MemoryStore_init (clocks wid) None)))
                  (zip (map int [0..<length worker_ids]) worker_ids),
                rt_persistence = persistence, rt_metrics = MetricsCollector_init,
                rt_connection_sequence = 0\<rparr>))"

definition is_persisted_write :: "CommandRequest \<Rightarrow> CommandResponse \<Rightarrow> bool" where
  "is_persisted_write request response =
     (if resp_kind response = ERROR then False
      else if req_command request = SET then True
      else if req_command request = DEL then True
      else if req_command request = EXPIRE \<and> resp_integer response = Some 1 then True
      else False)"

definition error_response :: "ErrorCode \<Rightarrow> pystr \<Rightarrow> pystr option \<Rightarrow> CommandResponse" where
  "error_response code message request_id = (mk_response ERROR)\<lparr>resp_error_code := Some code,
     resp_message := Some message, resp_request_id := request_id\<rparr>"

text \<open>What the runtime does with a request once its worker has answered; only \<open>OSError\<close> is caught.\<close>

definition persist_write :: "CommandRequest \<Rightarrow> CommandResponse \<Rightarrow> Runtime \<Rightarrow> (py_exn + CommandResponse) \<times> Runtime" where
  "persist_write request response rt =
     (if is_persisted_write request response then
        (case append_request request (rt_persistence rt) of
           (Inl (OSError exc), a) \<Rightarrow>
             (Inr (error_response PERSISTENCE_ERROR (lit ''Persistence append failed: '' @ exc)
                (req_request_id request)), rt\<lparr>rt_persistence := a\<rparr>)
         | (Inl e, a) \<Rightarrow> (Inl e, rt\<lparr>rt_persistence := a\<rparr>)
         | (Inr _, a) \<Rightarrow> (Inr response, rt\<lparr>rt_persistence := a\<rparr>))
      else (Inr response, rt))"

text \<open>Routing a request and executing it, as \<open>_dispatch_request\<close> and \<open>_replay_persistence\<close> both do.\<close>

definition execute_routed ::
    "unicode_db \<Rightarrow> CommandRequest \<Rightarrow> Runtime \<Rightarrow> (py_exn + CommandResponse) \<times> Runtime" where
  "execute_routed U request rt =
     (case route_request (rt_router rt) request of
        Inl e \<Rightarrow> (Inl e, rt)
      | Inr route \<Rightarrow>
          (case map_of (rt_workers rt) (route_worker_id route) of
             None \<Rightarrow> (Inl KeyError, rt)
           | Some worker \<Rightarrow>
               (let (result, worker1) = worker_execute U memory_store_ops request worker
                in (result, rt\<lparr>rt_workers := AList.update (route_worker_id route) worker1 (rt_workers rt)\<rparr>))))"

definition dispatch_request ::
    "unicode_db \<Rightarrow> CommandRequest \<Rightarrow> Runtime \<Rightarrow> (py_exn + CommandResponse) \<times> Runtime" where
  "dispatch_request U request rt =
     (case execute_routed U request rt of
        (Inl e, rt1) \<Rightarrow> (Inl e, rt1)
      | (Inr response, rt1) \<Rightarrow> persist_write request response rt1)"

text \<open>\<open>duration\<close> is the difference of two readings of \<open>perf_counter\<close>.\<close>

definition process_command_bytes ::
    "unicode_db \<Rightarrow> 8 word list \<Rightarrow> pystr \<Rightarrow> pystr \<Rightarrow> rat \<Rightarrow> Runtime \<Rightarrow> (py_exn + CommandResponse) \<times> Runtime" where
  "process_command_bytes U raw connection_id request_id duration rt =
     (case parse_command U (utf8_decode_replace raw) (Some request_id) (Some connection_id) of
        Inl exc \<Rightarrow> (Inr (error_response (err_code exc) (err_message exc) (Some request_id)), rt)
      | Inr request \<Rightarrow>
          (case dispatch_request U request rt of
             (Inl e, rt1) \<Rightarrow> (Inl e, rt1)
           | (Inr response, rt1) \<Rightarrow>
               (case observe_command request duration (rt_metrics rt1) of
                  (Inl e, m) \<Rightarrow> (Inl e, rt1\<lparr>rt_metrics := m\<rparr>)
                | (Inr _, m) \<Rightarrow> (Inr response, rt1\<lparr>rt_metrics := m\<rparr>))))"

definition connection_name :: "(pystr \<times> pystr) option \<Rightarrow> int \<Rightarrow> pystr" where
  "connection_name peer n =
     (case peer of
        Some (host, port) \<Rightarrow> host @ lit '':'' @ port @ lit '':'' @ py_str_int n
      | None \<Rightarrow> lit ''connection:'' @ py_str_int n)"

definition next_connection_id :: "(pystr \<times> pystr) option \<Rightarrow> Runtime \<Rightarrow> pystr \<times> Runtime" where
  "next_connection_id peer rt =
     (let rt1 = rt\<lparr>rt_connection_sequence := rt_connection_sequence rt + 1\<rparr>
      in (connection_name peer (rt_connection_sequence rt1), rt1))"

text \<open>
  One connection: the lines it sends, and the bytes it is sent back until an exception ends it.
  \<open>request_index\<close> is the number of the last request.
\<close>

primrec handle_lines ::
    "unicode_db \<Rightarrow> pystr \<Rightarrow> (8 word list \<times> rat) list \<Rightarrow> int \<Rightarrow> Runtime \<Rightarrow>
     (raised + unit) \<times> 8 word list \<times> Runtime" where
  "handle_lines U connection_id [] request_index rt = (Inr (), [], rt)"
| "handle_lines U connection_id (x # xs) request_index rt =
     (let request_id = connection_id @ lit '':'' @ py_str_int (request_index + 1) in
      case process_command_bytes U (fst x) connection_id request_id (snd x) rt of
        (Inl e, rt1) \<Rightarrow> (Inl (PyError e), [], rt1)
      | (Inr response, rt1) \<Rightarrow>
          (case serialize_response response of
             Inl e \<Rightarrow> (Inl e, [], rt1)
           | Inr text \<Rightarrow>
               (case utf8_encode text of
                  Inl e \<Rightarrow> (Inl (PyError e), [], rt1)
                | Inr out \<Rightarrow>
                    (let (r, rest, rt2) = handle_lines U connection_id xs (request_index + 1) rt1
                     in (r, out @ rest, rt2)))))"

primrec replay_routed :: "unicode_db \<Rightarrow> PersistRecord list \<Rightarrow> Runtime \<Rightarrow> (py_exn + unit) \<times> Runtime" where
  "replay_routed U [] rt = (Inr (), rt)"
| "replay_routed U (r # rs) rt =
     (case execute_routed U (rec_request r) rt of
        (Inl e, rt1) \<Rightarrow> (Inl e, rt1)
      | (Inr _, rt1) \<Rightarrow> replay_routed U rs rt1)"

definition replay_persistence :: "unicode_db \<Rightarrow> Runtime \<Rightarrow> (py_exn + unit) \<times> Runtime" where
  "replay_persistence U rt =
     (case replay_routed U (fst (aof_replay (rt_persistence rt))) rt of
        (Inl e, rt1) \<Rightarrow> (Inl e, rt1)
      | (Inr _, rt1) \<Rightarrow> ((case snd (aof_replay (rt_persistence rt)) of None \<Rightarrow> Inr () | Some e \<Rightarrow> Inl e), rt1))"

text \<open>The snapshots of the workers, merged; the sweeps they do change the workers' stores.\<close>

primrec merge_snapshots ::
    "(pystr \<times> MemoryStore StoreWorker) list \<Rightarrow> (pystr \<times> pystr) list \<Rightarrow>
     (pystr \<times> pystr) list \<times> (pystr \<times> MemoryStore StoreWorker) list" where
  "merge_snapshots [] aggregated = (aggregated, [])"
| "merge_snapshots (x # xs) aggregated =
     (let (data, w) = worker_snapshot memory_store_ops (snd x);
          (result, ws) = merge_snapshots xs (fold (\<lambda>(k, v). AList.update k v) data aggregated)
      in (result, (fst x, w) # ws))"

definition refresh_metrics_snapshot :: "Runtime \<Rightarrow> (py_exn + unit) \<times> Runtime" where
  "refresh_metrics_snapshot rt =
     (if rt_workers rt = [] then (Inr (), rt)
      else let (aggregated, ws) = merge_snapshots (rt_workers rt) [];
               (r, m) = observe_store_snapshot aggregated (rt_metrics rt)
           in (r, rt\<lparr>rt_workers := ws, rt_metrics := m\<rparr>))"

text \<open>\<open>start\<close> and \<open>close\<close>, but for the sockets and the refresh task.\<close>

definition runtime_start :: "unicode_db \<Rightarrow> Runtime \<Rightarrow> (py_exn + unit) \<times> Runtime" where
  "runtime_start U rt =
     (case replay_persistence U (rt\<lparr>rt_workers := map (map_prod id worker_start) (rt_workers rt)\<rparr>) of
        (Inl e, rt1) \<Rightarrow> (Inl e, rt1)
      | (Inr _, rt1) \<Rightarrow> refresh_metrics_snapshot rt1)"

definition runtime_close :: "Runtime \<Rightarrow> (py_exn + unit) \<times> Runtime" where
  "runtime_close rt =
     (let (r, a) = aof_close (rt_persistence rt)
      in (r, rt\<lparr>rt_workers := map (map_prod id worker_stop) (rt_workers rt), rt_persistence := a\<rparr>))"

section \<open>The runtime as a dictionary\<close>

text \<open>A dictionary whose texts all have an encoding.\<close>

definition clean :: "(pystr \<rightharpoonup> pystr) \<Rightarrow> bool" where
  "clean m \<longleftrightarrow> (\<forall>k v. m k = Some v \<longrightarrow> \<not> has_surrogate k \<and> \<not> has_surrogate v)"

lemma scalar_no_surrogate: "scalar_text s \<Longrightarrow> \<not> has_surrogate s"
  by (auto simp: scalar_text_def has_surrogate_def)

definition clean_request :: "CommandRequest \<Rightarrow> bool" where
  "clean_request r \<longleftrightarrow> data_command r \<and> (\<forall>x \<in> set (req_args r). \<not> has_surrogate x)"

definition worker_ok :: "MemoryStore StoreWorker \<Rightarrow> bool" where
  "worker_ok w \<longleftrightarrow> worker_running w \<and> (\<exists>m. holds (worker_store w) m \<and> clean m)"

text \<open>Workers that run, each in the place the router has for it, none with deadlines.\<close>

definition rt_ok :: "Runtime \<Rightarrow> bool" where
  "rt_ok rt \<longleftrightarrow> router_inv (rt_router rt) \<and> distinct (router_worker_ids (rt_router rt)) \<and>
     map fst (rt_workers rt) = router_worker_ids (rt_router rt) \<and>
     (\<forall>x \<in> set (rt_workers rt). worker_ok (snd x))"

text \<open>The value of a key is the one in the store of the worker that owns the key.\<close>

definition rt_content :: "Runtime \<Rightarrow> pystr \<rightharpoonup> pystr" where
  "rt_content rt k = (case route_key (rt_router rt) k of
      Inl _ \<Rightarrow> None
    | Inr route \<Rightarrow> (case map_of (rt_workers rt) (route_worker_id route) of
        None \<Rightarrow> None | Some w \<Rightarrow> content (worker_store w) k))"

lemma data_effect_at:
  "data_effect r m k =
     (if data_write r \<and> k = req_args r ! 0 then (if req_command r = SET then Some (req_args r ! 1) else None)
      else m k)"
  by (auto simp: data_effect_def data_write_def)

lemma clean_data_effect: "clean m \<Longrightarrow> clean_request r \<Longrightarrow> clean (data_effect r m)"
  unfolding clean_def clean_request_def data_effect_at
  by (auto simp: data_write_def intro: nth_mem)

lemma worker_execute_data:
  assumes "worker_ok w" and "clean_request r"
  shows "\<exists>resp w'. worker_execute U memory_store_ops r w = (Inr resp, w') \<and> worker_ok w' \<and>
    content (worker_store w') = data_effect r (content (worker_store w)) \<and>
    (is_persisted_write r resp \<longleftrightarrow> data_write r) \<and>
    dict_command fnmatch r (content (worker_store w)) resp (content (worker_store w'))"
proof -
  obtain m where w: "worker_running w" "holds (worker_store w) m" "clean m"
    using assms(1) by (auto simp: worker_ok_def)
  have sw: "snd (op_process_expirations memory_store_ops None (worker_store w)) = swept (worker_store w)"
    using memory_store.process_eq w(2) by (simp add: holds_def)
  obtain res s' where x: "execute_command U memory_store_ops r (swept (worker_store w)) = (res, s')" by fastforce
  have "data_command r" using assms(2) by (simp add: clean_request_def)
  from execute_data [OF holds_swept [OF w(2)] this x]
  obtain resp where res: "res = Inr resp" "holds s' (data_effect r m)" "is_write r resp \<longleftrightarrow> data_write r"
    "dict_command fnmatch r m resp (data_effect r m)" by blast
  moreover have "is_persisted_write r resp = is_write r resp" by (simp add: is_persisted_write_def is_write_def)
  ultimately show ?thesis
    using w x clean_data_effect [OF w(3) assms(2)]
    by (auto simp: worker_execute_running sw worker_ok_def holds_def)
qed

text \<open>The worker a request goes to, and the workers after one of them has changed.\<close>

lemma routed_worker:
  assumes "router_inv r" and "map fst ws = router_worker_ids r" and "\<forall>x \<in> set (req_args q). \<not> has_surrogate x"
  shows "\<exists>route w. route_request r q = Inr route \<and> map_of ws (route_worker_id route) = Some w"
proof -
  have key: "k \<in> set (req_args q)" if "extract_key_from_request q = Some k" for k
    using that by (auto simp: extract_key_from_request_def split: if_splits)
  have "\<not> (\<exists>e. route_request r q = Inl e)"
    using router.route_error [OF assms(1)] key assms(3) by auto
  then obtain route where route: "route_request r q = Inr route" by (cases "route_request r q") auto
  have "route_worker_id route \<in> fst ` set ws"
    using router.route_worker_mem [OF assms(1) route] assms(2) by (simp flip: set_map)
  then show ?thesis using route key_in_dict_iff by metis
qed

lemma updated_workers:
  assumes "dict_ok ws" and "map_of ws i = Some w" and "\<forall>x \<in> set ws. P (snd x)" and "P w'"
  shows "map fst (AList.update i w' ws) = map fst ws \<and> (\<forall>y \<in> set (AList.update i w' ws). P (snd y))"
proof
  have "i \<in> set (map fst ws)" using assms(2) by (metis map_of_eq_None_iff option.distinct(1) set_map)
  then show "map fst (AList.update i w' ws) = map fst ws" by (simp add: AList.update_keys)
  show "\<forall>y \<in> set (AList.update i w' ws). P (snd y)"
  proof
    fix y assume "y \<in> set (AList.update i w' ws)"
    then have "map_of (AList.update i w' ws) (fst y) = Some (snd y)"
      using dict_ok_update [OF assms(1)] mem_dict_iff by (metis prod.collapse)
    then have "snd y = w' \<or> map_of ws (fst y) = Some (snd y)"
      by (auto simp: AList.update_conv' split: if_splits)
    then show "P (snd y)" using assms(3,4) map_of_SomeD [of ws "fst y" "snd y"] by auto
  qed
qed

text \<open>
  The commands that concern one key or none; what they answer depends on that key only, so that
  the worker that owns it can answer for the whole.
\<close>

definition single_key :: "CommandRequest \<Rightarrow> bool" where
  "single_key r \<longleftrightarrow> req_command r \<in> {PING, SET, GET, DEL, TTL}"

lemma dict_command_local:
  assumes "dict_command fnmatch r m resp (data_effect r m)" and "single_key r"
    and "arity_ok (req_command r) (length (req_args r)) \<and> req_command r \<noteq> PING \<longrightarrow>
      n (req_args r ! 0) = m (req_args r ! 0)"
  shows "dict_command fnmatch r n resp (data_effect r n)"
  using assms by (cases "req_command r") (auto simp: dict_command_def data_effect_def single_key_def Let_def)

text \<open>
  What the whole holds when each worker holds a dictionary: the value of a key at its owner. A
  command changes the whole as it changes the worker it is routed to, and its answer is the one for
  the whole if it concerns one key.
\<close>

definition owner_content ::
    "DeterministicHashRouter \<Rightarrow> (pystr \<rightharpoonup> (pystr \<rightharpoonup> pystr)) \<Rightarrow> (pystr \<rightharpoonup> pystr)" where
  "owner_content r f k = (case route_key r k of
      Inl _ \<Rightarrow> None
    | Inr route \<Rightarrow> (case f (route_worker_id route) of None \<Rightarrow> None | Some m \<Rightarrow> m k))"

lemma owner_effect:
  assumes route: "route_request r q = Inr route" and m: "f (route_worker_id route) = Some m"
  shows "owner_content r (f(route_worker_id route \<mapsto> data_effect q m)) = data_effect q (owner_content r f)"
    and "single_key q \<Longrightarrow> dict_command fnmatch q m resp (data_effect q m) \<Longrightarrow>
      dict_command fnmatch q (owner_content r f) resp (data_effect q (owner_content r f))"
proof -
  have owner: "data_write q \<longrightarrow> route_key r (req_args q ! 0) = Inr route"
    using route by (cases "req_args q") (auto simp: data_write_def extract_key_from_request_def route_request_def)
  have "owner_content r (f(route_worker_id route \<mapsto> data_effect q m)) k = data_effect q (owner_content r f) k" for k
  proof (cases "route_key r k")
    case (Inl e)
    then show ?thesis using owner by (auto simp: owner_content_def data_effect_at)
  next
    case (Inr kr)
    then show ?thesis
      using m owner
      by (cases "route_worker_id kr = route_worker_id route") (auto simp: owner_content_def data_effect_at)
  qed
  then show "owner_content r (f(route_worker_id route \<mapsto> data_effect q m)) = data_effect q (owner_content r f)"
    by blast
  assume q: "single_key q" and d: "dict_command fnmatch q m resp (data_effect q m)"
  show "dict_command fnmatch q (owner_content r f) resp (data_effect q (owner_content r f))"
  proof (rule dict_command_local [OF d q], rule impI)
    assume "arity_ok (req_command q) (length (req_args q)) \<and> req_command q \<noteq> PING"
    then have "extract_key_from_request q = Some (req_args q ! 0)"
      using q by (cases "req_args q") (auto simp: single_key_def extract_key_from_request_def)
    then have "route_key r (req_args q ! 0) = Inr route" using route by (simp add: route_request_def)
    then show "owner_content r f (req_args q ! 0) = m (req_args q ! 0)"
      using m by (simp add: owner_content_def)
  qed
qed

lemma rt_content_owner:
  "rt_content rt = owner_content (rt_router rt) (\<lambda>i. map_option (\<lambda>w. content (worker_store w)) (map_of (rt_workers rt) i))"
  by (rule ext) (simp add: rt_content_def owner_content_def split: sum.split option.split)

lemma execute_routed_data:
  assumes "rt_ok rt" and "clean_request r"
  shows "\<exists>resp rt'. execute_routed U r rt = (Inr resp, rt') \<and> rt_ok rt' \<and>
    rt_content rt' = data_effect r (rt_content rt) \<and> (is_persisted_write r resp \<longleftrightarrow> data_write r) \<and>
    resp_request_id resp = req_request_id r \<and> rt_persistence rt' = rt_persistence rt \<and>
    (single_key r \<longrightarrow> dict_command fnmatch r (rt_content rt) resp (data_effect r (rt_content rt)))"
proof -
  have inv: "router_inv (rt_router rt)" and ids: "map fst (rt_workers rt) = router_worker_ids (rt_router rt)"
    and d: "dict_ok (rt_workers rt)" and all: "\<forall>x \<in> set (rt_workers rt). worker_ok (snd x)"
    using assms(1) by (simp_all add: rt_ok_def)
  obtain route w where route: "route_request (rt_router rt) r = Inr route"
    "map_of (rt_workers rt) (route_worker_id route) = Some w"
    using routed_worker [OF inv ids, of r] assms(2) unfolding clean_request_def by blast
  have w: "worker_ok w" using all map_of_SomeD [OF route(2)] by auto
  obtain resp w' where x: "worker_execute U memory_store_ops r w = (Inr resp, w')" "worker_ok w'"
    "content (worker_store w') = data_effect r (content (worker_store w))"
    "is_persisted_write r resp \<longleftrightarrow> data_write r"
    "dict_command fnmatch r (content (worker_store w)) resp (content (worker_store w'))"
    using worker_execute_data [OF w assms(2)] by blast
  have id: "resp_request_id resp = req_request_id r" using x(5) by (simp add: dict_command_def)
  let ?f = "\<lambda>i. map_option (\<lambda>w. content (worker_store w)) (map_of (rt_workers rt) i)"
  let ?rt = "rt\<lparr>rt_workers := AList.update (route_worker_id route) w' (rt_workers rt)\<rparr>"
  note O = owner_effect [OF route(1), of ?f "content (worker_store w)"]
  have "rt_ok ?rt"
    using updated_workers [OF d route(2) all x(2)] inv d ids by (simp add: rt_ok_def)
  moreover have "(\<lambda>i. map_option (\<lambda>w. content (worker_store w)) (map_of (rt_workers ?rt) i)) =
      ?f(route_worker_id route \<mapsto> data_effect r (content (worker_store w)))"
    using x(3) by (auto simp: AList.update_conv')
  then have "rt_content ?rt = data_effect r (rt_content rt)"
    using O(1) route(2) by (simp add: rt_content_owner)
  moreover have "single_key r \<longrightarrow> dict_command fnmatch r (rt_content rt) resp (data_effect r (rt_content rt))"
    using O(2) route(2) x(3,5) by (simp add: rt_content_owner)
  ultimately show ?thesis using x(1,4) id route(1,2) by (auto simp: execute_routed_def)
qed

definition log_clean :: "AofPersistence \<Rightarrow> bool" where
  "log_clean a \<longleftrightarrow> aof_ok a \<and> aof_io_fault a = (\<lambda>_. None) \<and>
     (\<forall>r \<in> set (fst (aof_replay a)). clean_request (rec_request r))"

text \<open>The log holds exactly the data: replaying it from nothing gives what the workers hold.\<close>

definition rt_logged :: "Runtime \<Rightarrow> bool" where
  "rt_logged rt \<longleftrightarrow> rt_ok rt \<and> log_clean (rt_persistence rt) \<and>
     rt_content rt = data_of_log (fst (aof_replay (rt_persistence rt))) Map.empty"

primrec dispatch_all ::
    "unicode_db \<Rightarrow> CommandRequest list \<Rightarrow> Runtime \<Rightarrow> (py_exn + CommandResponse list) \<times> Runtime" where
  "dispatch_all U [] rt = (Inr [], rt)"
| "dispatch_all U (q # qs) rt =
     (case dispatch_request U q rt of
        (Inl e, rt1) \<Rightarrow> (Inl e, rt1)
      | (Inr resp, rt1) \<Rightarrow>
          (case dispatch_all U qs rt1 of
             (Inl e, rt2) \<Rightarrow> (Inl e, rt2) | (Inr resps, rt2) \<Rightarrow> (Inr (resp # resps), rt2)))"

lemma rt_content_persistence [simp]: "rt_content (rt\<lparr>rt_persistence := a\<rparr>) = rt_content rt"
  by (rule ext) (simp add: rt_content_def split: sum.split option.split)

lemma rt_ok_persistence [simp]: "rt_ok (rt\<lparr>rt_persistence := a\<rparr>) = rt_ok rt"
  by (simp add: rt_ok_def)

lemma dispatch_data:
  assumes rt: "rt_logged rt" and q: "clean_request q" "\<forall>x \<in> set (req_args q). scalar_text x"
    and n: "aof_next_sequence (rt_persistence rt) < 10 ^ max_str_digits"
  shows "\<exists>resp rt'. dispatch_request U q rt = (Inr resp, rt') \<and> rt_logged rt' \<and>
    rt_content rt' = data_effect q (rt_content rt) \<and> resp_request_id resp = req_request_id q \<and>
    (single_key q \<longrightarrow> dict_command fnmatch q (rt_content rt) resp (rt_content rt')) \<and>
    aof_next_sequence (rt_persistence rt') \<le> aof_next_sequence (rt_persistence rt) + 1"
proof -
  let ?a = "rt_persistence rt"
  have ok: "rt_ok rt" and a: "aof_ok ?a" "aof_io_fault ?a = (\<lambda>_. None)" "log_clean ?a"
    and c: "rt_content rt = data_of_log (fst (aof_replay ?a)) Map.empty"
    using rt by (simp_all add: rt_logged_def log_clean_def)
  obtain resp rt1 where x: "execute_routed U q rt = (Inr resp, rt1)" "rt_ok rt1"
    "rt_content rt1 = data_effect q (rt_content rt)" "is_persisted_write q resp \<longleftrightarrow> data_write q"
    "resp_request_id resp = req_request_id q" "rt_persistence rt1 = ?a"
    "single_key q \<longrightarrow> dict_command fnmatch q (rt_content rt) resp (data_effect q (rt_content rt))"
    using execute_routed_data [OF ok q(1)] by blast
  show ?thesis
  proof (cases "data_write q")
    case False
    then show ?thesis
      using x c a data_effect_no_write [OF False]
      by (simp add: dispatch_request_def persist_write_def rt_logged_def)
  next
    case True
    have log: "loggable (aof_next_sequence ?a) q"
      using aof_okD(6) [OF a(1)] n q(2) by (simp add: loggable_def)
    obtain r1 a1 where app: "append_request q ?a = (r1, a1)" by fastforce
    have a1: "aof_ok a1" "aof_next_sequence a1 = aof_next_sequence ?a + 1" "\<exists>y. r1 = Inr y"
      "aof_replay a1 = (fst (aof_replay ?a) @ [logged (aof_next_sequence ?a) q], None)"
      using append_request_ok [OF a(1) log _ _ app] a(2) by simp_all
    have "clean_request (rec_request (logged (aof_next_sequence ?a) q))"
      using q(1) by (simp add: logged_def clean_request_def data_command_def)
    then have "log_clean a1"
      using a1(1,4) append_request_io [OF app] a(2,3) by (simp add: log_clean_def)
    moreover have "data_of_log (fst (aof_replay a1)) Map.empty = data_effect q (rt_content rt)"
      using c by (simp add: a1(4)) (simp add: data_of_log_def logged_def)
    ultimately show ?thesis
      using x True app a1(2,3) by (auto simp: dispatch_request_def persist_write_def rt_logged_def)
  qed
qed

lemma dispatch_all_sequence:
  "rt_logged rt \<Longrightarrow> \<forall>q \<in> set qs. clean_request q \<and> (\<forall>x \<in> set (req_args q). scalar_text x) \<Longrightarrow>
   aof_next_sequence (rt_persistence rt) + int (length qs) \<le> 10 ^ max_str_digits \<Longrightarrow>
   dispatch_all U qs rt = (Inr resps, rt') \<Longrightarrow>
   aof_next_sequence (rt_persistence rt') \<le> aof_next_sequence (rt_persistence rt) + int (length qs)"
proof (induction qs arbitrary: rt resps)
  case (Cons q qs)
  obtain resp rt1 where one: "dispatch_request U q rt = (Inr resp, rt1)" "rt_logged rt1"
    "aof_next_sequence (rt_persistence rt1) \<le> aof_next_sequence (rt_persistence rt) + 1"
    using dispatch_data [OF Cons.prems(1), of q U] Cons.prems(2,3) by fastforce
  obtain resps1 where "dispatch_all U qs rt1 = (Inr resps1, rt')"
    using Cons.prems(4) one(1) by (auto split: prod.splits sum.splits)
  then show ?case using Cons.IH [OF one(2)] Cons.prems(2,3) one(3) by fastforce
qed simp

lemma dispatch_all_data:
  "rt_logged rt \<Longrightarrow> \<forall>q \<in> set qs. clean_request q \<and> (\<forall>x \<in> set (req_args q). scalar_text x) \<Longrightarrow>
   aof_next_sequence (rt_persistence rt) + int (length qs) \<le> 10 ^ max_str_digits \<Longrightarrow>
   \<exists>resps rt'. dispatch_all U qs rt = (Inr resps, rt') \<and> rt_logged rt' \<and>
     rt_content rt' = fold data_effect qs (rt_content rt) \<and>
     map resp_request_id resps = map req_request_id qs \<and>
     ((\<forall>q \<in> set qs. single_key q) \<longrightarrow> dict_run fnmatch qs (rt_content rt) resps (rt_content rt'))"
proof (induction qs arbitrary: rt)
  case (Cons q qs)
  obtain resp rt1 where one: "dispatch_request U q rt = (Inr resp, rt1)" "rt_logged rt1"
    "rt_content rt1 = data_effect q (rt_content rt)" "resp_request_id resp = req_request_id q"
    "single_key q \<longrightarrow> dict_command fnmatch q (rt_content rt) resp (rt_content rt1)"
    "aof_next_sequence (rt_persistence rt1) \<le> aof_next_sequence (rt_persistence rt) + 1"
    using dispatch_data [OF Cons.prems(1), of q U] Cons.prems(2,3) by fastforce
  obtain resps rt' where "dispatch_all U qs rt1 = (Inr resps, rt')" "rt_logged rt'"
    "rt_content rt' = fold data_effect qs (rt_content rt1)" "map resp_request_id resps = map req_request_id qs"
    "(\<forall>q \<in> set qs. single_key q) \<longrightarrow> dict_run fnmatch qs (rt_content rt1) resps (rt_content rt')"
    using Cons.IH [OF one(2)] Cons.prems(2,3) one(6) by fastforce
  then show ?case using one by auto
qed simp

lemma replay_routed_data:
  "rt_ok rt \<Longrightarrow> \<forall>r \<in> set rs. clean_request (rec_request r) \<Longrightarrow>
     \<exists>rt'. replay_routed U rs rt = (Inr (), rt') \<and> rt_ok rt' \<and>
       rt_content rt' = data_of_log rs (rt_content rt) \<and> rt_persistence rt' = rt_persistence rt"
proof (induction rs arbitrary: rt)
  case (Cons r rs)
  obtain resp rt1 where one: "execute_routed U (rec_request r) rt = (Inr resp, rt1)" "rt_ok rt1"
    "rt_content rt1 = data_effect (rec_request r) (rt_content rt)" "rt_persistence rt1 = rt_persistence rt"
    using execute_routed_data [OF Cons.prems(1), of "rec_request r" U] Cons.prems(2) by auto
  obtain rt' where "replay_routed U rs rt1 = (Inr (), rt')" "rt_ok rt'"
    "rt_content rt' = data_of_log rs (rt_content rt1)" "rt_persistence rt' = rt_persistence rt1"
    using Cons.IH [OF one(2)] Cons.prems(2) by auto
  then show ?case using one by (simp add: data_of_log_def)
qed (simp add: data_of_log_def)

text \<open>The metrics refresh of a start: it sweeps the stores and changes no data.\<close>

definition clean_dict :: "(pystr \<times> pystr) list \<Rightarrow> bool" where
  "clean_dict d \<longleftrightarrow> (\<forall>x \<in> set d. \<not> has_surrogate (fst x) \<and> \<not> has_surrogate (snd x))"

lemma clean_dict_merge: "clean_dict data \<Longrightarrow> clean_dict agg \<Longrightarrow>
    clean_dict (fold (\<lambda>(k, v). AList.update k v) data agg)"
proof (induction data arbitrary: agg)
  case (Cons x data)
  have "clean_dict (AList.update (fst x) (snd x) agg)"
    unfolding clean_dict_def
  proof
    fix y assume "y \<in> set (AList.update (fst x) (snd x) agg)"
    then have "y = x \<or> y \<in> set agg" using set_update_subset [of "fst x" "snd x" agg] by auto
    then show "\<not> has_surrogate (fst y) \<and> \<not> has_surrogate (snd y)"
      using Cons.prems by (auto simp: clean_dict_def)
  qed
  moreover have "clean_dict data" using Cons.prems(1) by (simp add: clean_dict_def)
  ultimately show ?case using Cons.IH by (simp add: case_prod_beta)
qed simp

lemma prefix_totals_clean: "clean_dict d \<Longrightarrow> \<exists>t. prefix_totals d totals = Inr t"
proof (induction d arbitrary: totals)
  case (Cons x d)
  then obtain kb vb where "utf8_encode (fst x) = Inr kb" "utf8_encode (snd x) = Inr vb"
    using utf8_encode_Inr_iff [of "fst x"] utf8_encode_Inr_iff [of "snd x"]
    by (auto simp: clean_dict_def case_prod_beta)
  with Cons show ?case by (simp add: clean_dict_def)
qed simp

lemma worker_snapshot_data:
  assumes "worker_ok w"
  shows "\<exists>d w'. worker_snapshot memory_store_ops w = (d, w') \<and> worker_ok w' \<and> clean_dict d \<and>
    content (worker_store w') = content (worker_store w)"
proof -
  obtain m where w: "worker_running w" "holds (worker_store w) m" "clean m"
    using assms by (auto simp: worker_ok_def)
  have s: "holds (swept (worker_store w)) m" using w(2) by (rule holds_swept)
  then have "dict_ok (store_data (swept (worker_store w)))" "map_of (store_data (swept (worker_store w))) = m"
    by (simp_all add: holds_def store_inv_def)
  then have "clean_dict (store_data (swept (worker_store w)))"
    using w(3) mem_dict_iff unfolding clean_dict_def clean_def by (metis prod.collapse)
  then show ?thesis
    using w s by (auto simp: worker_snapshot_def memory_store_ops_def store_snapshot_eq worker_ok_def holds_def)
qed

lemma merge_snapshots_data:
  "\<forall>x \<in> set ws. worker_ok (snd x) \<Longrightarrow> clean_dict agg \<Longrightarrow>
   \<exists>agg' ws'. merge_snapshots ws agg = (agg', ws') \<and> clean_dict agg' \<and>
     list_all2 (\<lambda>x y. fst y = fst x \<and> worker_ok (snd y) \<and>
       content (worker_store (snd y)) = content (worker_store (snd x))) ws ws'"
proof (induction ws arbitrary: agg)
  case (Cons x ws)
  obtain d w where w: "worker_snapshot memory_store_ops (snd x) = (d, w)" "worker_ok w" "clean_dict d"
    "content (worker_store w) = content (worker_store (snd x))"
    using worker_snapshot_data [of "snd x"] Cons.prems(1) by auto
  have "clean_dict (fold (\<lambda>(k, v). AList.update k v) d agg)"
    using w(3) Cons.prems(2) by (rule clean_dict_merge)
  with Cons.IH Cons.prems(1) obtain agg' ws' where
    "merge_snapshots ws (fold (\<lambda>(k, v). AList.update k v) d agg) = (agg', ws')" "clean_dict agg'"
    "list_all2 (\<lambda>x y. fst y = fst x \<and> worker_ok (snd y) \<and>
       content (worker_store (snd y)) = content (worker_store (snd x))) ws ws'" by fastforce
  with w show ?case by simp
qed simp

lemma list_all2_workers:
  assumes "list_all2 (\<lambda>x y. fst y = fst x \<and> worker_ok (snd y) \<and>
       content (worker_store (snd y)) = content (worker_store (snd x))) ws ws'"
  shows "map fst ws' = map fst ws \<and> (\<forall>y \<in> set ws'. worker_ok (snd y)) \<and>
    (\<forall>i. map_option (\<lambda>w. content (worker_store w)) (map_of ws' i) =
         map_option (\<lambda>w. content (worker_store w)) (map_of ws i))"
  using assms by (induction rule: list_all2_induct) (auto simp: prod_eq_iff)

lemma refresh_data:
  assumes "rt_ok rt"
  shows "\<exists>rt'. refresh_metrics_snapshot rt = (Inr (), rt') \<and> rt_ok rt' \<and> rt_content rt' = rt_content rt \<and>
    rt_persistence rt' = rt_persistence rt"
proof (cases "rt_workers rt = []")
  case False
  have "clean_dict []" by (simp add: clean_dict_def)
  moreover have "\<forall>x \<in> set (rt_workers rt). worker_ok (snd x)" using assms unfolding rt_ok_def by blast
  ultimately obtain agg ws where ms: "merge_snapshots (rt_workers rt) [] = (agg, ws)" "clean_dict agg"
    and all: "list_all2 (\<lambda>x y. fst y = fst x \<and> worker_ok (snd y) \<and>
       content (worker_store (snd y)) = content (worker_store (snd x))) (rt_workers rt) ws"
    using merge_snapshots_data by blast
  note L = list_all2_workers [OF all]
  obtain t where "prefix_totals agg [] = Inr t" using prefix_totals_clean [OF ms(2)] by blast
  then have r: "refresh_metrics_snapshot rt = (Inr (), rt\<lparr>rt_workers := ws,
      rt_metrics := (rt_metrics rt)\<lparr>memory_by_prefix_bytes := t\<rparr>\<rparr>)" (is "_ = (_, ?rt)")
    using False ms(1) by (simp add: refresh_metrics_snapshot_def observe_store_snapshot_def)
  have "rt_ok ?rt" using assms L by (simp add: rt_ok_def)
  moreover have "rt_content ?rt k = rt_content rt k" for k
  proof (cases "route_key (rt_router rt) k")
    case (Inr kr)
    then show ?thesis
      using L [THEN conjunct2, THEN conjunct2, rule_format, of "route_worker_id kr"]
      by (cases "map_of (rt_workers rt) (route_worker_id kr)") (auto simp: rt_content_def)
  qed (simp add: rt_content_def)
  then have "rt_content ?rt = rt_content rt" by blast
  ultimately show ?thesis using r by simp
qed (use assms in \<open>simp add: refresh_metrics_snapshot_def\<close>)

text \<open>The workers of a fresh runtime, started.\<close>

lemma init_workers:
  assumes "Runtime_init config clocks (t, io) = Inr rt"
  defines "ws \<equiv> map (map_prod id worker_start) (rt_workers rt)"
  shows "router_inv (rt_router rt) \<and> distinct (router_worker_ids (rt_router rt))"
    and "map fst ws = router_worker_ids (rt_router rt)"
    and "\<forall>y \<in> set ws. \<exists>wid i clk. snd y = worker_start (StoreWorker_init wid i (MemoryStore_init clk None))"
    and "rt_metrics rt = MetricsCollector_init"
proof -
  let ?ids = "pool_worker_ids (cfg_worker_count config)"
  let ?ws = "map (\<lambda>(index, wid). (wid, StoreWorker_init wid index (MemoryStore_init (clocks wid) None)))
    (zip (map int [0..<length ?ids]) ?ids)"
  have router: "router_inv (rt_router rt)" "router_worker_ids (rt_router rt) = ?ids" and w: "rt_workers rt = ?ws"
    and "rt_metrics rt = MetricsCollector_init"
    using assms(1) router_init_inv by (auto simp: Runtime_init_def Let_def split: sum.splits)
  then show "router_inv (rt_router rt) \<and> distinct (router_worker_ids (rt_router rt))"
    "rt_metrics rt = MetricsCollector_init"
    by (simp_all add: distinct_pool_worker_ids)
  show "map fst ws = router_worker_ids (rt_router rt)"
    by (simp add: ws_def w router(2) case_prod_beta comp_def)
  show "\<forall>y \<in> set ws. \<exists>wid i clk. snd y = worker_start (StoreWorker_init wid i (MemoryStore_init clk None))"
    unfolding ws_def w by fastforce
qed

lemma start_data:
  assumes "log_clean a" and "Runtime_init config clocks (t, io) = Inr rt" and "rt_persistence rt = a"
  shows "\<exists>rt'. runtime_start U rt = (Inr (), rt') \<and> rt_logged rt' \<and> rt_persistence rt' = a \<and>
    rt_content rt' = data_of_log (fst (aof_replay a)) Map.empty"
proof -
  let ?rt = "rt\<lparr>rt_workers := map (map_prod id worker_start) (rt_workers rt)\<rparr>"
  note I = init_workers [OF assms(2)]
  have empty: "worker_ok (snd y) \<and> content (worker_store (snd y)) = Map.empty" if y: "y \<in> set (rt_workers ?rt)" for y
  proof -
    have "y \<in> set (map (map_prod id worker_start) (rt_workers rt))" using y by simp
    then obtain wid i clk where y: "snd y = worker_start (StoreWorker_init wid i (MemoryStore_init clk None))"
      using I(3) by blast
    show ?thesis
      using holds_init [of clk, unfolded holds_def]
      by (simp add: y worker_ok_def worker_start_def StoreWorker_init_def clean_def holds_def)
  qed
  have ok: "rt_ok ?rt"
    using I(1,2) empty unfolding rt_ok_def by simp
  have "rt_content ?rt k = None" for k
    using empty map_of_SomeD [of "rt_workers ?rt"]
    by (fastforce simp: rt_content_def split: sum.split option.split)
  then have content: "rt_content ?rt = Map.empty" by blast
  obtain rt1 where rt1: "replay_routed U (fst (aof_replay a)) ?rt = (Inr (), rt1)" "rt_ok rt1"
    "rt_content rt1 = data_of_log (fst (aof_replay a)) Map.empty" "rt_persistence rt1 = a"
    using replay_routed_data [OF ok, of "fst (aof_replay a)" U] assms(1,3) content by (auto simp: log_clean_def)
  have "snd (aof_replay a) = None"
    using assms(1) aof_okD(4) [of a] by (simp add: log_clean_def aof_replay_def)
  then have "replay_persistence U ?rt = (Inr (), rt1)"
    using rt1(1) assms(3) by (simp add: replay_persistence_def)
  then show ?thesis
    using refresh_data [OF rt1(2)] rt1(3,4) assms(1)
    by (auto simp: runtime_start_def rt_logged_def)
qed
section \<open>Properties of the runtime\<close>

text \<open>A runtime opened again on the log it leaves.\<close>

lemma reopen:
  assumes "log_clean a" and "Runtime_init config clocks (t, \<lambda>_. None) = Inr rt"
  shows "\<exists>v0 v1. Runtime_init config clocks' (aof_text a, \<lambda>_. None) = Inr v0 \<and>
    runtime_start U v0 = (Inr (), v1) \<and> rt_content v1 = data_of_log (fst (aof_replay a)) Map.empty"
proof -
  define b where "b = \<lparr>aof_text = aof_text a, aof_pending = [], aof_buffer_end = 0, aof_buffer_size = default_buffer_size, aof_synced = length (aof_text a),
    aof_closed = False, aof_io_calls = 0, aof_io_fault = (\<lambda>_. None), aof_next_sequence = aof_next_sequence a,
    aof_fsync_policy = EVERY_N, aof_fsync_every_n = 100, aof_writes_since_fsync = 0\<rparr>"
  have a: "aof_ok a" using assms(1) by (simp add: log_clean_def)
  have "AofPersistence_init (aof_text a) (\<lambda>_. None) EVERY_N 100 = Inr b"
    using aof_okD(5) [OF a] by (simp add: AofPersistence_init_def b_def)
  then obtain v0 where v0: "Runtime_init config clocks' (aof_text a, \<lambda>_. None) = Inr v0" "rt_persistence v0 = b"
    using assms(2) by (auto simp: Runtime_init_def Let_def split: sum.splits)
  have rep: "aof_replay b = aof_replay a" by (simp add: b_def aof_replay_def)
  have "log_clean b"
    using assms(1) aof_okD [OF a] by (simp add: log_clean_def rep) (simp add: b_def aof_ok_def)
  from start_data [OF this v0(1,2), of U] v0(1) show ?thesis by (auto simp: rep)
qed

lemma start_clean:
  assumes "Runtime_init config clocks (t, \<lambda>_. None) = Inr rt0" and "at_line_end t"
    and "\<forall>r \<in> set (fst (replay_text t)). clean_request (rec_request r)"
  shows "\<exists>rt1. runtime_start U rt0 = (Inr (), rt1) \<and> rt_logged rt1 \<and>
    rt_persistence rt1 = rt_persistence rt0 \<and> rt_content rt1 = data_of_log (fst (replay_text t)) Map.empty"
proof -
  have a: "AofPersistence_init t (\<lambda>_. None) EVERY_N 100 = Inr (rt_persistence rt0)"
    using assms(1) by (auto simp: Runtime_init_def Let_def split: sum.splits)
  note I = aof_init_ok [OF a assms(2)]
  have rep: "aof_replay (rt_persistence rt0) = replay_text t" using I by (simp add: aof_replay_def)
  have "log_clean (rt_persistence rt0)" using I assms(3) rep by (simp add: log_clean_def)
  from start_data [OF this assms(1) refl, of U] show ?thesis by (simp add: rep)
qed

lemma dispatch_flushall:
  assumes ok: "rt_ok rt" and f: "req_command f = FLUSHALL" "req_args f = []"
  defines "wid \<equiv> router_worker_ids (rt_router rt) ! 0"
  shows "\<exists>resp rt' w. dispatch_request U f rt = (Inr resp, rt') \<and> map_of (rt_workers rt) wid = Some w \<and>
    resp_kind resp = INTEGER \<and> resp_integer resp = Some (int (card (dom (content (worker_store w))))) \<and>
    rt_persistence rt' = rt_persistence rt \<and>
    (\<forall>k kr. route_key (rt_router rt) k = Inr kr \<longrightarrow>
       rt_content rt' k = (if route_worker_id kr = wid then None else rt_content rt k))"
proof -
  have inv: "router_inv (rt_router rt)" using ok by (simp add: rt_ok_def)
  have route: "route_request (rt_router rt) f = Inr \<lparr>partition_id = 0, route_worker_id = wid\<rparr>"
    using router.route_keyless [OF inv] f by (simp add: extract_key_from_request_def wid_def)
  have "wid \<in> set (router_worker_ids (rt_router rt))" using router.workers_nonempty [OF inv] by (simp add: wid_def)
  then have "wid \<in> fst ` set (rt_workers rt)" using ok by (simp add: rt_ok_def flip: set_map)
  then obtain w where w: "map_of (rt_workers rt) wid = Some w" using key_in_dict_iff by metis
  have "worker_ok w" using ok map_of_SomeD [OF w] by (auto simp: rt_ok_def)
  then obtain m where run: "worker_running w" and m: "holds (worker_store w) m" by (auto simp: worker_ok_def)
  let ?s = "snd (op_process_expirations memory_store_ops None (worker_store w))"
  have "?s = swept (worker_store w)" using memory_store.process_eq m by (simp add: holds_def)
  then have s: "store_inv ?s" "content (swept ?s) = content (worker_store w)"
    using holds_swept [OF m] holds_swept [OF holds_swept [OF m]] m by (simp_all add: holds_def)
  let ?resp = "(mk_response INTEGER)\<lparr>resp_integer := Some (fst (op_flush memory_store_ops ?s)),
      resp_request_id := req_request_id f\<rparr>"
  let ?w = "w\<lparr>worker_store := snd (op_flush memory_store_ops ?s)\<rparr>"
  let ?rt = "rt\<lparr>rt_workers := AList.update wid ?w (rt_workers rt)\<rparr>"
  have "worker_execute U memory_store_ops f w = (Inr ?resp, ?w)"
    using run f by (simp add: worker_execute_running execute_eqs Let_def)
  then have d: "dispatch_request U f rt = (Inr ?resp, ?rt)"
    using route w f by (simp add: dispatch_request_def execute_routed_def persist_write_def is_persisted_write_def)
  have "rt_content ?rt k = (if route_worker_id kr = wid then None else rt_content rt k)"
    if "route_key (rt_router rt) k = Inr kr" for k kr
    using that memory_store.content_flush [OF s(1)]
    by (simp add: rt_content_def AList.update_conv')
  then show ?thesis
    using d w memory_store.flush_result [OF s(1)] s(2)
    by (intro exI [of _ ?resp] exI [of _ ?rt] exI [of _ w]) simp
qed

lemma demo_runtime:
  "\<exists>rt0. Runtime_init default_config (\<lambda>_ n. of_nat n) ([], \<lambda>_. None) = Inr rt0 \<and>
     aof_next_sequence (rt_persistence rt0) = 0"
  by (simp add: Runtime_init_def default_config_def pool_worker_ids_def DeterministicHashRouter_init_def
      AofPersistence_init_def discover_next_sequence_def Let_def upt_rec)

lemma empty_log: "at_line_end []" "\<forall>r \<in> set (fst (replay_text [])). clean_request (rec_request r)"
  by (simp_all add: at_line_end_def replay_text_def)

text \<open>
  C3: the server keeps its data over a restart. Started with any number of workers on a log of SET
  and DEL records (possibly empty), the server answers any sequence of requests other than EXPIRE
  and FLUSHALL without an exception, and the data it then serves is what the requests make of the
  data in the log. If it stops at that point, without closing anything, and a new one is started on
  the log file, the new one's replay and first metrics refresh succeed and it serves the same data,
  key by key through the router, whatever the clocks of its stores. The operating system is assumed
  not to fail, and the texts to have an encoding.
\<close>
theorem server_restart_recovers:
  assumes "Runtime_init config clocks (t, \<lambda>_. None) = Inr rt0" and "at_line_end t"
    and "\<forall>r \<in> set (fst (replay_text t)). clean_request (rec_request r)"
    and "\<forall>q \<in> set qs. clean_request q \<and> (\<forall>x \<in> set (req_args q). scalar_text x)"
    and "aof_next_sequence (rt_persistence rt0) + int (length qs) \<le> 10 ^ max_str_digits"
  shows "\<exists>rt1 resps rt2 v0 v1. runtime_start U rt0 = (Inr (), rt1) \<and>
    dispatch_all U qs rt1 = (Inr resps, rt2) \<and> map resp_request_id resps = map req_request_id qs \<and>
    rt_content rt2 = fold data_effect qs (data_of_log (fst (replay_text t)) Map.empty) \<and>
    Runtime_init config clocks' (aof_text (rt_persistence rt2), \<lambda>_. None) = Inr v0 \<and>
    runtime_start U v0 = (Inr (), v1) \<and> rt_content v1 = rt_content rt2"
proof -
  obtain rt1 where rt1: "runtime_start U rt0 = (Inr (), rt1)" "rt_logged rt1"
    "rt_persistence rt1 = rt_persistence rt0" "rt_content rt1 = data_of_log (fst (replay_text t)) Map.empty"
    using start_clean [OF assms(1-3)] by blast
  obtain resps rt2 where rt2: "dispatch_all U qs rt1 = (Inr resps, rt2)" "rt_logged rt2"
    "rt_content rt2 = fold data_effect qs (rt_content rt1)" "map resp_request_id resps = map req_request_id qs"
    using dispatch_all_data [OF rt1(2) assms(4)] assms(5) rt1(3) by metis
  have "log_clean (rt_persistence rt2)" "rt_content rt2 = data_of_log (fst (aof_replay (rt_persistence rt2))) Map.empty"
    using rt2(2) by (simp_all add: rt_logged_def)
  with reopen [OF _ assms(1), of "rt_persistence rt2" clocks' U] rt1 rt2 show ?thesis by metis
qed

theorem server_restart_recovers_witness:
  "\<exists>rt0 rt1 resps rt2 v0 v1. Runtime_init default_config (\<lambda>_ n. of_nat n) ([], \<lambda>_. None) = Inr rt0 \<and>
     runtime_start \<lparr>uni_upper = \<lambda>c. [c], uni_decimal = \<lambda>c. None\<rparr> rt0 = (Inr (), rt1) \<and>
     dispatch_all \<lparr>uni_upper = \<lambda>c. [c], uni_decimal = \<lambda>c. None\<rparr>
       [mk_request SET [lit ''k'', lit ''v''], mk_request SET [lit ''m'', lit ''w''], mk_request DEL [lit ''m'']]
       rt1 = (Inr resps, rt2) \<and>
     Runtime_init default_config (\<lambda>_ n. of_nat n) (aof_text (rt_persistence rt2), \<lambda>_. None) = Inr v0 \<and>
     runtime_start \<lparr>uni_upper = \<lambda>c. [c], uni_decimal = \<lambda>c. None\<rparr> v0 = (Inr (), v1) \<and>
     rt_content v1 = [lit ''k'' \<mapsto> lit ''v'']"
proof -
  let ?U = "\<lparr>uni_upper = \<lambda>c. [c], uni_decimal = \<lambda>c. None\<rparr>" and ?clocks = "\<lambda>_ n. of_nat n :: rat"
  let ?qs = "[mk_request SET [lit ''k'', lit ''v''], mk_request SET [lit ''m'', lit ''w''], mk_request DEL [lit ''m'']]"
  obtain rt0 where rt0: "Runtime_init default_config ?clocks ([], \<lambda>_. None) = Inr rt0"
    "aof_next_sequence (rt_persistence rt0) = 0" using demo_runtime by blast
  have qs: "\<forall>q \<in> set ?qs. clean_request q \<and> (\<forall>x \<in> set (req_args q). scalar_text x)"
    by (simp add: clean_request_def data_command_def has_surrogate_def scalar_text_def)
  have n: "aof_next_sequence (rt_persistence rt0) + int (length ?qs) \<le> 10 ^ max_str_digits"
    using ten_le_max_digits rt0(2) by simp
  have "fold data_effect ?qs (data_of_log (fst (replay_text [])) Map.empty) = [lit ''k'' \<mapsto> lit ''v'']"
    by (auto simp: data_of_log_def replay_text_def data_effect_def)
  with server_restart_recovers [OF rt0(1) empty_log qs n, of ?U ?clocks] rt0(1) show ?thesis by metis
qed

text \<open>
  C2: the workers together are one dictionary. A server is started, with any number of workers, on a
  log of SET and DEL records (possibly empty), and has answered any requests other than EXPIRE and
  FLUSHALL, so that no key has a deadline. Then any further sequence of PING, SET, GET, DEL and TTL
  requests, of any arity, is answered, response by response, as one dictionary would answer it that
  holds at first what those requests have made of the data in the log, and leaves the data of that
  dictionary, key by key through the router. The operating system is assumed not to fail a write of
  the log, and the arguments to be Unicode text, as those of every line the server parses are.
\<close>
theorem server_refines_dictionary:
  assumes "Runtime_init config clocks (t, \<lambda>_. None) = Inr rt0" and "at_line_end t"
    and "\<forall>r \<in> set (fst (replay_text t)). clean_request (rec_request r)"
    and "\<forall>q \<in> set ps. data_command q \<and> (\<forall>x \<in> set (req_args q). scalar_text x)"
    and "\<forall>q \<in> set qs. single_key q \<and> (\<forall>x \<in> set (req_args q). scalar_text x)"
    and "aof_next_sequence (rt_persistence rt0) + int (length (ps @ qs)) \<le> 10 ^ max_str_digits"
  defines "m \<equiv> fold data_effect ps (data_of_log (fst (replay_text t)) Map.empty)"
  shows "\<exists>rt1 resps1 rt2 resps2 rt3. runtime_start U rt0 = (Inr (), rt1) \<and>
    dispatch_all U ps rt1 = (Inr resps1, rt2) \<and> rt_content rt2 = m \<and>
    dispatch_all U qs rt2 = (Inr resps2, rt3) \<and> dict_run fnmatch qs m resps2 (rt_content rt3)"
proof -
  obtain rt1 where rt1: "runtime_start U rt0 = (Inr (), rt1)" "rt_logged rt1"
    "rt_persistence rt1 = rt_persistence rt0" "rt_content rt1 = data_of_log (fst (replay_text t)) Map.empty"
    using start_clean [OF assms(1-3)] by blast
  have ps: "\<forall>q \<in> set ps. clean_request q \<and> (\<forall>x \<in> set (req_args q). scalar_text x)"
    using assms(4) scalar_no_surrogate by (auto simp: clean_request_def)
  have qs: "\<forall>q \<in> set qs. clean_request q \<and> (\<forall>x \<in> set (req_args q). scalar_text x)"
    using assms(5) scalar_no_surrogate by (auto simp: clean_request_def data_command_def single_key_def)
  have n1: "aof_next_sequence (rt_persistence rt1) + int (length ps) \<le> 10 ^ max_str_digits"
    using assms(6) rt1(3) by simp
  obtain resps1 rt2 where rt2: "dispatch_all U ps rt1 = (Inr resps1, rt2)" "rt_logged rt2"
    "rt_content rt2 = m"
    using dispatch_all_data [OF rt1(2) ps n1, of U] rt1(4) by (auto simp: m_def)
  have "aof_next_sequence (rt_persistence rt2) \<le> aof_next_sequence (rt_persistence rt1) + int (length ps)"
    using dispatch_all_sequence [OF rt1(2) ps n1 rt2(1)] .
  then have "aof_next_sequence (rt_persistence rt2) + int (length qs) \<le> 10 ^ max_str_digits"
    using assms(6) rt1(3) by simp
  from dispatch_all_data [OF rt2(2) qs this, of U] rt1(1) rt2(1,3) assms(5) show ?thesis by metis
qed

theorem server_refines_dictionary_witness:
  "\<exists>rt0 rt1 resps1 rt2 resps2 rt3. Runtime_init default_config (\<lambda>_ n. of_nat n) ([], \<lambda>_. None) = Inr rt0 \<and>
     runtime_start \<lparr>uni_upper = \<lambda>c. [c], uni_decimal = \<lambda>c. None\<rparr> rt0 = (Inr (), rt1) \<and>
     dispatch_all \<lparr>uni_upper = \<lambda>c. [c], uni_decimal = \<lambda>c. None\<rparr>
       [mk_request SET [lit ''k'', lit ''v'']] rt1 = (Inr resps1, rt2) \<and>
     dispatch_all \<lparr>uni_upper = \<lambda>c. [c], uni_decimal = \<lambda>c. None\<rparr>
       [mk_request GET [lit ''k''], mk_request GET [lit ''m'']] rt2 = (Inr resps2, rt3) \<and>
     map resp_kind resps2 = [BULK_STRING, NULL] \<and> resp_value (resps2 ! 0) = Some (lit ''v'')"
proof -
  let ?U = "\<lparr>uni_upper = \<lambda>c. [c], uni_decimal = \<lambda>c. None\<rparr>"
  let ?ps = "[mk_request SET [lit ''k'', lit ''v'']]"
  let ?qs = "[mk_request GET [lit ''k''], mk_request GET [lit ''m'']]"
  obtain r0 where r0: "Runtime_init default_config (\<lambda>_ n. of_nat n) ([], \<lambda>_. None) = Inr r0"
    "aof_next_sequence (rt_persistence r0) = 0" using demo_runtime by blast
  have ps: "\<forall>q \<in> set ?ps. data_command q \<and> (\<forall>x \<in> set (req_args q). scalar_text x)"
    by (simp add: data_command_def scalar_text_def)
  have qs: "\<forall>q \<in> set ?qs. single_key q \<and> (\<forall>x \<in> set (req_args q). scalar_text x)"
    by (simp add: single_key_def scalar_text_def)
  have n: "aof_next_sequence (rt_persistence r0) + int (length (?ps @ ?qs)) \<le> 10 ^ max_str_digits"
    using ten_le_max_digits r0(2) by simp
  have m: "fold data_effect ?ps (data_of_log (fst (replay_text [])) Map.empty) = [lit ''k'' \<mapsto> lit ''v'']"
    by (auto simp: data_of_log_def replay_text_def data_effect_def)
  obtain rt1 resps1 rt2 resps2 rt3 where R: "runtime_start ?U r0 = (Inr (), rt1)"
    "dispatch_all ?U ?ps rt1 = (Inr resps1, rt2)" "dispatch_all ?U ?qs rt2 = (Inr resps2, rt3)"
    and "dict_run fnmatch ?qs [lit ''k'' \<mapsto> lit ''v''] resps2 (rt_content rt3)"
    using server_refines_dictionary [OF r0(1) empty_log ps qs n, of ?U] unfolding m by blast
  then have "map resp_kind resps2 = [BULK_STRING, NULL]" "resp_value (resps2 ! 0) = Some (lit ''v'')"
    by (fastforce simp: dict_command_def)+
  with r0(1) R show ?thesis
    by (intro exI [of _ r0] exI [of _ rt1] exI [of _ resps1] exI [of _ rt2] exI [of _ resps2] exI [of _ rt3]) simp
qed

text \<open>
  C33: FLUSHALL does not survive a restart, and it reaches one worker only. On a server started on a
  log of SET and DEL records it answers with the number of keys the first worker holds and removes
  exactly the keys that worker owns (all keys when it is the only one), but writes nothing to the
  log: a server started again on the log serves every key that was there before the FLUSHALL.
\<close>
theorem flushall_undone_by_restart:
  assumes "Runtime_init config clocks (t, \<lambda>_. None) = Inr rt0" and "at_line_end t"
    and "\<forall>r \<in> set (fst (replay_text t)). clean_request (rec_request r)"
    and "runtime_start U rt0 = (Inr (), rt1)"
    and "req_command f = FLUSHALL" and "req_args f = []"
  defines "wid \<equiv> router_worker_ids (rt_router rt1) ! 0"
  shows "\<exists>resp rt2 w v0 v1. dispatch_request U f rt1 = (Inr resp, rt2) \<and>
    map_of (rt_workers rt1) wid = Some w \<and>
    resp_kind resp = INTEGER \<and> resp_integer resp = Some (int (card (dom (content (worker_store w))))) \<and>
    (\<forall>k kr. route_key (rt_router rt1) k = Inr kr \<longrightarrow>
       rt_content rt2 k = (if route_worker_id kr = wid then None else rt_content rt1 k)) \<and>
    rt_persistence rt2 = rt_persistence rt1 \<and>
    Runtime_init config clocks' (aof_text (rt_persistence rt2), \<lambda>_. None) = Inr v0 \<and>
    runtime_start U v0 = (Inr (), v1) \<and> rt_content v1 = rt_content rt1"
proof -
  have rt1: "rt_logged rt1" using start_clean [OF assms(1-3), of U] assms(4) by auto
  have ok: "rt_ok rt1" and lc: "log_clean (rt_persistence rt1)"
    and c: "rt_content rt1 = data_of_log (fst (aof_replay (rt_persistence rt1))) Map.empty"
    using rt1 by (simp_all add: rt_logged_def)
  obtain resp rt2 w where F: "dispatch_request U f rt1 = (Inr resp, rt2)" "map_of (rt_workers rt1) wid = Some w"
    "resp_kind resp = INTEGER" "resp_integer resp = Some (int (card (dom (content (worker_store w)))))"
    "rt_persistence rt2 = rt_persistence rt1"
    "\<forall>k kr. route_key (rt_router rt1) k = Inr kr \<longrightarrow>
       rt_content rt2 k = (if route_worker_id kr = wid then None else rt_content rt1 k)"
    using dispatch_flushall [OF ok assms(5,6), of U] unfolding wid_def by blast
  obtain v0 v1 where v: "Runtime_init config clocks' (aof_text (rt_persistence rt2), \<lambda>_. None) = Inr v0"
    "runtime_start U v0 = (Inr (), v1)" "rt_content v1 = rt_content rt1"
    using reopen [OF lc assms(1), of clocks' U] c F(5) by metis
  show ?thesis
    by (intro exI [of _ resp] exI [of _ rt2] exI [of _ w] exI [of _ v0] exI [of _ v1] conjI) (rule F v)+
qed

theorem flushall_undone_by_restart_witness:
  "\<exists>rt1 resp rt2 v0 v1. dispatch_request \<lparr>uni_upper = \<lambda>c. [c], uni_decimal = \<lambda>c. None\<rparr>
       (mk_request FLUSHALL []) rt1 = (Inr resp, rt2) \<and> resp_kind resp = INTEGER \<and>
     Runtime_init default_config (\<lambda>_ n. of_nat n) (aof_text (rt_persistence rt2), \<lambda>_. None) = Inr v0 \<and>
     runtime_start \<lparr>uni_upper = \<lambda>c. [c], uni_decimal = \<lambda>c. None\<rparr> v0 = (Inr (), v1) \<and>
     rt_content v1 = rt_content rt1 \<and> rt_content rt1 (lit ''k'') = Some (lit ''v'')"
proof -
  let ?U = "\<lparr>uni_upper = \<lambda>c. [c], uni_decimal = \<lambda>c. None\<rparr>" and ?clocks = "\<lambda>_ n. of_nat n :: rat"
  let ?q = "mk_request SET [lit ''k'', lit ''v'']"
  obtain r0 where r0: "Runtime_init default_config ?clocks ([], \<lambda>_. None) = Inr r0"
    "aof_next_sequence (rt_persistence r0) = 0" using demo_runtime by blast
  obtain r1 where r1: "runtime_start ?U r0 = (Inr (), r1)" "rt_logged r1" "rt_persistence r1 = rt_persistence r0"
    "rt_content r1 = data_of_log (fst (replay_text [])) Map.empty"
    using start_clean [OF r0(1) empty_log, of ?U] by blast
  have q: "clean_request ?q" "\<forall>x \<in> set (req_args ?q). scalar_text x"
    by (simp_all add: clean_request_def data_command_def has_surrogate_def scalar_text_def)
  have n: "aof_next_sequence (rt_persistence r1) < 10 ^ max_str_digits"
    using ten_le_max_digits r0(2) r1(3) by simp
  obtain r2 where r2: "rt_logged r2" "rt_content r2 = data_effect ?q (rt_content r1)"
    using dispatch_data [OF r1(2) q n, of ?U] by blast
  have lc: "log_clean (rt_persistence r2)"
    and c2: "rt_content r2 = data_of_log (fst (aof_replay (rt_persistence r2))) Map.empty"
    using r2(1) by (simp_all add: rt_logged_def)
  obtain rt0 rt1 where rt0: "Runtime_init default_config ?clocks (aof_text (rt_persistence r2), \<lambda>_. None) = Inr rt0"
    and rt1: "runtime_start ?U rt0 = (Inr (), rt1)" "rt_content rt1 = rt_content r2"
    using reopen [OF lc r0(1), of ?clocks ?U] c2 by auto
  have t: "at_line_end (aof_text (rt_persistence r2))"
    "\<forall>r \<in> set (fst (replay_text (aof_text (rt_persistence r2)))). clean_request (rec_request r)"
    using lc by (simp_all add: log_clean_def aof_ok_def aof_replay_def)
  have "rt_content rt1 (lit ''k'') = Some (lit ''v'')" using rt1(2) r2(2) by (simp add: data_effect_def)
  moreover have f: "req_command (mk_request FLUSHALL []) = FLUSHALL" "req_args (mk_request FLUSHALL []) = []"
    by simp_all
  ultimately show ?thesis
    using flushall_undone_by_restart [OF rt0 t rt1(1) f, of ?clocks] by metis
qed

text \<open>
  C32: a write the log refuses is still made. If flushing the log fails when a SET or DEL is logged,
  the client is answered PERSISTENCE_ERROR with the operating system's message, but the worker has
  already executed the command and keeps its effect.
\<close>
theorem refused_write_is_made:
  assumes "rt_ok rt" and "aof_ok (rt_persistence rt)" and "clean_request q" and "data_write q"
    and "loggable (aof_next_sequence (rt_persistence rt)) q"
    and "aof_io_fault (rt_persistence rt) (aof_io_calls (rt_persistence rt)) = Some (n, msg)"
  shows "\<exists>rt'. dispatch_request U q rt = (Inr (error_response PERSISTENCE_ERROR
      (lit ''Persistence append failed: '' @ msg) (req_request_id q)), rt') \<and> rt_ok rt' \<and>
    rt_content rt' = data_effect q (rt_content rt)"
proof -
  obtain resp rt1 where x: "execute_routed U q rt = (Inr resp, rt1)" "rt_ok rt1"
    "rt_content rt1 = data_effect q (rt_content rt)" "is_persisted_write q resp \<longleftrightarrow> data_write q"
    "rt_persistence rt1 = rt_persistence rt"
    using execute_routed_data [OF assms(1,3)] by blast
  have "fst (append_request q (rt_persistence rt)) = Inl (OSError msg)"
    using append_request_fails [OF assms(2,5,6)] by simp
  then obtain a where "append_request q (rt_persistence rt) = (Inl (OSError msg), a)"
    by (cases "append_request q (rt_persistence rt)") simp
  then show ?thesis
    using x assms(4) by (simp add: dispatch_request_def persist_write_def)
qed

theorem refused_write_is_made_witness:
  "\<exists>rt rt'. dispatch_request \<lparr>uni_upper = \<lambda>c. [c], uni_decimal = \<lambda>c. None\<rparr>
       (mk_request SET [lit ''k'', lit ''v'']) rt = (Inr (error_response PERSISTENCE_ERROR
         (lit ''Persistence append failed: '' @ lit ''disk full'') None), rt') \<and>
     rt_content rt' (lit ''k'') = Some (lit ''v'')"
proof -
  let ?U = "\<lparr>uni_upper = \<lambda>c. [c], uni_decimal = \<lambda>c. None\<rparr>" and ?clocks = "\<lambda>_ n. of_nat n :: rat"
  let ?q = "mk_request SET [lit ''k'', lit ''v'']"
  obtain r0 where r0: "Runtime_init default_config ?clocks ([], \<lambda>_. None) = Inr r0"
    "aof_next_sequence (rt_persistence r0) = 0" using demo_runtime by blast
  obtain r1 where r1: "rt_logged r1" "rt_persistence r1 = rt_persistence r0"
    using start_clean [OF r0(1) empty_log, of ?U] by blast
  let ?rt = "r1\<lparr>rt_persistence := (rt_persistence r1)\<lparr>aof_io_fault := \<lambda>_. Some (0, lit ''disk full'')\<rparr>\<rparr>"
  have rt: "rt_ok ?rt" "aof_ok (rt_persistence ?rt)"
    using r1 by (simp_all add: rt_logged_def log_clean_def aof_ok_def)
  have q: "clean_request ?q" "data_write ?q"
    by (simp_all add: clean_request_def data_command_def has_surrogate_def data_write_def)
  have log: "loggable (aof_next_sequence (rt_persistence ?rt)) ?q"
    using r0(2) r1(2) by (simp add: loggable_def scalar_text_def)
  obtain rt' where "dispatch_request ?U ?q ?rt = (Inr (error_response PERSISTENCE_ERROR
      (lit ''Persistence append failed: '' @ lit ''disk full'') (req_request_id ?q)), rt')"
    "rt_content rt' = data_effect ?q (rt_content ?rt)"
    using refused_write_is_made [OF rt q log, of 0 "lit ''disk full''" ?U] by (auto simp del: lit_Cons)
  then have "dispatch_request ?U ?q ?rt = (Inr (error_response PERSISTENCE_ERROR
      (lit ''Persistence append failed: '' @ lit ''disk full'') None), rt')"
    "rt_content rt' (lit ''k'') = Some (lit ''v'')"
    by (simp_all add: data_effect_def)
  then show ?thesis by blast
qed

text \<open>
  A runtime between two commands, with or without deadlines: every worker in its place, running and
  well formed, the log in order and the hot-key tracker consistent with the keys it has seen.
\<close>

definition rt_live :: "Runtime \<Rightarrow> bool" where
  "rt_live rt \<longleftrightarrow> router_inv (rt_router rt) \<and> distinct (router_worker_ids (rt_router rt)) \<and>
     map fst (rt_workers rt) = router_worker_ids (rt_router rt) \<and>
     (\<forall>x \<in> set (rt_workers rt). worker_inv (snd x) \<and> worker_running (snd x)) \<and>
     aof_ok (rt_persistence rt) \<and> aof_io_fault (rt_persistence rt) = (\<lambda>_. None) \<and>
     (\<exists>ks. tracker_inv (hot_key_tracker (rt_metrics rt)) ks)"

text \<open>The one request that raises: an EXPIRE that overflows at the worker it is routed to.\<close>

definition expire_overflows :: "unicode_db \<Rightarrow> CommandRequest \<Rightarrow> Runtime \<Rightarrow> bool" where
  "expire_overflows U r rt \<longleftrightarrow> (\<exists>route w. route_request (rt_router rt) r = Inr route \<and>
     map_of (rt_workers rt) (route_worker_id route) = Some w \<and>
     overflowing_expire U r (swept (worker_store w)))"

lemma execute_routed_live:
  assumes live: "rt_live rt" and args: "\<forall>x \<in> set (req_args r). \<not> has_surrogate x"
    and x: "execute_routed U r rt = (res, rt')"
  shows "rt_live rt' \<and> rt_persistence rt' = rt_persistence rt \<and> rt_metrics rt' = rt_metrics rt \<and>
    (case res of Inl e \<Rightarrow> e = OverflowError \<and> expire_overflows U r rt
     | Inr resp \<Rightarrow> resp_request_id resp = req_request_id r \<and> response_ok resp)"
proof -
  have inv: "router_inv (rt_router rt)" and ids: "map fst (rt_workers rt) = router_worker_ids (rt_router rt)"
    and d: "dict_ok (rt_workers rt)"
    and all: "\<forall>x \<in> set (rt_workers rt). worker_inv (snd x) \<and> worker_running (snd x)"
    using live by (simp_all add: rt_live_def)
  obtain route w where route: "route_request (rt_router rt) r = Inr route"
    "map_of (rt_workers rt) (route_worker_id route) = Some w"
    using routed_worker [OF inv ids args] by blast
  have w: "worker_inv w" "worker_running w" using all map_of_SomeD [OF route(2)] by auto
  let ?x = "worker_execute U memory_store_ops r w"
  have w': "worker_inv (snd ?x) \<and> worker_running (snd ?x)"
    using worker_execute_inv [OF w(1)] worker_execute_keeps [of U memory_store_ops r w] w(2) by simp
  have res: "res = fst ?x" "rt' = rt\<lparr>rt_workers := AList.update (route_worker_id route) (snd ?x) (rt_workers rt)\<rparr>"
    using x route by (auto simp: execute_routed_def case_prod_beta)
  let ?s = "snd (op_process_expirations memory_store_ops None (worker_store w))"
  have s: "store_inv ?s" using w(1) memory_store.invar_process by (simp add: worker_inv_def)
  have "?s = swept (worker_store w)" using w(1) memory_store.process_eq by (simp add: worker_inv_def)
  with route have over: "expire_overflows U r rt" if "overflowing_expire U r ?s"
    using that unfolding expire_overflows_def by auto
  have "fst ?x = fst (execute_command U memory_store_ops r ?s)"
    using w(2) by (simp add: worker_execute_running Let_def)
  then have "case res of Inl e \<Rightarrow> e = OverflowError \<and> expire_overflows U r rt
      | Inr resp \<Rightarrow> resp_request_id resp = req_request_id r \<and> response_ok resp"
    using execute_only_overflow [OF s, of U r] execute_response_ok [of U memory_store_ops r ?s] over
    by (cases "execute_command U memory_store_ops r ?s") (auto simp: res(1) split: sum.split)
  moreover have "rt_live rt'"
    using updated_workers [OF d route(2) all w'] live by (simp add: rt_live_def res(2))
  ultimately show ?thesis by (simp add: res(2))
qed

lemma dispatch_live:
  assumes live: "rt_live rt" and args: "\<forall>x \<in> set (req_args r). scalar_text x"
    and n: "aof_next_sequence (rt_persistence rt) < 10 ^ max_str_digits"
    and x: "dispatch_request U r rt = (res, rt')"
  shows "rt_live rt' \<and> (case res of Inl e \<Rightarrow> e = OverflowError \<and> expire_overflows U r rt
     | Inr resp \<Rightarrow> resp_request_id resp = req_request_id r \<and> response_ok resp)"
proof -
  obtain res1 rt1 where y: "execute_routed U r rt = (res1, rt1)" by fastforce
  have "\<forall>x \<in> set (req_args r). \<not> has_surrogate x" using args scalar_no_surrogate by blast
  note E = execute_routed_live [OF live this y]
  show ?thesis
  proof (cases res1)
    case (Inl e)
    then show ?thesis using E x y by (auto simp: dispatch_request_def)
  next
    case (Inr resp)
    let ?a = "rt_persistence rt"
    have a: "aof_ok ?a" "aof_io_fault ?a = (\<lambda>_. None)" using live by (simp_all add: rt_live_def)
    have log: "loggable (aof_next_sequence ?a) r"
      using aof_okD(6) [OF a(1)] n args by (simp add: loggable_def)
    obtain r1 a1 where app: "append_request r ?a = (r1, a1)" by fastforce
    have a1: "aof_ok a1" "\<exists>z. r1 = Inr z" "aof_io_fault a1 = (\<lambda>_. None)"
      using append_request_ok [OF a(1) log _ _ app] append_request_io [OF app] a(2) by simp_all
    then show ?thesis
      using E x y Inr app by (auto simp: dispatch_request_def persist_write_def rt_live_def split: if_splits)
  qed
qed

lemma init_live:
  assumes "Runtime_init config clocks (t, \<lambda>_. None) = Inr rt" and "at_line_end t"
  shows "rt_live (rt\<lparr>rt_workers := map (map_prod id worker_start) (rt_workers rt)\<rparr>)"
proof -
  note I = init_workers [OF assms(1)]
  let ?ws = "map (map_prod id worker_start) (rt_workers rt)"
  have "worker_inv (snd y) \<and> worker_running (snd y)" if y: "y \<in> set ?ws" for y
  proof -
    obtain wid i clk where "snd y = worker_start (StoreWorker_init wid i (MemoryStore_init clk None))"
      using I(3) y by blast
    then show ?thesis
      by (simp add: worker_inv_def worker_start_def StoreWorker_init_def store_inv_init)
  qed
  moreover have "AofPersistence_init t (\<lambda>_. None) EVERY_N 100 = Inr (rt_persistence rt)"
    using assms(1) by (auto simp: Runtime_init_def Let_def split: sum.splits)
  note A = aof_init_ok [OF this assms(2)]
  moreover have "tracker_inv (hot_key_tracker MetricsCollector_init) []"
    by (simp add: MetricsCollector_init_def tracker_inv_init)
  ultimately show ?thesis using I(1,2,4) unfolding rt_live_def by auto
qed

lemma parsed_line_args:
  assumes "parse_command U (utf8_decode_replace raw) (Some rid) cid = Inr r"
  shows "(\<forall>x \<in> set (req_args r). scalar_text x) \<and> req_request_id r = Some rid"
proof -
  have "scalar_text (utf8_decode_replace raw)" by (simp add: utf8_decode_replace_def utf8_codes_scalar)
  moreover have "\<forall>a \<in> set (req_args r). set a \<subseteq> set (utf8_decode_replace raw)" "req_request_id r = Some rid"
    using parse_command_accepts [where U = U and raw = "utf8_decode_replace raw" and rid = "Some rid"
      and cid = cid] assms by simp_all
  ultimately show ?thesis unfolding scalar_text_def by blast
qed

lemma observe_command_live:
  assumes "rt_live rt" and "\<forall>x \<in> set (req_args r). scalar_text x"
  shows "\<exists>m. observe_command r duration (rt_metrics rt) = (Inr (), m) \<and> rt_live (rt\<lparr>rt_metrics := m\<rparr>)"
proof -
  obtain ks where ks: "tracker_inv (hot_key_tracker (rt_metrics rt)) ks" using assms(1) by (auto simp: rt_live_def)
  have "\<forall>x \<in> set (req_args r). \<not> has_surrogate x" using assms(2) scalar_no_surrogate by blast
  with ks have "\<exists>m. observe_command r duration (rt_metrics rt) = (Inr (), m) \<and>
      (\<exists>ks. tracker_inv (hot_key_tracker m) ks)"
    using track_record_step [of "hot_key_tracker (rt_metrics rt)" ks]
    by (cases "req_args r") (fastforce simp: observe_command_def observe_latency_bucket_def Let_def)+
  then show ?thesis using assms(1) by (auto simp: rt_live_def)
qed

text \<open>
  C7: whatever a client sends, it is answered. On a server in order, any line of bytes, in any encoding
  and of any form, gets a response with the id of the request and with the field that its kind is
  written from, and leaves the server in order, also after an error. The one exception is
  \<open>OverflowError\<close>: it can only come from an EXPIRE of a key that the worker it is routed to has, with a
  number that is beyond the range of a double or gives a deadline too far ahead for the worker's timing
  wheel; the server is in order after it too. The operating system is assumed not to fail, and its clock
  to give readings that have a tick.
\<close>
theorem server_answers_every_line:
  assumes "rt_live rt" and "aof_next_sequence (rt_persistence rt) < 10 ^ max_str_digits"
  shows "case process_command_bytes U raw connection_id request_id duration rt of
      (Inr resp, rt') \<Rightarrow> rt_live rt' \<and> resp_request_id resp = Some request_id \<and> response_ok resp
    | (Inl e, rt') \<Rightarrow> rt_live rt' \<and> e = OverflowError \<and>
        (\<exists>r. parse_command U (utf8_decode_replace raw) (Some request_id) (Some connection_id) = Inr r \<and>
           expire_overflows U r rt)"
proof (cases "parse_command U (utf8_decode_replace raw) (Some request_id) (Some connection_id)")
  case (Inl exc)
  then show ?thesis using assms(1) by (simp add: process_command_bytes_def error_response_def response_ok_def)
next
  case (Inr r)
  note P = parsed_line_args [OF Inr]
  obtain res rt1 where x: "dispatch_request U r rt = (res, rt1)" by fastforce
  note D = dispatch_live [OF assms(1) conjunct1 [OF P] assms(2) x]
  show ?thesis
  proof (cases res)
    case (Inl e)
    then show ?thesis using D x Inr by (auto simp: process_command_bytes_def)
  next
    case res: (Inr resp)
    obtain m where m: "observe_command r duration (rt_metrics rt1) = (Inr (), m)" "rt_live (rt1\<lparr>rt_metrics := m\<rparr>)"
      using observe_command_live conjunct1 [OF D] P by blast
    then show ?thesis
      using D x Inr res P by (simp add: process_command_bytes_def)
  qed
qed

theorem server_answers_every_line_witness:
  "\<exists>rt rt' resp. process_command_bytes \<lparr>uni_upper = \<lambda>c. [c], uni_decimal = \<lambda>c. None\<rparr> [255, 10]
     (lit ''c'') (lit ''c:1'') 0 rt = (Inr resp, rt') \<and> resp_request_id resp = Some (lit ''c:1'')"
proof -
  let ?U = "\<lparr>uni_upper = \<lambda>c. [c], uni_decimal = \<lambda>c. None\<rparr>"
  obtain r0 where r0: "Runtime_init default_config (\<lambda>_ n. of_nat n) ([], \<lambda>_. None) = Inr r0"
    "aof_next_sequence (rt_persistence r0) = 0" using demo_runtime by blast
  let ?rt = "r0\<lparr>rt_workers := map (map_prod id worker_start) (rt_workers r0)\<rparr>"
  have live: "rt_live ?rt" using r0(1) empty_log(1) by (rule init_live)
  have n: "aof_next_sequence (rt_persistence ?rt) < 10 ^ max_str_digits"
    using ten_le_max_digits r0(2) by simp
  have dec: "utf8_decode_replace [255, 10] = [65533, 10]"
    by (simp add: utf8_decode_replace_def utf8_codes.simps(2) utf8_lead_def)
  have "py_strip [65533, 10] = [65533]" by (simp add: py_strip_def py_isspace_def)
  then have "\<exists>e. parse_command ?U (utf8_decode_replace [255, 10]) (Some (lit ''c:1'')) (Some (lit ''c'')) = Inl e"
    by (simp add: dec parse_command_def split_command_def py_split.simps py_isspace_def py_upper_char_def Let_def)
  then show ?thesis
    using server_answers_every_line [OF live n, where U = ?U and raw = "[255, 10]"
      and connection_id = "lit ''c''" and request_id = "lit ''c:1''" and duration = 0]
    by (auto simp: process_command_bytes_def simp del: lit_Cons)
qed

end
