(* ===== verification/Pool.thy ===== *)
theory Pool
  imports Worker_Pool "HOL-Library.Multiset"
begin

text \<open>
  The whole pool of src/src/worker_pool.py: a handle for each worker, the start of the worker
  processes on their log files, \<open>execute\<close> and \<open>shutdown_all\<close>. A call of \<open>execute\<close> puts its request on
  the worker's queue and gives the blocking \<open>response_queue.get\<close> to the event loop's thread pool,
  which has a bounded number of threads and serves what it is given in order; so a call waits first
  for a thread and then, in the thread, for a response. Theory Worker_Pool has the steps of one
  handle; here a step of the pool is a step of one of them, or of the thread pool.
\<close>

declare map_of_eq_Some_iff [simp del] Some_eq_map_of_iff [simp del] map_of_is_SomeI [simp del]

section \<open>Paths of the log files\<close>

record Path =
  path_root :: pystr
  path_parts :: "pystr list"

fun split_slash :: "pystr \<Rightarrow> pystr list" where
  "split_slash [] = [[]]"
| "split_slash (c # s) =
     (if c = 47 then [] # split_slash s
      else (case split_slash s of [] \<Rightarrow> [[c]] | p # ps \<Rightarrow> (c # p) # ps))"

text \<open>\<open>Path(s)\<close> on a POSIX system: exactly two leading slashes are a root of their own.\<close>

definition py_path :: "pystr \<Rightarrow> Path" where
  "py_path s =
     (let slashes = length (takeWhile (\<lambda>c. c = 47) s)
      in \<lparr>path_root = (if slashes = 0 then [] else if slashes = 2 then [47, 47] else [47]),
          path_parts = filter (\<lambda>p. p \<noteq> [] \<and> p \<noteq> [46]) (split_slash s)\<rparr>)"

fun join_slash :: "pystr list \<Rightarrow> pystr" where
  "join_slash [] = []"
| "join_slash [p] = p"
| "join_slash (p # ps) = p @ [47] @ join_slash ps"

definition path_str :: "Path \<Rightarrow> pystr" where
  "path_str p = (if path_root p = [] \<and> path_parts p = [] then [46]
     else path_root p @ join_slash (path_parts p))"

definition path_name :: "Path \<Rightarrow> pystr" where
  "path_name p = (if path_parts p = [] then [] else last (path_parts p))"

definition path_join :: "Path \<Rightarrow> pystr \<Rightarrow> Path" where
  "path_join p s =
     (let q = py_path s
      in if path_root q \<noteq> [] then q else p\<lparr>path_parts := path_parts p @ path_parts q\<rparr>)"

definition aof_path_for_worker :: "Path \<Rightarrow> pystr \<Rightarrow> Path" where
  "aof_path_for_worker base wid =
     path_join (base\<lparr>path_parts := butlast (path_parts base)\<rparr>) (aof_name_for_worker (path_name base) wid)"

text \<open>Two workers of one pool never share a log file.\<close>

definition path_ok :: "Path \<Rightarrow> bool" where
  "path_ok p \<longleftrightarrow> (\<forall>x \<in> set (path_parts p). x \<noteq> [] \<and> 47 \<notin> set x)"

lemma split_slash_ok: "\<forall>x \<in> set (split_slash s). 47 \<notin> set x"
  by (induction s) (auto split: list.splits)

lemma split_slash_single: "47 \<notin> set s \<Longrightarrow> split_slash s = [s]"
  by (induction s) auto

lemma path_ok_py_path: "path_ok (py_path s)"
  using split_slash_ok [of s] by (auto simp: path_ok_def py_path_def Let_def)

lemma path_str_nonempty: "path_ok p \<Longrightarrow> path_str p \<noteq> []"
  by (cases "path_parts p" rule: join_slash.cases) (auto simp: path_str_def path_ok_def)

lemma join_slash_snoc: "join_slash (ps @ [x]) = (if ps = [] then x else join_slash ps @ [47] @ x)"
  by (induction ps rule: join_slash.induct) auto

lemma nat_digits_range: "set (nat_digits n) \<subseteq> {48..57}"
  by (induction n rule: nat_digits.induct) (subst nat_digits.simps, auto)

lemma path_join_name:
  assumes "47 \<notin> set x" "x \<noteq> []" "x \<noteq> [46]"
  shows "path_join p x = p\<lparr>path_parts := path_parts p @ [x]\<rparr>"
proof -
  have "takeWhile (\<lambda>c. c = 47) x = []" using assms(1,2) by (cases x) auto
  then show ?thesis using assms by (simp add: path_join_def py_path_def split_slash_single)
qed

lemma aof_path_cases:
  assumes "path_ok base"
  shows "aof_path_for_worker base (pool_worker_id i) = base\<lparr>path_parts := butlast (path_parts base) @
      [aof_name_for_worker (path_name base) (pool_worker_id i)]\<rparr>"
proof -
  let ?x = "aof_name_for_worker (path_name base) (pool_worker_id i)"
  have "47 \<notin> set (path_name base)" using assms by (auto simp: path_name_def path_ok_def)
  moreover have "47 \<notin> set (pool_worker_id i)"
    using nat_digits_range [of i] by (auto simp: pool_worker_id_def py_str_int_def)
  ultimately have "47 \<notin> set ?x"
    by (auto simp: aof_name_for_worker_def Let_def dest: in_set_takeD in_set_dropD)
  moreover have "45 \<in> set ?x" by (simp add: aof_name_for_worker_def Let_def)
  then have "?x \<noteq> []" "?x \<noteq> [46]" by auto
  ultimately show ?thesis by (simp add: aof_path_for_worker_def path_join_name)
qed

lemma aof_path_inject:
  assumes "path_ok base"
  shows "path_str (aof_path_for_worker base (pool_worker_id i)) = path_str (aof_path_for_worker base (pool_worker_id j)) \<longleftrightarrow>
    i = j"
  by (simp add: aof_path_cases [OF assms] path_str_def join_slash_snoc aof_name_for_worker_inject pool_worker_id_inject)

lemma aof_path_ok:
  assumes "path_ok base"
  shows "path_ok (aof_path_for_worker base wid)"
proof -
  have "path_ok (base\<lparr>path_parts := butlast (path_parts base)\<rparr>)"
    using assms in_set_butlastD by (fastforce simp: path_ok_def)
  then show ?thesis
    using path_ok_py_path by (auto simp: aof_path_for_worker_def path_join_def path_ok_def Let_def)
qed

section \<open>The pool\<close>

text \<open>
  The two lists are the state of the event loop's thread pool: the calls of \<open>get\<close> that a thread
  runs, and those that wait for a thread. A call is known by its worker, its number and its request id.
\<close>

type_synonym pool_get = "pystr \<times> nat \<times> pystr"

record WorkerPool =
  pool_aof_base_path :: Path
  pool_fsync_policy :: FsyncPolicy
  pool_fsync_every_n :: int
  pool_handles :: "(pystr \<times> WorkerHandle) list"
  pool_gets_running :: "pool_get list"
  pool_gets_queued :: "pool_get list"

text \<open>A handle without a process.\<close>

definition no_process :: "pystr \<Rightarrow> int \<Rightarrow> WorkerProcess" where
  "no_process wid part = \<lparr>wp_worker_id = wid, wp_partition_id = part, wp_responses = [],
     wp_store = MemoryStore_init (\<lambda>_. 0) None, wp_persistence = None, wp_running = False\<rparr>"

definition WorkerPool_init :: "int \<Rightarrow> Path \<Rightarrow> FsyncPolicy \<Rightarrow> int \<Rightarrow> WorkerPool" where
  "WorkerPool_init worker_count aof_base_path policy every_n =
     \<lparr>pool_aof_base_path = aof_base_path, pool_fsync_policy = policy, pool_fsync_every_n = every_n,
      pool_handles = map (\<lambda>i. (pool_worker_id i, handle_init (no_process (pool_worker_id i) (int i)) 0 True))
        [0..<nat worker_count],
      pool_gets_running = [], pool_gets_queued = []\<rparr>"

text \<open>
  Starting a process: in the child, \<open>worker_entry\<close> opens the log, replays it and enters the loop. An
  exception on the way ends the child, which the pool does not notice. \<open>files\<close> is the file system,
  \<open>clocks\<close> and \<open>now\<close> what the children read as the time.
\<close>

definition start_handle ::
    "unicode_db \<Rightarrow> (pystr \<Rightarrow> nat \<Rightarrow> rat) \<Rightarrow> (pystr \<Rightarrow> pystr \<times> (nat \<Rightarrow> (nat \<times> pystr) option)) \<Rightarrow> rat \<Rightarrow>
     WorkerPool \<Rightarrow> WorkerHandle \<Rightarrow> WorkerHandle" where
  "start_handle U clocks files now p h =
     (let wid = handle_worker_id h; path = aof_path_for_worker (pool_aof_base_path p) wid in
      case worker_entry wid (handle_partition_id h) (clocks wid) files (Some (path_str path))
             (FsyncPolicy_value (pool_fsync_policy p)) (pool_fsync_every_n p) of
        Inl e \<Rightarrow> h\<lparr>handle_alive := False\<rparr>
      | Inr w0 \<Rightarrow>
          (let (r, w1) = run_replay U w0;
               h1 = h\<lparr>handle_process := w1\<lparr>wp_responses := wp_responses (handle_process h)\<rparr>,
                      handle_last_expiration := now\<rparr>
           in case r of Inl e \<Rightarrow> h1\<lparr>handle_alive := False\<rparr> | Inr _ \<Rightarrow> h1))"

definition start_all ::
    "unicode_db \<Rightarrow> (pystr \<Rightarrow> nat \<Rightarrow> rat) \<Rightarrow> (pystr \<Rightarrow> pystr \<times> (nat \<Rightarrow> (nat \<times> pystr) option)) \<Rightarrow> rat \<Rightarrow>
     WorkerPool \<Rightarrow> WorkerPool" where
  "start_all U clocks files now p =
     p\<lparr>pool_handles := map (\<lambda>(wid, h). (wid, start_handle U clocks files now p h)) (pool_handles p)\<rparr>"

text \<open>The part of \<open>execute\<close> before it waits.\<close>

definition pool_call ::
    "pystr \<Rightarrow> pystr \<Rightarrow> nat \<Rightarrow> CommandRequest \<Rightarrow> WorkerPool \<Rightarrow> py_exn + WorkerPool" where
  "pool_call fresh_id wid call request p =
     (case map_of (pool_handles p) wid of
        None \<Rightarrow> Inl KeyError
      | Some h \<Rightarrow>
          let worker_req = to_worker_request fresh_id request
          in Inr (p\<lparr>pool_handles := AList.update wid (pool_send call worker_req h) (pool_handles p),
                   pool_gets_queued := pool_gets_queued p @ [(wid, call, wreq_request_id worker_req)]\<rparr>))"

text \<open>\<open>shutdown_all\<close> up to the joins.\<close>

definition shutdown_all :: "WorkerPool \<Rightarrow> WorkerPool" where
  "shutdown_all p = p\<lparr>pool_handles := map (map_prod id pool_shutdown) (pool_handles p)\<rparr>"

text \<open>
  The join of one process, when its five seconds are over: a process that has not ended by then is
  terminated. A process ends when it leaves its loop or when an exception ends it.
\<close>

definition process_ended :: "WorkerHandle \<Rightarrow> bool" where
  "process_ended h \<longleftrightarrow> \<not> handle_alive h \<or> \<not> wp_running (handle_process h)"

definition join_handle :: "WorkerHandle \<Rightarrow> WorkerHandle" where
  "join_handle h = (if process_ended h then h else h\<lparr>handle_alive := False\<rparr>)"

section \<open>The steps\<close>

text \<open>The steps that bring calls nearer to their end, with \<open>threads\<close> threads for the waiting calls.\<close>

inductive pool_progress ::
    "unicode_db \<Rightarrow> ((pystr \<times> pystr) list \<Rightarrow> pystr) \<Rightarrow> nat \<Rightarrow> WorkerPool \<Rightarrow> WorkerPool \<Rightarrow> bool"
  for U show_dict threads where
  take: "pool_gets_queued p = g # gs \<Longrightarrow> length (pool_gets_running p) < threads \<Longrightarrow>
    pool_progress U show_dict threads p
      (p\<lparr>pool_gets_running := pool_gets_running p @ [g], pool_gets_queued := gs\<rparr>)"
| turn: "map_of (pool_handles p) wid = Some h \<Longrightarrow> turn_enabled (Some m) h \<Longrightarrow>
    pool_progress U show_dict threads p
      (p\<lparr>pool_handles := AList.update wid (worker_turn U show_dict (Some m) now h) (pool_handles p)\<rparr>)"
| answer: "(wid, call) \<in> set (pool_gets_running p) \<Longrightarrow> map_of (pool_handles p) wid = Some h \<Longrightarrow>
    wp_responses (handle_process h) = r # rs \<Longrightarrow>
    pool_progress U show_dict threads p
      (p\<lparr>pool_gets_running := remove1 (wid, call) (pool_gets_running p),
         pool_handles := AList.update wid (pool_receive call r rs h) (pool_handles p)\<rparr>)"

text \<open>All calls ever made.\<close>

definition pool_calls :: "WorkerPool \<Rightarrow> nat set" where
  "pool_calls p = (\<Union>x \<in> set (pool_handles p). handle_calls (snd x))"

text \<open>
  What happens beside: a worker's loop finds its queue empty, or the operating system ends a process.
\<close>

inductive pool_background ::
    "unicode_db \<Rightarrow> ((pystr \<times> pystr) list \<Rightarrow> pystr) \<Rightarrow> WorkerPool \<Rightarrow> WorkerPool \<Rightarrow> bool"
  for U show_dict where
  idle: "map_of (pool_handles p) wid = Some h \<Longrightarrow> turn_enabled None h \<Longrightarrow>
    pool_background U show_dict p
      (p\<lparr>pool_handles := AList.update wid (worker_turn U show_dict None now h) (pool_handles p)\<rparr>)"
| killed: "map_of (pool_handles p) wid = Some h \<Longrightarrow>
    pool_background U show_dict p
      (p\<lparr>pool_handles := AList.update wid (h\<lparr>handle_alive := False\<rparr>) (pool_handles p)\<rparr>)"

inductive pool_step ::
    "unicode_db \<Rightarrow> ((pystr \<times> pystr) list \<Rightarrow> pystr) \<Rightarrow> nat \<Rightarrow> WorkerPool \<Rightarrow> WorkerPool \<Rightarrow> bool"
  for U show_dict threads where
  progress: "pool_progress U show_dict threads p p' \<Longrightarrow> pool_step U show_dict threads p p'"
| background: "pool_background U show_dict p p' \<Longrightarrow> pool_step U show_dict threads p p'"
| call: "pool_call fresh_id wid call request p = Inr p' \<Longrightarrow> call \<notin> pool_calls p \<Longrightarrow>
    pool_step U show_dict threads p p'"
| shutdown: "pool_step U show_dict threads p (shutdown_all p)"
| join: "map_of (pool_handles p) wid = Some h \<Longrightarrow>
    pool_step U show_dict threads p
      (p\<lparr>pool_handles := AList.update wid (join_handle h) (pool_handles p)\<rparr>)"

text \<open>A pool as \<open>start_all\<close> leaves it, with empty queues and no call.\<close>

definition pool_fresh :: "WorkerPool \<Rightarrow> bool" where
  "pool_fresh p \<longleftrightarrow> dict_ok (pool_handles p) \<and> pool_gets_running p = [] \<and> pool_gets_queued p = [] \<and>
     (\<forall>x \<in> set (pool_handles p). handle_fresh (snd x))"

inductive pool_reachable ::
    "unicode_db \<Rightarrow> ((pystr \<times> pystr) list \<Rightarrow> pystr) \<Rightarrow> nat \<Rightarrow> WorkerPool \<Rightarrow> bool"
  for U show_dict threads where
  start: "pool_fresh p \<Longrightarrow> pool_reachable U show_dict threads p"
| step: "pool_reachable U show_dict threads p \<Longrightarrow> pool_step U show_dict threads p p' \<Longrightarrow>
    pool_reachable U show_dict threads p'"

lemma run_replay_responses [simp]: "wp_responses (snd (run_replay U w)) = wp_responses w"
  by (simp add: run_replay_def split: option.split prod.split sum.split)

text \<open>Starting the processes of a new pool gives a fresh pool.\<close>

lemma start_handle_keeps [simp]:
  "handle_requests (start_handle U clocks files now p h) = handle_requests h"
  "handle_waiting (start_handle U clocks files now p h) = handle_waiting h"
  "handle_done (start_handle U clocks files now p h) = handle_done h"
  "handle_sent (start_handle U clocks files now p h) = handle_sent h"
  "handle_worker_id (start_handle U clocks files now p h) = handle_worker_id h"
  "wp_responses (handle_process (start_handle U clocks files now p h)) = wp_responses (handle_process h)"
  by (simp_all add: start_handle_def Let_def split: sum.split prod.split)

lemma start_handle_fresh: "handle_fresh h \<Longrightarrow> handle_fresh (start_handle U clocks files now p h)"
  by (simp add: handle_fresh_def)

lemma pool_init_fresh: "pool_fresh (WorkerPool_init n base policy every_n)"
  by (auto simp: pool_fresh_def WorkerPool_init_def no_process_def comp_def distinct_map inj_on_def
      pool_worker_id_inject)

lemma start_all_fresh: "pool_fresh p \<Longrightarrow> pool_fresh (start_all U clocks files now p)"
  by (auto simp: pool_fresh_def start_all_def start_handle_fresh comp_def case_prod_beta)

section \<open>The handles of a pool\<close>

text \<open>What a step of the pool does to a handle is steps of that handle.\<close>

lemma handle_reachable_steps:
  assumes "handle_reachable U show_dict False h"
  shows "turn_enabled msg h \<Longrightarrow> handle_reachable U show_dict False (worker_turn U show_dict msg now h)"
    and "call \<in> set (handle_waiting h) \<Longrightarrow> wp_responses (handle_process h) = r # rs \<Longrightarrow>
      handle_reachable U show_dict False (pool_receive call r rs h)"
    and "c \<notin> handle_calls h \<Longrightarrow>
      handle_reachable U show_dict False (pool_send c (to_worker_request fresh_id request) h)"
    and "handle_reachable U show_dict False (pool_shutdown h)"
    and "handle_reachable U show_dict False (h\<lparr>handle_alive := False\<rparr>)"
    and "handle_reachable U show_dict False (join_handle h)"
proof -
  note S = handle_reachable.step [OF assms]
  show "handle_reachable U show_dict False (worker_turn U show_dict msg now h)" if "turn_enabled msg h"
    by (rule S) (rule handle_step.turn [OF that])
  show "handle_reachable U show_dict False (pool_receive call r rs h)"
    if "call \<in> set (handle_waiting h)" "wp_responses (handle_process h) = r # rs"
    by (rule S) (rule handle_step.receive [OF that])
  show "handle_reachable U show_dict False (pool_send c (to_worker_request fresh_id request) h)"
    if "c \<notin> handle_calls h"
    by (rule S, rule handle_step.send) (use that in \<open>simp_all add: handle_calls_def\<close>)
  show "handle_reachable U show_dict False (pool_shutdown h)" by (rule S) (rule handle_step.shutdown)
  show killed: "handle_reachable U show_dict False (h\<lparr>handle_alive := False\<rparr>)" by (rule S) (rule handle_step.killed)
  show "handle_reachable U show_dict False (join_handle h)" using killed assms by (simp add: join_handle_def)
qed

lemma handles_update:
  assumes "dict_ok (pool_handles p)" and "\<forall>x \<in> set (pool_handles p). P (snd x)" and "P h"
  shows "dict_ok (AList.update wid h (pool_handles p)) \<and> (\<forall>x \<in> set (AList.update wid h (pool_handles p)). P (snd x))"
  using assms dict_all_update [of "pool_handles p" "\<lambda>x. P (snd x)" wid h] by simp

definition pool_handles_ok ::
    "unicode_db \<Rightarrow> ((pystr \<times> pystr) list \<Rightarrow> pystr) \<Rightarrow> WorkerPool \<Rightarrow> bool" where
  "pool_handles_ok U show_dict p \<longleftrightarrow> dict_ok (pool_handles p) \<and>
     (\<forall>x \<in> set (pool_handles p). handle_reachable U show_dict False (snd x))"

lemma pool_handles_okD:
  "pool_handles_ok U show_dict p \<Longrightarrow> map_of (pool_handles p) wid = Some h \<Longrightarrow> handle_reachable U show_dict False h"
  using map_of_SomeD by (fastforce simp: pool_handles_ok_def)

text \<open>
  The calls that wait for a worker are those the thread pool runs or holds for it, and it never runs
  more than it has threads.
\<close>

definition gets_inv :: "nat \<Rightarrow> WorkerPool \<Rightarrow> bool" where
  "gets_inv threads p \<longleftrightarrow> length (pool_gets_running p) \<le> threads \<and>
     (\<forall>wid h. map_of (pool_handles p) wid = Some h \<longrightarrow> mset (handle_waiting h) =
        image_mset snd (filter_mset (\<lambda>g. fst g = wid) (mset (pool_gets_running p @ pool_gets_queued p)))) \<and>
     fst ` set (pool_gets_running p @ pool_gets_queued p) \<subseteq> fst ` set (pool_handles p)"

definition pool_inv ::
    "unicode_db \<Rightarrow> ((pystr \<times> pystr) list \<Rightarrow> pystr) \<Rightarrow> nat \<Rightarrow> WorkerPool \<Rightarrow> bool" where
  "pool_inv U show_dict threads p \<longleftrightarrow> pool_handles_ok U show_dict p \<and> gets_inv threads p"

lemma gets_inv_update:
  assumes "gets_inv threads p" and "map_of (pool_handles p) wid = Some h" and "handle_waiting h' = handle_waiting h"
  shows "gets_inv threads (p\<lparr>pool_handles := AList.update wid h' (pool_handles p)\<rparr>)"
proof -
  have "map fst (AList.update wid h' (pool_handles p)) = map fst (pool_handles p)"
    using assms(2) by (rule keys_update_present)
  then have "fst ` set (AList.update wid h' (pool_handles p)) = fst ` set (pool_handles p)"
    by (metis set_map)
  then show ?thesis
    using assms unfolding gets_inv_def by (auto simp: AList.update_conv')
qed

lemma gets_inv_answer:
  assumes I: "gets_inv threads p" and g: "(wid, call) \<in> set (pool_gets_running p)"
    and h: "map_of (pool_handles p) wid = Some h"
  shows "call \<in> set (handle_waiting h)"
    and "gets_inv threads (p\<lparr>pool_gets_running := remove1 (wid, call) (pool_gets_running p),
      pool_handles := AList.update wid (pool_receive call r rs h) (pool_handles p)\<rparr>)"
proof -
  have M: "mset (handle_waiting h) =
      image_mset snd (filter_mset (\<lambda>g. fst g = wid) (mset (pool_gets_running p @ pool_gets_queued p)))"
    using I h by (simp add: gets_inv_def)
  have "(wid, call) \<in># filter_mset (\<lambda>g. fst g = wid) (mset (pool_gets_running p @ pool_gets_queued p))"
    using g by simp
  then have "call \<in># image_mset snd (filter_mset (\<lambda>g. fst g = wid) (mset (pool_gets_running p @ pool_gets_queued p)))"
    by (metis image_eqI set_image_mset snd_conv)
  then have "call \<in># mset (handle_waiting h)" unfolding M .
  then show w: "call \<in> set (handle_waiting h)" by simp
  obtain as bs where ab: "pool_gets_running p = as @ (wid, call) # bs" "(wid, call) \<notin> set as"
    using g by (metis split_list_first)
  then have rm: "remove1 (wid, call) (as @ (wid, call) # bs) = as @ bs" by (simp add: remove1_append)
  have keys: "fst ` set (AList.update wid (pool_receive call r rs h) (pool_handles p)) = fst ` set (pool_handles p)"
    using keys_update_present [OF h] by (metis set_map)
  have "mset (remove1 call (handle_waiting h)) =
      image_mset snd (filter_mset (\<lambda>g. fst g = wid) (mset ((as @ bs) @ pool_gets_queued p)))"
    using M by (simp add: ab(1))
  then show "gets_inv threads (p\<lparr>pool_gets_running := remove1 (wid, call) (pool_gets_running p),
      pool_handles := AList.update wid (pool_receive call r rs h) (pool_handles p)\<rparr>)"
    using I keys unfolding gets_inv_def ab(1) rm
    by (auto simp: AList.update_conv' pool_receive_def)
qed

lemma pool_shutdown_keeps [simp]:
  "handle_waiting (pool_shutdown h) = handle_waiting h" "handle_done (pool_shutdown h) = handle_done h"
  "handle_alive (pool_shutdown h) = handle_alive h" "handle_process (pool_shutdown h) = handle_process h"
  by (simp_all add: pool_shutdown_def)

lemma join_handle_keeps [simp]:
  "handle_waiting (join_handle h) = handle_waiting h" "handle_done (join_handle h) = handle_done h"
  "handle_process (join_handle h) = handle_process h"
  by (simp_all add: join_handle_def)

lemma map_of_map_prod_id: "map_of (map (map_prod id f) d) k = map_option f (map_of d k)"
  by (induction d) auto

lemma map_prod_id_keys: "map fst (map (map_prod id f) d) = map fst d"
  "fst ` map_prod id f ` set d = fst ` set d"
  by (auto simp: image_comp)

lemma pool_inv_fresh: "pool_fresh p \<Longrightarrow> pool_inv U show_dict threads p"
  using handle_reachable.start
  by (fastforce simp: pool_inv_def pool_handles_ok_def gets_inv_def pool_fresh_def handle_fresh_def
      dest: map_of_SomeD)

lemma pool_inv_update:
  assumes "pool_inv U show_dict threads p" and "map_of (pool_handles p) wid = Some h"
    and "handle_waiting h' = handle_waiting h" and "handle_reachable U show_dict False h'"
  shows "pool_inv U show_dict threads (p\<lparr>pool_handles := AList.update wid h' (pool_handles p)\<rparr>)"
  using assms gets_inv_update [of threads p wid h h'] handles_update [of p "handle_reachable U show_dict False" h' wid]
  by (simp add: pool_inv_def pool_handles_ok_def)

lemma pool_inv_progress:
  assumes "pool_progress U show_dict threads p p'" and I: "pool_inv U show_dict threads p"
  shows "pool_inv U show_dict threads p'"
  using assms(1)
proof (cases rule: pool_progress.cases)
  case (take g gs)
  then show ?thesis using I by (auto simp: pool_inv_def pool_handles_ok_def gets_inv_def)
next
  case (turn wid h m now)
  then have "handle_reachable U show_dict False h" using I pool_handles_okD by (auto simp: pool_inv_def)
  with turn I show ?thesis by (simp add: pool_inv_update handle_reachable_steps(1))
next
  case (answer wid call h r rs)
  then have h: "handle_reachable U show_dict False h" using I pool_handles_okD by (auto simp: pool_inv_def)
  have G: "gets_inv threads p" and H: "pool_handles_ok U show_dict p" using I by (simp_all add: pool_inv_def)
  note A = gets_inv_answer(1) [OF G answer(2,3)] gets_inv_answer(2) [OF G answer(2,3), of r rs]
  have "handle_reachable U show_dict False (pool_receive call r rs h)"
    using handle_reachable_steps(2) [OF h A(1) answer(4)] .
  with handles_update [of p "handle_reachable U show_dict False" _ wid] H A(2) answer(1) show ?thesis
    by (simp add: pool_inv_def pool_handles_ok_def)
qed

lemma pool_inv_step:
  assumes "pool_step U show_dict threads p p'" and I: "pool_inv U show_dict threads p"
  shows "pool_inv U show_dict threads p'"
proof -
  have G: "gets_inv threads p" and H: "pool_handles_ok U show_dict p" using I by (simp_all add: pool_inv_def)
  from assms(1) show ?thesis
  proof (cases rule: pool_step.cases)
    case progress
    then show ?thesis using I by (rule pool_inv_progress)
  next
    case (call fresh_id wid c request)
    then obtain h where h: "map_of (pool_handles p) wid = Some h"
      and p': "p' = p\<lparr>pool_handles := AList.update wid (pool_send c (to_worker_request fresh_id request) h) (pool_handles p),
        pool_gets_queued := pool_gets_queued p @ [(wid, c, wreq_request_id (to_worker_request fresh_id request))]\<rparr>"
      by (auto simp: pool_call_def Let_def split: option.splits)
    have "c \<notin> handle_calls h" using call(2) map_of_SomeD [OF h] by (force simp: pool_calls_def)
    then have r: "handle_reachable U show_dict False (pool_send c (to_worker_request fresh_id request) h)"
      using handle_reachable_steps(3) [OF pool_handles_okD [OF H h]] by blast
    have "fst ` set (AList.update wid (pool_send c (to_worker_request fresh_id request) h) (pool_handles p)) =
        fst ` set (pool_handles p)"
      using keys_update_present [OF h] by (metis set_map)
    moreover have "wid \<in> fst ` set (pool_handles p)" using map_of_SomeD [OF h] by force
    ultimately have "gets_inv threads p'"
      using G h unfolding gets_inv_def p' by (auto simp: AList.update_conv' pool_send_def)
    then show ?thesis
      using handles_update [of p "handle_reachable U show_dict False" _ wid, OF _ _ r] H
      by (simp add: pool_inv_def pool_handles_ok_def p')
  next
    case background
    then show ?thesis
      using I H pool_handles_okD
      by (cases rule: pool_background.cases) (simp_all add: pool_inv_update handle_reachable_steps(1,5))
  next
    case shutdown
    then show ?thesis
      using G H map_prod_id_keys [of pool_shutdown "pool_handles p"]
      unfolding pool_inv_def gets_inv_def pool_handles_ok_def shutdown_all_def
      by (force simp: map_of_map_prod_id handle_reachable_steps(4))
  next
    case (join wid h)
    then show ?thesis
      using I H pool_handles_okD by (simp add: pool_inv_update handle_reachable_steps(6))
  qed
qed

lemma pool_reachable_inv: "pool_reachable U show_dict threads p \<Longrightarrow> pool_inv U show_dict threads p"
  by (induction rule: pool_reachable.induct) (simp_all add: pool_inv_fresh pool_inv_step)

lemma pool_inv_dict: "pool_inv U show_dict threads p \<Longrightarrow> dict_ok (pool_handles p)"
  by (simp add: pool_inv_def pool_handles_ok_def)

section \<open>Every call ends\<close>

text \<open>A bound on the steps that are left: a request is worth two, since it becomes a response.\<close>

definition handle_work :: "WorkerHandle \<Rightarrow> nat" where
  "handle_work h = 2 * length (handle_requests h) + length (wp_responses (handle_process h))"

definition pool_work :: "WorkerPool \<Rightarrow> nat" where
  "pool_work p = sum_list (map (\<lambda>x. handle_work (snd x)) (pool_handles p)) +
     2 * length (pool_gets_queued p) + length (pool_gets_running p)"

lemma sum_list_update:
  fixes f :: "'b \<Rightarrow> nat"
  shows "dict_ok d \<Longrightarrow> map_of d k = Some v \<Longrightarrow>
    sum_list (map (\<lambda>x. f (snd x)) (AList.update k v' d)) + f v = sum_list (map (\<lambda>x. f (snd x)) d) + f v'"
  by (induction d) (auto split: if_splits)

lemma loop_step_puts:
  "length (wp_responses (snd (loop_step U show_dict msg now l w))) \<le> Suc (length (wp_responses w))"
proof -
  have r: "length (wp_responses (snd (handle_request U q w))) \<le> Suc (length (wp_responses w))" for q
    by (simp add: handle_request_def Let_def split: prod.split sum.split option.split)
  have c: "length (wp_responses (snd (handle_control show_dict c w))) \<le> Suc (length (wp_responses w))" for c
    by (simp add: handle_control_def Let_def split: prod.split option.split)
  show ?thesis
    using r c by (simp add: loop_step_def case_prod_beta Let_def split: option.split worker_msg.split sum.split)
qed

lemma worker_turn_work:
  assumes "turn_enabled (Some m) h"
  shows "handle_work (worker_turn U show_dict (Some m) now h) < handle_work h"
proof -
  obtain ms where "handle_requests h = m # ms" using assms by (auto simp: turn_enabled_def split: list.splits)
  moreover have "length (wp_responses (handle_process (worker_turn U show_dict (Some m) now h))) \<le>
      Suc (length (wp_responses (handle_process h)))"
    using loop_step_puts [of U show_dict "Some m" now "handle_last_expiration h" "handle_process h"]
    by (simp add: worker_turn_def case_prod_beta Let_def split: sum.split)
  ultimately show ?thesis by (simp add: handle_work_def worker_turn_requests)
qed

lemma pool_progress_work:
  assumes "pool_progress U show_dict threads p p'" and "dict_ok (pool_handles p)"
  shows "pool_work p' < pool_work p"
  using assms(1)
proof (cases rule: pool_progress.cases)
  case (take g gs)
  then show ?thesis by (simp add: pool_work_def)
next
  case (turn wid h m now)
  then show ?thesis
    using sum_list_update [OF assms(2) turn(2), of handle_work "worker_turn U show_dict (Some m) now h"]
      worker_turn_work [OF turn(3), of U show_dict now]
    by (simp add: pool_work_def)
next
  case (answer wid call h r rs)
  have "length (pool_gets_running p) > 0" using answer(2) by (rule length_pos_if_in_set)
  moreover have "handle_work (pool_receive call r rs h) < handle_work h"
    using answer(4) by (simp add: handle_work_def pool_receive_def)
  ultimately show ?thesis
    using sum_list_update [OF assms(2) answer(3), of handle_work "pool_receive call r rs h"] answer(1,2)
    by (simp add: pool_work_def length_remove1)
qed

text \<open>When nothing can be done any more, no call waits, unless a worker has ended.\<close>

definition pool_waiting :: "WorkerPool \<Rightarrow> (nat \<times> pystr) list" where
  "pool_waiting p = concat (map (\<lambda>x. handle_waiting (snd x)) (pool_handles p))"

lemma pool_stuck_done:
  assumes I: "pool_inv U show_dict threads p" and "0 < threads"
    and live: "\<forall>x \<in> set (pool_handles p). \<not> process_ended (snd x)"
    and stuck: "\<nexists>p'. pool_progress U show_dict threads p p'"
  shows "pool_waiting p = []"
proof -
  have G: "gets_inv threads p" and H: "pool_handles_ok U show_dict p" using I by (simp_all add: pool_inv_def)
  then have d: "dict_ok (pool_handles p)" by (simp add: pool_handles_ok_def)
  have idle: "handle_requests h = []" if h: "map_of (pool_handles p) wid = Some h" for wid h
  proof (cases "handle_requests h")
    case (Cons m ms)
    have "\<not> process_ended h" using live map_of_SomeD [OF h] by auto
    then have "turn_enabled (Some m) h" using Cons by (simp add: turn_enabled_def process_ended_def)
    then show ?thesis using stuck pool_progress.turn [OF h] by blast
  qed
  have running: "pool_gets_running p = []"
  proof (rule ccontr)
    assume "pool_gets_running p \<noteq> []"
    then obtain wid call where g: "(wid, call) \<in> set (pool_gets_running p)"
      by (metis list.set_intros(1) neq_Nil_conv surj_pair)
    then have "wid \<in> fst ` set (pool_handles p)" using G by (force simp: gets_inv_def)
    then obtain h where h: "map_of (pool_handles p) wid = Some h" using key_in_dict_iff by metis
    then have r: "handle_reachable U show_dict False h" using pool_handles_okD [OF H] by blast
    have "handle_alive h" using live map_of_SomeD [OF h] by (auto simp: process_ended_def)
    then have "length (wp_responses (handle_process h)) = length (handle_waiting h)"
      using waiting_is_answered handle_reachable_fifo [OF r] handle_reachable_count [OF r] idle [OF h] by blast
    moreover have "call \<in> set (handle_waiting h)" using gets_inv_answer(1) [OF G g h] .
    ultimately obtain x xs where "wp_responses (handle_process h) = x # xs"
      by (cases "wp_responses (handle_process h)") auto
    then show False using stuck pool_progress.answer [OF g h] by blast
  qed
  have queued: "pool_gets_queued p = []"
  proof (rule ccontr)
    assume "pool_gets_queued p \<noteq> []"
    then obtain g gs where "pool_gets_queued p = g # gs" by (cases "pool_gets_queued p") auto
    then show False using stuck pool_progress.take [of p g gs threads] running \<open>0 < threads\<close> by auto
  qed
  have "handle_waiting (snd x) = []" if "x \<in> set (pool_handles p)" for x
  proof -
    have "map_of (pool_handles p) (fst x) = Some (snd x)" using that mem_dict_iff [OF d, of "fst x" "snd x"] by simp
    then show ?thesis using G by (simp add: gets_inv_def running queued)
  qed
  then show ?thesis by (simp add: pool_waiting_def)
qed

lemma insert_remove1: "x \<in> set xs \<Longrightarrow> insert x (set (remove1 x xs)) = set xs"
  by (induction xs) auto

lemma handle_calls_simps [simp]:
  "handle_calls (worker_turn U show_dict msg now h) = handle_calls h"
  "call \<in> set (handle_waiting h) \<Longrightarrow> handle_calls (pool_receive call r rs h) = handle_calls h"
proof -
  show "handle_calls (worker_turn U show_dict msg now h) = handle_calls h" by (simp add: handle_calls_def)
  assume c: "call \<in> set (handle_waiting h)"
  then have "insert call (set (remove1 call (handle_waiting h))) = set (handle_waiting h)"
    by (rule insert_remove1)
  then have "insert (fst call) (fst ` set (remove1 call (handle_waiting h))) = fst ` set (handle_waiting h)"
    by (metis image_insert)
  then show "handle_calls (pool_receive call r rs h) = handle_calls h"
    by (auto simp: handle_calls_def pool_receive_def)
qed

lemma pool_calls_update:
  assumes "dict_ok (pool_handles p)" and "map_of (pool_handles p) wid = Some h" and "handle_calls h' = handle_calls h"
  shows "pool_calls (p\<lparr>pool_handles := AList.update wid h' (pool_handles p)\<rparr>) = pool_calls p"
proof -
  have "map (\<lambda>x. handle_calls (snd x)) (AList.update wid h' d) = map (\<lambda>x. handle_calls (snd x)) d"
    if "map_of d wid = Some h" for d
    using that assms(3) by (induction d) (auto split: if_splits)
  from this [OF assms(2)] have "(\<lambda>x. handle_calls (snd x)) ` set (AList.update wid h' (pool_handles p)) =
      (\<lambda>x. handle_calls (snd x)) ` set (pool_handles p)"
    by (metis list.set_map)
  then show ?thesis by (simp add: pool_calls_def)
qed

lemma pool_progress_calls:
  assumes "pool_progress U show_dict threads p p'" and I: "pool_inv U show_dict threads p"
  shows "pool_calls p' = pool_calls p"
proof -
  have G: "gets_inv threads p" and d: "dict_ok (pool_handles p)"
    using I by (simp_all add: pool_inv_def pool_handles_ok_def)
  from assms(1) show ?thesis
  proof (cases rule: pool_progress.cases)
    case (answer wid call h r rs)
    have "handle_calls (pool_receive call r rs h) = handle_calls h"
      using gets_inv_answer(1) [OF G answer(2,3)] by simp
    from pool_calls_update [OF d answer(3) this] answer(1) show ?thesis by (simp add: pool_calls_def)
  qed (simp_all add: pool_calls_update [OF d], simp add: pool_calls_def)
qed

lemma pool_run_inv:
  assumes "(pool_progress U show_dict threads)\<^sup>*\<^sup>* p p'" and "pool_inv U show_dict threads p"
  shows "pool_inv U show_dict threads p' \<and> pool_calls p' = pool_calls p"
  using assms by (induction rule: rtranclp_induct) (auto simp: pool_progress_calls intro: pool_inv_progress)

text \<open>
  C6: calls of worker processes end. From any state the pool can reach, the messages, responses and
  calls on the way cannot keep it busy forever, however the threads and workers are scheduled; and
  when nothing is left to do, every call that was made has been answered, unless a worker process
  has ended.
\<close>
theorem pool_calls_complete:
  assumes "pool_reachable U show_dict threads p" and "0 < threads"
  shows "(\<nexists>f. f 0 = p \<and> (\<forall>i. pool_progress U show_dict threads (f i) (f (Suc i)))) \<and>
    (\<forall>p'. (pool_progress U show_dict threads)\<^sup>*\<^sup>* p p' \<and> (\<nexists>p''. pool_progress U show_dict threads p' p'') \<and>
       (\<forall>x \<in> set (pool_handles p'). \<not> process_ended (snd x)) \<longrightarrow>
       pool_waiting p' = [] \<and>
       (\<forall>c \<in> pool_calls p. \<exists>x \<in> set (pool_handles p'). c \<in> fst ` set (handle_done (snd x))))"
proof (intro conjI allI impI)
  note I = pool_reachable_inv [OF assms(1)]
  show "\<nexists>f. f 0 = p \<and> (\<forall>i. pool_progress U show_dict threads (f i) (f (Suc i)))"
    using I pool_inv_progress pool_progress_work [OF _ pool_inv_dict]
    by (intro no_infinite_run [where I = "pool_inv U show_dict threads" and m = pool_work]) blast+
  fix p' assume p': "(pool_progress U show_dict threads)\<^sup>*\<^sup>* p p' \<and> (\<nexists>p''. pool_progress U show_dict threads p' p'') \<and>
    (\<forall>x \<in> set (pool_handles p'). \<not> process_ended (snd x))"
  then have R: "pool_inv U show_dict threads p'" "pool_calls p' = pool_calls p" using pool_run_inv I by blast+
  show w: "pool_waiting p' = []" using pool_stuck_done [OF R(1) assms(2)] p' by blast
  show "\<forall>c \<in> pool_calls p. \<exists>x \<in> set (pool_handles p'). c \<in> fst ` set (handle_done (snd x))"
  proof
    fix c assume "c \<in> pool_calls p"
    then have "c \<in> pool_calls p'" by (simp add: R(2))
    then obtain x where x: "x \<in> set (pool_handles p')" "c \<in> handle_calls (snd x)"
      by (auto simp: pool_calls_def)
    moreover have "handle_waiting (snd x) = []" using w x(1) by (simp add: pool_waiting_def)
    ultimately show "\<exists>x \<in> set (pool_handles p'). c \<in> fst ` set (handle_done (snd x))"
      by (auto simp: handle_calls_def)
  qed
qed

text \<open>A pool of two workers without logs; a PING goes to the first of them.\<close>

definition demo_pool :: WorkerPool where
  "demo_pool = \<lparr>pool_aof_base_path = py_path (lit ''data/litestore.aof''), pool_fsync_policy = EVERY_N,
     pool_fsync_every_n = 100,
     pool_handles = [(pool_worker_id 0, handle_init idle_worker 0 True), (pool_worker_id 1, handle_init idle_worker 0 True)],
     pool_gets_running = [], pool_gets_queued = []\<rparr>"

definition demo_call :: "pystr \<Rightarrow> nat \<Rightarrow> WorkerPool \<Rightarrow> WorkerPool" where
  "demo_call wid call p = (case pool_call [97] wid call (mk_request PING []) p of Inr p' \<Rightarrow> p' | Inl _ \<Rightarrow> p)"

lemma demo_call_reachable:
  "pool_reachable U show_dict threads p \<Longrightarrow> map_of (pool_handles p) wid = Some h \<Longrightarrow> call \<notin> pool_calls p \<Longrightarrow>
     pool_reachable U show_dict threads (demo_call wid call p)"
  by (rule pool_reachable.step, assumption, rule pool_step.call [of "[97]" wid call "mk_request PING []"])
    (simp_all add: demo_call_def pool_call_def Let_def)

lemma demo_pool_reachable: "pool_reachable U show_dict threads demo_pool"
  by (rule pool_reachable.start) (simp add: pool_fresh_def demo_pool_def idle_worker_def pool_worker_id_inject)

lemma demo_called_reachable: "pool_reachable U show_dict threads (demo_call (pool_worker_id 0) 0 demo_pool)"
  by (rule demo_call_reachable [OF demo_pool_reachable])
    (simp_all add: demo_pool_def pool_calls_def handle_calls_def handle_init_def)

lemma demo_called:
  "demo_call (pool_worker_id 0) 0 demo_pool = demo_pool\<lparr>pool_handles :=
     [(pool_worker_id 0, pool_send 0 (ping_request [97]) (handle_init idle_worker 0 True)),
      (pool_worker_id 1, handle_init idle_worker 0 True)], pool_gets_queued := [(pool_worker_id 0, 0, [97])]\<rparr>"
  by (simp add: demo_call_def pool_call_def demo_pool_def to_worker_request_def ping_request_def
      pool_worker_id_inject)

theorem pool_calls_complete_witness:
  "\<forall>U show_dict. \<exists>p. pool_reachable U show_dict 4 p \<and> pool_calls p = {0} \<and>
     (\<nexists>f. f 0 = p \<and> (\<forall>i. pool_progress U show_dict 4 (f i) (f (Suc i))))"
proof (intro allI)
  fix U show_dict
  have "pool_calls (demo_call (pool_worker_id 0) 0 demo_pool) = {0}"
    by (simp add: demo_called pool_calls_def handle_calls_def pool_send_def handle_init_def)
  moreover have "0 < (4 :: nat)" by simp
  note conjunct1 [OF pool_calls_complete [OF demo_called_reachable this, of U show_dict]]
  ultimately show "\<exists>p. pool_reachable U show_dict 4 p \<and> pool_calls p = {0} \<and>
      (\<nexists>f. f 0 = p \<and> (\<forall>i. pool_progress U show_dict 4 (f i) (f (Suc i))))" using demo_called_reachable [of U show_dict 4] by blast
qed

section \<open>A dead worker blocks the others\<close>

text \<open>Every thread waits for a worker that has ended and left no response.\<close>

definition pool_blocked :: "nat \<Rightarrow> WorkerPool \<Rightarrow> bool" where
  "pool_blocked threads p \<longleftrightarrow> threads \<le> length (pool_gets_running p) \<and>
     (\<forall>g \<in> set (pool_gets_running p). \<forall>h. map_of (pool_handles p) (fst g) = Some h \<longrightarrow>
        process_ended h \<and> wp_responses (handle_process h) = [])"

definition pool_done :: "WorkerPool \<Rightarrow> (pystr \<times> (nat \<times> pystr \<times> CommandResponse) list) list" where
  "pool_done p = map (\<lambda>x. (fst x, handle_done (snd x))) (pool_handles p)"

lemma pool_done_update:
  "map_of (pool_handles p) wid = Some h \<Longrightarrow> handle_done h' = handle_done h \<Longrightarrow>
     pool_done (p\<lparr>pool_handles := AList.update wid h' (pool_handles p)\<rparr>) = pool_done p"
proof -
  assume "map_of (pool_handles p) wid = Some h" "handle_done h' = handle_done h"
  then have "map (\<lambda>x. (fst x, handle_done (snd x))) (AList.update wid h' d) = map (\<lambda>x. (fst x, handle_done (snd x))) d"
    if "map_of d wid = Some h" for d
    using that by (induction d) (auto split: if_splits)
  then show ?thesis using \<open>map_of (pool_handles p) wid = Some h\<close> by (simp add: pool_done_def)
qed

lemma pool_blocked_update:
  assumes "pool_blocked threads p" and "map_of (pool_handles p) wid = Some h"
    and "process_ended h \<Longrightarrow> wp_responses (handle_process h) = [] \<Longrightarrow>
      process_ended h' \<and> wp_responses (handle_process h') = []"
    and "handle_done h' = handle_done h"
  shows "pool_blocked threads (p\<lparr>pool_handles := AList.update wid h' (pool_handles p)\<rparr>) \<and>
    pool_done (p\<lparr>pool_handles := AList.update wid h' (pool_handles p)\<rparr>) = pool_done p"
  using assms pool_done_update [OF assms(2,4)] unfolding pool_blocked_def
  by (auto simp: AList.update_conv')

lemma pool_blocked_step:
  assumes "pool_step U show_dict threads p p'" and B: "pool_blocked threads p"
  shows "pool_blocked threads p' \<and> pool_done p' = pool_done p"
  using assms(1)
proof (cases rule: pool_step.cases)
  case progress
  then show ?thesis
  proof (cases rule: pool_progress.cases)
    case (take g gs)
    then show ?thesis using B by (simp add: pool_blocked_def)
  next
    case (turn wid h m now)
    have "\<not> process_ended h" using turn(3) by (simp add: turn_enabled_def process_ended_def)
    then show ?thesis using pool_blocked_update [OF B turn(2)] turn(1) by simp
  next
    case (answer wid call h r rs)
    then show ?thesis using B by (fastforce simp: pool_blocked_def)
  qed
next
  case (call fresh_id wid c request)
  then obtain h where h: "map_of (pool_handles p) wid = Some h"
    and p': "p' = p\<lparr>pool_handles := AList.update wid (pool_send c (to_worker_request fresh_id request) h) (pool_handles p)\<rparr>
      \<lparr>pool_gets_queued := pool_gets_queued p @ [(wid, c, wreq_request_id (to_worker_request fresh_id request))]\<rparr>"
    by (auto simp: pool_call_def Let_def split: option.splits)
  let ?h = "pool_send c (to_worker_request fresh_id request) h"
  have "process_ended ?h = process_ended h" "handle_process ?h = handle_process h" "handle_done ?h = handle_done h"
    by (simp_all add: process_ended_def pool_send_def)
  then show ?thesis
    using pool_blocked_update [OF B h, of ?h] by (simp add: p' pool_blocked_def pool_done_def)
next
  case background
  then show ?thesis
  proof (cases rule: pool_background.cases)
    case (idle wid h now)
    have "\<not> process_ended h" using idle(3) by (simp add: turn_enabled_def process_ended_def)
    then show ?thesis using pool_blocked_update [OF B idle(2)] idle(1) by simp
  next
    case (killed wid h)
    then show ?thesis using pool_blocked_update [OF B killed(2)] by (simp add: process_ended_def)
  qed
next
  case shutdown
  then show ?thesis
    using B by (auto simp: shutdown_all_def pool_blocked_def pool_done_def map_of_map_prod_id process_ended_def)
next
  case (join wid h)
  then show ?thesis using pool_blocked_update [OF B join(2)] by (simp add: join_handle_def)
qed

text \<open>
  C37: dead workers can stop all the others. When every thread of the event loop's thread pool waits
  for a response of a worker process that has ended, no call is ever answered again, to whatever
  worker it goes and whatever happens from then on.
\<close>
theorem pool_blocks_forever:
  assumes "pool_blocked threads p" and "(pool_step U show_dict threads)\<^sup>*\<^sup>* p p'"
  shows "pool_done p' = pool_done p"
proof -
  from assms(2,1) have "pool_blocked threads p' \<and> pool_done p' = pool_done p"
    by (induction rule: rtranclp_induct) (auto dest: pool_blocked_step)
  then show ?thesis ..
qed

theorem pool_blocks_forever_witness:
  "\<forall>U show_dict. \<exists>p h. pool_reachable U show_dict 1 p \<and> map_of (pool_handles p) (pool_worker_id 1) = Some h \<and>
     \<not> process_ended h \<and> handle_waiting h \<noteq> [] \<and>
     (\<forall>p'. (pool_step U show_dict 1)\<^sup>*\<^sup>* p p' \<longrightarrow> pool_done p' = pool_done p)"
proof (intro allI)
  fix U show_dict
  let ?h = "pool_send 0 (ping_request [97]) (handle_init idle_worker 0 True)"
  define p1 where "p1 = demo_call (pool_worker_id 0) 0 demo_pool"
  define p2 where "p2 = p1\<lparr>pool_gets_running := pool_gets_running p1 @ [(pool_worker_id 0, 0, [97])], pool_gets_queued := []\<rparr>"
  define p3 where "p3 = p2\<lparr>pool_handles := AList.update (pool_worker_id 0) (?h\<lparr>handle_alive := False\<rparr>) (pool_handles p2)\<rparr>"
  define p4 where "p4 = demo_call (pool_worker_id 1) 1 p3"
  have p1: "pool_reachable U show_dict 1 p1" unfolding p1_def by (rule demo_called_reachable)
  have "pool_progress U show_dict 1 p1 p2"
    unfolding p2_def by (rule pool_progress.take) (unfold p1_def demo_called, simp_all add: demo_pool_def)
  then have p2: "pool_reachable U show_dict 1 p2"
    using p1 pool_reachable.step pool_step.progress by blast
  have "pool_background U show_dict p2 p3"
    unfolding p3_def by (rule pool_background.killed) (simp add: p2_def p1_def demo_called)
  then have p3: "pool_reachable U show_dict 1 p3"
    using p2 pool_reachable.step pool_step.background by blast
  have h3: "pool_handles p3 = [(pool_worker_id 0, ?h\<lparr>handle_alive := False\<rparr>), (pool_worker_id 1, handle_init idle_worker 0 True)]"
    "pool_gets_running p3 = [(pool_worker_id 0, 0, [97])]"
    unfolding p3_def p2_def p1_def demo_called by (simp_all add: demo_pool_def)
  have p4: "pool_reachable U show_dict 1 p4"
    unfolding p4_def
    by (rule demo_call_reachable [OF p3, where h = "handle_init idle_worker 0 True"])
      (simp_all add: h3 pool_calls_def handle_calls_def pool_worker_id_inject,
        simp_all add: pool_send_def handle_init_def)
  let ?h4 = "pool_send 1 (ping_request [97]) (handle_init idle_worker 0 True)"
  have h4: "pool_handles p4 = [(pool_worker_id 0, ?h\<lparr>handle_alive := False\<rparr>), (pool_worker_id 1, ?h4)]"
    "pool_gets_running p4 = [(pool_worker_id 0, 0, [97])]"
    by (simp_all add: p4_def demo_call_def pool_call_def h3 to_worker_request_def ping_request_def
        pool_worker_id_inject Let_def)
  have "pool_blocked 1 p4"
    by (simp add: pool_blocked_def h4 process_ended_def pool_send_def handle_init_def idle_worker_def)
  then have "\<forall>p'. (pool_step U show_dict 1)\<^sup>*\<^sup>* p4 p' \<longrightarrow> pool_done p' = pool_done p4"
    using pool_blocks_forever by blast
  moreover have "\<not> process_ended ?h4" "handle_waiting ?h4 \<noteq> []"
    by (simp_all add: process_ended_def pool_send_def handle_init_def idle_worker_def)
  moreover have "map_of (pool_handles p4) (pool_worker_id 1) = Some ?h4" by (simp add: h4 pool_worker_id_inject)
  ultimately show "\<exists>p h. pool_reachable U show_dict 1 p \<and> map_of (pool_handles p) (pool_worker_id 1) = Some h \<and>
      \<not> process_ended h \<and> handle_waiting h \<noteq> [] \<and>
      (\<forall>p'. (pool_step U show_dict 1)\<^sup>*\<^sup>* p p' \<longrightarrow> pool_done p' = pool_done p)" using p4 by blast
qed

end
