(* ===== verification/Server_Pool.thy ===== *)
theory Server_Pool
  imports Server Pool
begin

text \<open>
  The runtime of src/src/server.py with worker processes, the default: the router, the pool of
  theory Pool and the connections. A connection reads a line, and unless the line is refused its
  coroutine waits for the pool before it reads the next one; so the steps of the server are those of
  its connections and of its pool, in any order.
\<close>

declare map_of_eq_Some_iff [simp del] Some_eq_map_of_iff [simp del] map_of_is_SomeI [simp del]

section \<open>The server\<close>

text \<open>
  \<open>conn_pending\<close> is the call a connection waits for (its worker, its number and the request), and
  \<open>conn_answered\<close> remembers the requests that were dispatched and their responses, which the code
  does not keep.
\<close>

record Connection =
  conn_id :: pystr
  conn_request_index :: int
  conn_pending :: "(pystr \<times> nat \<times> CommandRequest) option"
  conn_answered :: "(CommandRequest \<times> CommandResponse) list"
  conn_out :: "8 word list"
  conn_open :: bool

record PoolServer =
  srv_router :: DeterministicHashRouter
  srv_pool :: WorkerPool
  srv_metrics :: MetricsCollector
  srv_connection_sequence :: int
  srv_connections :: "Connection list"

text \<open>The configuration has no fsync policy, so the pool always gets the defaults.\<close>

definition PoolServer_init :: "LiteStoreConfig \<Rightarrow> py_exn + PoolServer" where
  "PoolServer_init config =
     (case DeterministicHashRouter_init (pool_worker_ids (cfg_worker_count config)) of
        Inl e \<Rightarrow> Inl e
      | Inr router \<Rightarrow> Inr
          \<lparr>srv_router = router,
           srv_pool = WorkerPool_init (cfg_worker_count config) (py_path (cfg_aof_path config)) EVERY_N 100,
           srv_metrics = MetricsCollector_init, srv_connection_sequence = 0, srv_connections = []\<rparr>)"

definition pool_server_start ::
    "unicode_db \<Rightarrow> (pystr \<Rightarrow> nat \<Rightarrow> rat) \<Rightarrow> (pystr \<Rightarrow> pystr \<times> (nat \<Rightarrow> (nat \<times> pystr) option)) \<Rightarrow> rat \<Rightarrow>
     PoolServer \<Rightarrow> PoolServer" where
  "pool_server_start U clocks files now s = s\<lparr>srv_pool := start_all U clocks files now (srv_pool s)\<rparr>"

definition pool_server_close :: "PoolServer \<Rightarrow> PoolServer" where
  "pool_server_close s = s\<lparr>srv_pool := shutdown_all (srv_pool s)\<rparr>"

definition server_connect :: "(pystr \<times> pystr) option \<Rightarrow> PoolServer \<Rightarrow> PoolServer" where
  "server_connect peer s =
     (let n = srv_connection_sequence s + 1
      in s\<lparr>srv_connection_sequence := n, srv_connections := srv_connections s @
           [\<lparr>conn_id = connection_name peer n, conn_request_index = 0, conn_pending = None,
             conn_answered = [], conn_out = [], conn_open = True\<rparr>]\<rparr>)"

definition dispatch_pool ::
    "pystr \<Rightarrow> nat \<Rightarrow> CommandRequest \<Rightarrow> PoolServer \<Rightarrow> py_exn + pystr \<times> PoolServer" where
  "dispatch_pool fresh_id call request s =
     (case route_request (srv_router s) request of
        Inl e \<Rightarrow> Inl e
      | Inr route \<Rightarrow>
          (case pool_call fresh_id (route_worker_id route) call request (srv_pool s) of
             Inl e \<Rightarrow> Inl e
           | Inr p \<Rightarrow> Inr (route_worker_id route, s\<lparr>srv_pool := p\<rparr>)))"

text \<open>Writing a response; an exception ends the connection.\<close>

definition write_response :: "CommandResponse \<Rightarrow> Connection \<Rightarrow> Connection" where
  "write_response response c =
     (case serialize_response response of
        Inl _ \<Rightarrow> c\<lparr>conn_open := False\<rparr>
      | Inr text \<Rightarrow>
          (case utf8_encode text of
             Inl _ \<Rightarrow> c\<lparr>conn_open := False\<rparr>
           | Inr out \<Rightarrow> c\<lparr>conn_out := conn_out c @ out\<rparr>))"

text \<open>A line is read: it is refused at once, or its request is dispatched.\<close>

definition receive_line ::
    "unicode_db \<Rightarrow> pystr \<Rightarrow> nat \<Rightarrow> 8 word list \<Rightarrow> Connection \<Rightarrow> PoolServer \<Rightarrow> Connection \<times> PoolServer" where
  "receive_line U fresh_id call raw c s =
     (let c1 = c\<lparr>conn_request_index := conn_request_index c + 1\<rparr>;
          request_id = conn_id c @ lit '':'' @ py_str_int (conn_request_index c1) in
      case parse_command U (utf8_decode_replace raw) (Some request_id) (Some (conn_id c)) of
        Inl exc \<Rightarrow> (write_response (error_response (err_code exc) (err_message exc) (Some request_id)) c1, s)
      | Inr request \<Rightarrow>
          (case dispatch_pool fresh_id call request s of
             Inl _ \<Rightarrow> (c1\<lparr>conn_open := False\<rparr>, s)
           | Inr (wid, s1) \<Rightarrow> (c1\<lparr>conn_pending := Some (wid, call, request)\<rparr>, s1)))"

text \<open>The call of a connection returns.\<close>

definition receive_answer ::
    "CommandRequest \<Rightarrow> CommandResponse \<Rightarrow> rat \<Rightarrow> Connection \<Rightarrow> PoolServer \<Rightarrow> Connection \<times> PoolServer" where
  "receive_answer request response duration c s =
     (let c1 = c\<lparr>conn_pending := None, conn_answered := conn_answered c @ [(request, response)]\<rparr>;
          (result, m) = observe_command request duration (srv_metrics s);
          s1 = s\<lparr>srv_metrics := m\<rparr>
      in case result of
           Inl _ \<Rightarrow> (c1\<lparr>conn_open := False\<rparr>, s1)
         | Inr _ \<Rightarrow> (write_response response c1, s1))"

inductive server_step ::
    "unicode_db \<Rightarrow> ((pystr \<times> pystr) list \<Rightarrow> pystr) \<Rightarrow> nat \<Rightarrow> PoolServer \<Rightarrow> PoolServer \<Rightarrow> bool"
  for U show_dict threads where
  connect: "server_step U show_dict threads s (server_connect peer s)"
| line: "i < length (srv_connections s) \<Longrightarrow> c = srv_connections s ! i \<Longrightarrow> conn_open c \<Longrightarrow> conn_pending c = None \<Longrightarrow>
    call \<notin> pool_calls (srv_pool s) \<Longrightarrow> receive_line U fresh_id call raw c s = (c', s') \<Longrightarrow>
    server_step U show_dict threads s (s'\<lparr>srv_connections := (srv_connections s)[i := c']\<rparr>)"
| answer: "i < length (srv_connections s) \<Longrightarrow> c = srv_connections s ! i \<Longrightarrow>
    conn_pending c = Some (wid, call, request) \<Longrightarrow> map_of (pool_handles (srv_pool s)) wid = Some h \<Longrightarrow>
    (call, rid, response) \<in> set (handle_done h) \<Longrightarrow>
    receive_answer request response duration c s = (c', s') \<Longrightarrow>
    server_step U show_dict threads s (s'\<lparr>srv_connections := (srv_connections s)[i := c']\<rparr>)"
| eof: "i < length (srv_connections s) \<Longrightarrow> c = srv_connections s ! i \<Longrightarrow> conn_pending c = None \<Longrightarrow>
    server_step U show_dict threads s
      (s\<lparr>srv_connections := (srv_connections s)[i := c\<lparr>conn_open := False\<rparr>]\<rparr>)"
| progress: "pool_progress U show_dict threads (srv_pool s) p \<Longrightarrow>
    server_step U show_dict threads s (s\<lparr>srv_pool := p\<rparr>)"
| background: "pool_background U show_dict (srv_pool s) p \<Longrightarrow>
    server_step U show_dict threads s (s\<lparr>srv_pool := p\<rparr>)"

section \<open>Workers on their logs\<close>

text \<open>A log file that a worker can be started on: complete lines, all of data commands.\<close>

definition log_ready :: "pystr \<Rightarrow> int \<Rightarrow> bool" where
  "log_ready t n \<longleftrightarrow> at_line_end t \<and> discover_next_sequence t = Inr n \<and>
     (\<forall>r \<in> set (fst (replay_text t)). data_command (rec_request r))"

text \<open>A running worker that holds \<open>m\<close>, in its store and in its log.\<close>

definition handle_ready :: "int \<Rightarrow> (pystr \<rightharpoonup> pystr) \<Rightarrow> WorkerHandle \<Rightarrow> bool" where
  "handle_ready n m h \<longleftrightarrow> wp_running (handle_process h) \<and> worker_holds (handle_process h) m \<and>
     (\<exists>a. wp_persistence (handle_process h) = Some a \<and> aof_next_sequence a \<le> n)"

lemma FsyncPolicy_of_value [simp]: "FsyncPolicy_of (FsyncPolicy_value p) = Inr p"
  by (cases p) (simp_all add: FsyncPolicy_of_def FsyncPolicy_value_def)

lemma start_handle_ready:
  fixes U clocks now
  assumes "files (path_str (aof_path_for_worker (pool_aof_base_path p) (handle_worker_id h))) = (t, \<lambda>_. None)"
    and "path_ok (pool_aof_base_path p)" and "log_ready t n" and "handle_alive h"
  defines "h' \<equiv> start_handle U clocks files now p h"
  shows "handle_ready n (data_of_log (fst (replay_text t)) Map.empty) h' \<and> handle_alive h'"
proof -
  let ?path = "path_str (aof_path_for_worker (pool_aof_base_path p) (handle_worker_id h))"
  define a where "a = \<lparr>aof_text = t, aof_pending = [], aof_buffer_end = 0, aof_buffer_size = default_buffer_size, aof_synced = length t, aof_closed = False,
    aof_io_calls = 0, aof_io_fault = (\<lambda>_. None), aof_next_sequence = n,
    aof_fsync_policy = pool_fsync_policy p, aof_fsync_every_n = pool_fsync_every_n p, aof_writes_since_fsync = 0\<rparr>"
  define w where "w = \<lparr>wp_worker_id = handle_worker_id h, wp_partition_id = handle_partition_id h, wp_responses = [],
    wp_store = MemoryStore_init (clocks (handle_worker_id h)) None, wp_persistence = Some a, wp_running = True\<rparr>"
  have init: "AofPersistence_init t (\<lambda>_. None) (pool_fsync_policy p) (pool_fsync_every_n p) = Inr a"
    using assms(3) by (simp add: AofPersistence_init_def log_ready_def a_def)
  have "?path \<noteq> []" using path_str_nonempty aof_path_ok [OF assms(2)] by blast
  then have entry: "worker_entry (handle_worker_id h) (handle_partition_id h) (clocks (handle_worker_id h)) files
      (Some ?path) (FsyncPolicy_value (pool_fsync_policy p)) (pool_fsync_every_n p) = Inr w"
    using assms(1) init by (simp add: worker_entry_def WorkerProcess_init_def w_def)
  have A: "aof_ok a" "aof_replay a = replay_text t" "aof_io_fault a = (\<lambda>_. None)" "aof_next_sequence a = n"
    using aof_init_ok [OF init] assms(3) by (simp_all add: log_ready_def aof_replay_def a_def)
  obtain w' where w': "run_replay U w = (Inr (), w')" "wp_persistence w' = Some a"
    "worker_holds w' (data_of_log (fst (replay_text t)) Map.empty)" "wp_running w'"
    using start_worker [of a w "clocks (handle_worker_id h)" U] A assms(3)
    by (auto simp: log_ready_def w_def run_replay_def split: prod.splits sum.splits)
  then show ?thesis
    using entry assms(4) A(4) by (simp add: h'_def start_handle_def handle_ready_def worker_holds_def Let_def)
qed

lemma worker_holds_simps [simp]:
  "worker_holds (w\<lparr>wp_responses := rs\<rparr>) m = worker_holds w m"
  "worker_holds (w\<lparr>wp_store := s\<rparr>) m \<longleftrightarrow> holds s m \<and> (\<exists>a. wp_persistence w = Some a \<and> aof_ok a \<and>
     aof_io_fault a = (\<lambda>_. None) \<and> (\<forall>r \<in> set (fst (aof_replay a)). data_command (rec_request r)) \<and>
     data_of_log (fst (aof_replay a)) Map.empty = m)"
  by (simp_all add: worker_holds_def)

lemma expiration_cycle_holds:
  "worker_holds w m \<Longrightarrow> worker_holds (snd (expiration_cycle now l w)) m \<and>
     wp_persistence (snd (expiration_cycle now l w)) = wp_persistence w"
  using holds_swept [of "wp_store w" m] by (auto simp: expiration_cycle_def worker_holds_def swept_def)

text \<open>Turns of a ready worker: with an empty queue nothing changes, and a request is answered.\<close>

lemma idle_turn_ready:
  assumes "handle_ready n m h"
  shows "handle_ready n m (worker_turn U show_dict None now h) \<and>
    handle_alive (worker_turn U show_dict None now h) = handle_alive h \<and>
    wp_responses (handle_process (worker_turn U show_dict None now h)) = wp_responses (handle_process h)"
  using assms expiration_cycle_holds [of "handle_process h" m now "handle_last_expiration h"]
  by (auto simp: handle_ready_def worker_turn_def loop_step_def case_prod_beta Let_def)

lemma request_turn_ready:
  assumes "handle_ready n m h" and "data_command (request_of q)" and "\<forall>x \<in> set (wreq_args q). scalar_text x"
    and "n < 10 ^ max_str_digits"
  shows "\<exists>resp. let h' = worker_turn U show_dict (Some (MsgRequest q)) now h in
    handle_ready (n + 1) (data_effect (request_of q) m) h' \<and> handle_alive h' = handle_alive h \<and>
    wp_responses (handle_process h') = wp_responses (handle_process h) @ [to_worker_response (wreq_request_id q) resp] \<and>
    dict_command fnmatch (request_of q) m resp (data_effect (request_of q) m)"
proof -
  obtain a where w: "worker_holds (handle_process h) m" "wp_persistence (handle_process h) = Some a"
    "aof_next_sequence a \<le> n" "wp_running (handle_process h)" using assms(1) by (auto simp: handle_ready_def)
  have "aof_next_sequence a < 10 ^ max_str_digits" using w(3) assms(4) by simp
  from handle_request_data [OF w(1,2) assms(2,3) this, of U]
  obtain w' a' resp where x: "handle_request U q (handle_process h) = (Inr (), w')"
    "worker_holds w' (data_effect (request_of q) m)" "wp_persistence w' = Some a'"
    "aof_next_sequence a' \<le> aof_next_sequence a + 1"
    "wp_responses w' = wp_responses (handle_process h) @ [to_worker_response (wreq_request_id q) resp]"
    "dict_command fnmatch (request_of q) m resp (data_effect (request_of q) m)" by blast
  have run: "wp_running w'" using x(1) w(4)
    by (auto simp: handle_request_def Let_def split: prod.splits sum.splits option.splits if_splits)
  note E = expiration_cycle_holds [OF x(2), of now "handle_last_expiration h"]
  have "handle_ready (n + 1) (data_effect (request_of q) m) (worker_turn U show_dict (Some (MsgRequest q)) now h)"
    using E x(1,3,4) w(3) run by (simp add: handle_ready_def worker_turn_def loop_step_def case_prod_beta Let_def)
  then show ?thesis
    using x(1,5,6) by (auto simp: worker_turn_def loop_step_def case_prod_beta Let_def)
qed

lemma handle_ready_mono: "handle_ready n m h \<Longrightarrow> n \<le> n' \<Longrightarrow> handle_ready n' m h"
  by (auto simp: handle_ready_def)

section \<open>One connection\<close>

text \<open>What the workers hold together.\<close>

definition handle_content :: "WorkerHandle \<Rightarrow> (pystr \<rightharpoonup> pystr)" where
  "handle_content h = content (wp_store (handle_process h))"

definition pool_content :: "DeterministicHashRouter \<Rightarrow> WorkerPool \<Rightarrow> (pystr \<rightharpoonup> pystr)" where
  "pool_content r p = owner_content r (\<lambda>i. map_option handle_content (map_of (pool_handles p) i))"

lemma handle_ready_content: "handle_ready n m h \<Longrightarrow> handle_content h = m"
  by (simp add: handle_ready_def worker_holds_def holds_def handle_content_def)

text \<open>
  The states of a pool with at most one call on the way: none, one whose request or response is in
  its worker's queues, or one that is done but not yet picked up by its connection.
\<close>

definition quiet_handle :: "int \<Rightarrow> WorkerHandle \<Rightarrow> bool" where
  "quiet_handle n h \<longleftrightarrow> handle_ready n (handle_content h) h \<and> handle_requests h = [] \<and>
     wp_responses (handle_process h) = []"

definition pool_idle :: "int \<Rightarrow> WorkerPool \<Rightarrow> bool" where
  "pool_idle n p \<longleftrightarrow> dict_ok (pool_handles p) \<and> (\<forall>x \<in> set (pool_handles p). quiet_handle n (snd x)) \<and>
     pool_gets_running p = [] \<and> pool_gets_queued p = []"

definition pool_busy ::
    "int \<Rightarrow> WorkerPool \<Rightarrow> pool_get \<Rightarrow> WorkerHandle \<Rightarrow> bool" where
  "pool_busy n p g h \<longleftrightarrow> dict_ok (pool_handles p) \<and> map_of (pool_handles p) (fst g) = Some h \<and>
     (\<forall>x \<in> set (pool_handles p). fst x \<noteq> fst g \<longrightarrow> quiet_handle n (snd x)) \<and>
     handle_ready n (handle_content h) h \<and> fst (snd g) \<notin> fst ` set (handle_done h) \<and>
     pool_gets_running p @ pool_gets_queued p = [g]"

text \<open>The requests answered so far and their responses, as those of a dictionary.\<close>

definition answered_to ::
    "(pystr \<rightharpoonup> pystr) \<Rightarrow> (CommandRequest \<times> CommandResponse) list \<Rightarrow> (pystr \<rightharpoonup> pystr) \<Rightarrow> bool" where
  "answered_to m0 ans m \<longleftrightarrow> dict_run fnmatch (map fst ans) m0 (map snd ans) m"

definition call_request :: "CommandRequest \<Rightarrow> pystr \<Rightarrow> bool" where
  "call_request q i \<longleftrightarrow> single_key q \<and> req_request_id q = Some i \<and> i \<noteq> [] \<and> (\<forall>x \<in> set (req_args q). scalar_text x)"

definition call_queued ::
    "DeterministicHashRouter \<Rightarrow> int \<Rightarrow> (pystr \<rightharpoonup> pystr) \<Rightarrow> WorkerPool \<Rightarrow>
     (CommandRequest \<times> CommandResponse) list \<Rightarrow> pool_get \<Rightarrow> CommandRequest \<Rightarrow> bool" where
  "call_queued r n m0 p ans g q \<longleftrightarrow> (\<exists>h fresh_id. pool_busy (n - 1) p g h \<and>
     handle_requests h = [MsgRequest (to_worker_request fresh_id q)] \<and> wp_responses (handle_process h) = [] \<and>
     answered_to m0 ans (pool_content r p))"

definition call_executed ::
    "DeterministicHashRouter \<Rightarrow> int \<Rightarrow> (pystr \<rightharpoonup> pystr) \<Rightarrow> WorkerPool \<Rightarrow>
     (CommandRequest \<times> CommandResponse) list \<Rightarrow> pool_get \<Rightarrow> CommandRequest \<Rightarrow> bool" where
  "call_executed r n m0 p ans g q \<longleftrightarrow> (\<exists>h x. pool_busy n p g h \<and> handle_requests h = [] \<and>
     wp_responses (handle_process h) = [x] \<and>
     answered_to m0 (ans @ [(q, to_command_response x)]) (pool_content r p))"

definition call_done ::
    "DeterministicHashRouter \<Rightarrow> int \<Rightarrow> (pystr \<rightharpoonup> pystr) \<Rightarrow> WorkerPool \<Rightarrow>
     (CommandRequest \<times> CommandResponse) list \<Rightarrow> pool_get \<Rightarrow> CommandRequest \<Rightarrow> bool" where
  "call_done r n m0 p ans g q \<longleftrightarrow> pool_idle n p \<and> (\<exists>h resp. map_of (pool_handles p) (fst g) = Some h \<and>
     (\<forall>i r. (fst (snd g), i, r) \<in> set (handle_done h) \<longrightarrow> r = resp) \<and>
     answered_to m0 (ans @ [(q, resp)]) (pool_content r p))"

lemma answered_snoc:
  "answered_to m0 ans m \<Longrightarrow> dict_command fnmatch q m resp m' \<Longrightarrow> answered_to m0 (ans @ [(q, resp)]) m'"
proof -
  have "dict_run fnmatch qs m0 rs m \<Longrightarrow> dict_command fnmatch q m resp m' \<Longrightarrow>
      dict_run fnmatch (qs @ [q]) m0 (rs @ [resp]) m'" for qs rs
    by (induction qs arbitrary: m0 rs) (simp, fastforce)
  then show "answered_to m0 ans m \<Longrightarrow> dict_command fnmatch q m resp m' \<Longrightarrow> answered_to m0 (ans @ [(q, resp)]) m'"
    by (simp add: answered_to_def)
qed

lemma dict_run_prefix:
  "dict_run f (qs @ [q]) m0 rs m1 \<Longrightarrow> \<exists>rs' y m. rs = rs' @ [y] \<and> dict_run f qs m0 rs' m"
proof (induction qs arbitrary: m0 rs)
  case (Cons a qs)
  then obtain r rs1 m where r: "rs = r # rs1" "dict_command f a m0 r m" "dict_run f (qs @ [q]) m rs1 m1" by auto
  from Cons.IH [OF r(3)] r(1,2) show ?case by fastforce
qed auto

text \<open>A response on one key comes through the queues as it is.\<close>

lemma dict_command_transport:
  "dict_command fnmatch q m resp m' \<Longrightarrow> single_key q \<Longrightarrow> req_request_id q = Some i \<Longrightarrow>
     dict_command fnmatch q m (to_command_response (to_worker_response i resp)) m'"
  by (cases "req_command q")
    (auto simp: dict_command_def single_key_def to_command_response_def to_worker_response_def Let_def)

lemma request_of_to_worker:
  "call_request q i \<Longrightarrow> request_of (to_worker_request fresh_id q) = q \<and>
     wreq_request_id (to_worker_request fresh_id q) = i \<and> wreq_args (to_worker_request fresh_id q) = req_args q"
  by (cases q) (simp add: call_request_def request_of_def to_worker_request_def)

section \<open>The steps of the pool\<close>

lemma quiet_update:
  assumes "dict_ok d" "map_of d wid = Some h" "\<forall>x \<in> set d. fst x \<noteq> wid \<longrightarrow> P (snd x)" "P h'"
  shows "\<forall>x \<in> set (AList.update wid h' d). P (snd x)"
proof
  fix x assume "x \<in> set (AList.update wid h' d)"
  then have "map_of (AList.update wid h' d) (fst x) = Some (snd x)"
    using dict_ok_update [OF assms(1)] mem_dict_iff by (metis prod.collapse)
  then show "P (snd x)"
    using assms(3,4) map_of_SomeD [of d "fst x" "snd x"] by (auto simp: AList.update_conv' split: if_splits)
qed

lemma others_update:
  assumes "dict_ok d" "\<forall>x \<in> set d. fst x \<noteq> wid \<longrightarrow> P (snd x)"
  shows "\<forall>x \<in> set (AList.update wid h' d). fst x \<noteq> wid \<longrightarrow> P (snd x)"
  using assms set_update_subset [of wid h' d] by fastforce

lemma pool_content_update:
  "pool_content r (p\<lparr>pool_handles := AList.update wid h' d\<rparr>) =
     owner_content r ((\<lambda>i. map_option handle_content (map_of d i))(wid \<mapsto> handle_content h'))"
  by (simp add: pool_content_def AList.update_conv')
    (rule arg_cong [where f = "owner_content r"], auto)

lemma pool_content_same:
  assumes "map_of (pool_handles p) wid = Some h" "handle_content h' = handle_content h"
  shows "pool_content r (p\<lparr>pool_handles := AList.update wid h' (pool_handles p)\<rparr>) = pool_content r p"
proof -
  have "(\<lambda>i. map_option handle_content (map_of (pool_handles p) i))(wid \<mapsto> handle_content h') =
      (\<lambda>i. map_option handle_content (map_of (pool_handles p) i))"
    using assms by auto
  then show ?thesis by (simp add: pool_content_update) (simp add: pool_content_def)
qed

lemma pool_content_more [simp]:
  "pool_content r (p\<lparr>pool_gets_running := gs\<rparr>) = pool_content r p"
  "pool_content r (p\<lparr>pool_gets_queued := gs\<rparr>) = pool_content r p"
  by (simp_all add: pool_content_def)

lemma handle_content_simps [simp]:
  "handle_content (pool_send c q h) = handle_content h"
  "handle_content (pool_receive call x rs h) = handle_content h"
  by (simp_all add: handle_content_def pool_send_def pool_receive_def)

lemma handle_ready_simps [simp]:
  "handle_ready n m (pool_send c q h) = handle_ready n m h"
  "handle_ready n m (pool_receive call x rs h) = handle_ready n m h"
  by (simp_all add: handle_ready_def pool_send_def pool_receive_def)

lemma idle_turn_quiet:
  "quiet_handle n h \<Longrightarrow> quiet_handle n (worker_turn U show_dict None now h) \<and>
     handle_content (worker_turn U show_dict None now h) = handle_content h"
  using idle_turn_ready [of n "handle_content h" h U show_dict now] handle_ready_content
  by (fastforce simp: quiet_handle_def worker_turn_requests)

text \<open>Dispatching.\<close>

lemma call_from_idle:
  assumes I: "pool_idle n p" and a: "answered_to m0 ans (pool_content r p)" and q: "call_request q i"
    and c: "c \<notin> pool_calls p" and p': "pool_call fresh_id wid c q p = Inr p'"
  shows "call_queued r (n + 1) m0 p' ans (wid, c, i) q"
proof -
  let ?w = "to_worker_request fresh_id q"
  obtain h where h: "map_of (pool_handles p) wid = Some h"
    and p'': "p' = p\<lparr>pool_handles := AList.update wid (pool_send c ?w h) (pool_handles p)\<rparr>
      \<lparr>pool_gets_queued := pool_gets_queued p @ [(wid, c, i)]\<rparr>"
    using p' request_of_to_worker [OF q, of fresh_id] by (auto simp: pool_call_def Let_def split: option.splits)
  have d: "dict_ok (pool_handles p)" and Q: "\<forall>x \<in> set (pool_handles p). quiet_handle n (snd x)"
    and g: "pool_gets_running p = []" "pool_gets_queued p = []" using I by (simp_all add: pool_idle_def)
  have qh: "quiet_handle n h" using Q map_of_SomeD [OF h] by auto
  have "c \<notin> handle_calls h" using c map_of_SomeD [OF h] by (force simp: pool_calls_def)
  then have busy: "pool_busy n p' (wid, c, i) (pool_send c ?w h)"
    using d g Q qh others_update [OF d, of wid "quiet_handle n" "pool_send c ?w h"]
    by (simp add: pool_busy_def p'' AList.update_conv' quiet_handle_def handle_calls_def) (simp add: pool_send_def)
  have "pool_content r p' = pool_content r p" using pool_content_same [OF h, of "pool_send c ?w h"] by (simp add: p'')
  moreover have "handle_requests (pool_send c ?w h) = [MsgRequest ?w]"
    "wp_responses (handle_process (pool_send c ?w h)) = []"
    using qh by (simp_all add: pool_send_def quiet_handle_def)
  ultimately show ?thesis using busy a by (auto simp: call_queued_def)
qed

text \<open>The worker executes the request.\<close>

lemma turn_from_queued:
  fixes U show_dict now
  assumes B: "pool_busy (n - 1) p g h" "handle_requests h = [MsgRequest (to_worker_request fresh_id q)]"
      "wp_responses (handle_process h) = []"
    and a: "answered_to m0 ans (pool_content r p)" and q: "call_request q i"
    and route: "route_request r q = Inr route" "route_worker_id route = fst g" and n: "n \<le> 10 ^ max_str_digits"
  defines "h' \<equiv> worker_turn U show_dict (Some (MsgRequest (to_worker_request fresh_id q))) now h"
  shows "call_executed r n m0 (p\<lparr>pool_handles := AList.update (fst g) h' (pool_handles p)\<rparr>) ans g q"
    (is "call_executed r n m0 ?p ans g q")
proof -
  let ?w = "to_worker_request fresh_id q"
  have d: "dict_ok (pool_handles p)" and m: "map_of (pool_handles p) (fst g) = Some h"
    and others: "\<forall>x \<in> set (pool_handles p). fst x \<noteq> fst g \<longrightarrow> quiet_handle (n - 1) (snd x)"
    and ready: "handle_ready (n - 1) (handle_content h) h"
    using B(1) by (simp_all add: pool_busy_def)
  note Q = request_of_to_worker [OF q, of fresh_id]
  have dc: "data_command (request_of ?w)" using q Q by (auto simp: call_request_def single_key_def data_command_def)
  have sc: "\<forall>x \<in> set (wreq_args ?w). scalar_text x" using q Q by (simp add: call_request_def)
  have "n - 1 < 10 ^ max_str_digits" using n by simp
  from request_turn_ready [OF ready dc sc this, of U show_dict now] obtain resp where
    T: "handle_ready n (data_effect q (handle_content h)) h'"
      "wp_responses (handle_process h') = [to_worker_response i resp]"
      "dict_command fnmatch q (handle_content h) resp (data_effect q (handle_content h))"
    using Q B(3) by (auto simp: h'_def Let_def)
  have hc: "handle_content h' = data_effect q (handle_content h)" using T(1) by (rule handle_ready_content)
  let ?f = "\<lambda>i. map_option handle_content (map_of (pool_handles p) i)"
  have f: "?f (route_worker_id route) = Some (handle_content h)" using m route(2) by simp
  note O = owner_effect [where f = ?f, OF route(1) f]
  have c: "pool_content r ?p = data_effect q (pool_content r p)"
    using O(1) hc route(2) by (simp add: pool_content_update) (simp add: pool_content_def)
  have "single_key q" using q by (simp add: call_request_def)
  from O(2) [OF this T(3)] have "dict_command fnmatch q (pool_content r p) resp (pool_content r ?p)"
    by (simp add: c) (simp add: pool_content_def)
  then have "dict_command fnmatch q (pool_content r p) (to_command_response (to_worker_response i resp)) (pool_content r ?p)"
    using dict_command_transport q by (auto simp: call_request_def)
  from answered_snoc [OF a this]
  have ans: "answered_to m0 (ans @ [(q, to_command_response (to_worker_response i resp))]) (pool_content r ?p)" .
  have "\<forall>x \<in> set (pool_handles p). fst x \<noteq> fst g \<longrightarrow> quiet_handle n (snd x)"
    using others handle_ready_mono [of "n - 1" _ _ n] by (auto simp: quiet_handle_def)
  then have "pool_busy n ?p g h'"
    using B(1) d T(1) hc others_update [OF d, of "fst g" "quiet_handle n" h']
    by (simp add: pool_busy_def AList.update_conv' h'_def)
  moreover have "handle_requests h' = []" using B(2) by (simp add: h'_def worker_turn_requests)
  ultimately show ?thesis using T(2) ans by (auto simp: call_executed_def)
qed

text \<open>The response is taken by the thread that waits for it.\<close>

lemma answer_from_executed:
  assumes B: "pool_busy n p g h" "handle_requests h = []" "wp_responses (handle_process h) = [x]"
    and a: "answered_to m0 (ans @ [(q, to_command_response x)]) (pool_content r p)"
    and g: "(wid, call) \<in> set (pool_gets_running p)" and h: "map_of (pool_handles p) wid = Some h'"
    and x: "wp_responses (handle_process h') = y # ys"
  shows "call_done r n m0 (p\<lparr>pool_gets_running := remove1 (wid, call) (pool_gets_running p),
    pool_handles := AList.update wid (pool_receive call y ys h') (pool_handles p)\<rparr>) ans g q"
    (is "call_done r n m0 ?p ans g q")
proof -
  have one: "pool_gets_running p @ pool_gets_queued p = [g]" using B(1) by (simp add: pool_busy_def)
  then have gw: "g = (wid, call)" "pool_gets_running p = [g]" "pool_gets_queued p = []"
    using g by (auto simp: append_eq_Cons_conv)
  then have hh: "h' = h" "y = x" "ys = []" using B h x by (simp_all add: pool_busy_def)
  have d: "dict_ok (pool_handles p)" using B(1) by (simp add: pool_busy_def)
  have fresh: "fst call \<notin> fst ` set (handle_done h)" using B(1) by (simp add: pool_busy_def gw)
  have "quiet_handle n (pool_receive call x [] h)"
    using B by (simp add: quiet_handle_def pool_busy_def) (simp add: pool_receive_def)
  moreover have "\<forall>x \<in> set (pool_handles p). fst x \<noteq> wid \<longrightarrow> quiet_handle n (snd x)"
    using B(1) by (simp add: pool_busy_def gw(1))
  ultimately have "\<forall>z \<in> set (pool_handles ?p). quiet_handle n (snd z)"
    using quiet_update [OF d h] hh by simp
  then have "pool_idle n ?p" using d gw by (simp add: pool_idle_def)
  moreover have "pool_content r ?p = pool_content r p"
    using pool_content_same [OF h, of "pool_receive call y ys h'"] by (simp add: pool_content_def)
  moreover have "\<forall>i r. (fst (snd g), i, r) \<in> set (handle_done (pool_receive call x [] h)) \<longrightarrow> r = to_command_response x"
    using fresh by (force simp: pool_receive_def gw(1))
  moreover have "map_of (pool_handles ?p) (fst g) = Some (pool_receive call x [] h)"
    using h by (simp add: gw(1) hh AList.update_conv')
  ultimately show ?thesis using a unfolding call_done_def by metis
qed

definition conn_phase ::
    "DeterministicHashRouter \<Rightarrow> int \<Rightarrow> (pystr \<rightharpoonup> pystr) \<Rightarrow> WorkerPool \<Rightarrow>
     (CommandRequest \<times> CommandResponse) list \<Rightarrow> (pystr \<times> nat \<times> CommandRequest) option \<Rightarrow> bool" where
  "conn_phase r n m0 p ans pend = (case pend of
      None \<Rightarrow> pool_idle n p \<and> answered_to m0 ans (pool_content r p)
    | Some (wid, c, q) \<Rightarrow> (\<exists>i route. call_request q i \<and> route_request r q = Inr route \<and> route_worker_id route = wid \<and>
        (call_queued r n m0 p ans (wid, c, i) q \<or> call_executed r n m0 p ans (wid, c, i) q \<or>
         call_done r n m0 p ans (wid, c, i) q)))"

lemma quiet_no_progress:
  assumes "pool_idle n p" and "pool_progress U show_dict threads p p'"
  shows False
  using assms(2)
proof (cases rule: pool_progress.cases)
  case (turn wid h m now)
  then have "quiet_handle n h" using assms(1) map_of_SomeD [OF turn(2)] by (auto simp: pool_idle_def)
  then show False using turn(3) by (simp add: turn_enabled_def quiet_handle_def)
qed (use assms(1) in \<open>auto simp: pool_idle_def\<close>)

lemma busy_take:
  "pool_busy n p g h \<Longrightarrow> pool_gets_queued p = x # xs \<Longrightarrow>
     pool_busy n (p\<lparr>pool_gets_running := pool_gets_running p @ [x], pool_gets_queued := xs\<rparr>) g h"
  by (auto simp: pool_busy_def append_eq_Cons_conv)

lemma busy_handle:
  assumes "pool_busy n p g h" and "map_of (pool_handles p) wid = Some h'"
  shows "wid = fst g \<and> h' = h \<or> wid \<noteq> fst g \<and> quiet_handle n h'"
  using assms map_of_SomeD [OF assms(2)] by (auto simp: pool_busy_def)

lemma queued_progress:
  assumes Q: "call_queued r n m0 p ans (wid, c, i) q" and S: "pool_progress U show_dict threads p p'"
    and q: "call_request q i" "route_request r q = Inr route" "route_worker_id route = wid"
    and n: "n \<le> 10 ^ max_str_digits"
  shows "call_queued r n m0 p' ans (wid, c, i) q \<or> call_executed r n m0 p' ans (wid, c, i) q"
proof -
  obtain h fresh_id where B: "pool_busy (n - 1) p (wid, c, i) h"
    "handle_requests h = [MsgRequest (to_worker_request fresh_id q)]" "wp_responses (handle_process h) = []"
    "answered_to m0 ans (pool_content r p)" using Q by (auto simp: call_queued_def)
  from S show ?thesis
  proof (cases rule: pool_progress.cases)
    case (take x xs)
    then show ?thesis using B busy_take [OF B(1) take(2)] by (auto simp: call_queued_def)
  next
    case (turn wid' h' m now)
    then have "wid' = wid" "h' = h" "m = MsgRequest (to_worker_request fresh_id q)"
      using busy_handle [OF B(1) turn(2)] B(2) by (auto simp: turn_enabled_def quiet_handle_def)
    then show ?thesis
      using turn_from_queued [OF B q(1,2) _ n, of U show_dict now] q(3) turn(1) by simp
  next
    case (answer wid' call h' y ys)
    then show ?thesis
      using busy_handle [OF B(1) answer(3)] B(3) by (auto simp: quiet_handle_def)
  qed
qed

lemma executed_progress:
  assumes E: "call_executed r n m0 p ans (wid, c, i) q" and S: "pool_progress U show_dict threads p p'"
  shows "call_executed r n m0 p' ans (wid, c, i) q \<or> call_done r n m0 p' ans (wid, c, i) q"
proof -
  obtain h x where B: "pool_busy n p (wid, c, i) h" "handle_requests h = []" "wp_responses (handle_process h) = [x]"
    "answered_to m0 (ans @ [(q, to_command_response x)]) (pool_content r p)" using E by (auto simp: call_executed_def)
  from S show ?thesis
  proof (cases rule: pool_progress.cases)
    case (take y ys)
    then show ?thesis using B busy_take [OF B(1) take(2)] by (auto simp: call_executed_def)
  next
    case (turn wid' h' m now)
    then show ?thesis
      using busy_handle [OF B(1) turn(2)] B(2) by (auto simp: turn_enabled_def quiet_handle_def)
  next
    case (answer wid' call h' y ys)
    then show ?thesis using answer_from_executed [OF B answer(2,3,4)] by simp
  qed
qed

lemma phase_progress:
  assumes P: "conn_phase r n m0 p ans pend" and S: "pool_progress U show_dict threads p p'"
    and n: "n \<le> 10 ^ max_str_digits"
  shows "conn_phase r n m0 p' ans pend"
proof (cases pend)
  case None
  then have "pool_idle n p" using P by (simp add: conn_phase_def)
  then show ?thesis using S quiet_no_progress by blast
next
  case (Some w)
  then obtain wid c q where w: "pend = Some (wid, c, q)" by (cases w) auto
  then obtain i route where q: "call_request q i" "route_request r q = Inr route" "route_worker_id route = wid"
    and ph: "call_queued r n m0 p ans (wid, c, i) q \<or> call_executed r n m0 p ans (wid, c, i) q \<or>
         call_done r n m0 p ans (wid, c, i) q"
    using P by (auto simp: conn_phase_def)
  have "\<not> call_done r n m0 p ans (wid, c, i) q" using quiet_no_progress S by (auto simp: call_done_def)
  with ph have "call_queued r n m0 p' ans (wid, c, i) q \<or> call_executed r n m0 p' ans (wid, c, i) q \<or>
      call_done r n m0 p' ans (wid, c, i) q"
    using queued_progress [OF _ S q n] executed_progress [OF _ S] by blast
  then show ?thesis using q w by (auto simp: conn_phase_def)
qed

text \<open>What happens beside leaves the phase as it is.\<close>

definition inert :: "WorkerHandle \<Rightarrow> WorkerHandle \<Rightarrow> bool" where
  "inert h h' \<longleftrightarrow> handle_requests h' = handle_requests h \<and> handle_done h' = handle_done h \<and>
     (\<forall>n. handle_ready n (handle_content h) h \<longrightarrow> handle_ready n (handle_content h') h' \<and>
       handle_content h' = handle_content h \<and> wp_responses (handle_process h') = wp_responses (handle_process h))"

lemma inertD:
  assumes "inert h h'" and "handle_ready n (handle_content h) h"
  shows "handle_ready n (handle_content h') h'" "handle_content h' = handle_content h"
    "wp_responses (handle_process h') = wp_responses (handle_process h)" "handle_requests h' = handle_requests h"
  using assms unfolding inert_def by blast+

lemma quiet_inert:
  assumes "inert h h'" and "quiet_handle k h"
  shows "quiet_handle k h' \<and> handle_content h' = handle_content h"
proof -
  have "handle_ready k (handle_content h) h" using assms(2) by (simp add: quiet_handle_def)
  note R = inertD [OF assms(1) this]
  have "quiet_handle k h'" unfolding quiet_handle_def using R(1,3,4) assms(2) by (simp add: quiet_handle_def)
  with R(2) show ?thesis by simp
qed

lemma idle_inert:
  assumes "inert h h'" and m: "map_of (pool_handles p) wid = Some h" and I: "pool_idle k p"
  shows "pool_idle k (p\<lparr>pool_handles := AList.update wid h' (pool_handles p)\<rparr>) \<and>
    pool_content r (p\<lparr>pool_handles := AList.update wid h' (pool_handles p)\<rparr>) = pool_content r p"
proof -
  have d: "dict_ok (pool_handles p)" and Q: "\<forall>x \<in> set (pool_handles p). quiet_handle k (snd x)"
    and g: "pool_gets_running p = []" "pool_gets_queued p = []" using I by (simp_all add: pool_idle_def)
  have "quiet_handle k h" using Q map_of_SomeD [OF m] by auto
  then show ?thesis
    using quiet_inert [OF assms(1)] quiet_update [OF d m, of "quiet_handle k" h'] Q d g pool_content_same [OF m]
    by (simp add: pool_idle_def)
qed

lemma busy_inert:
  assumes inert: "inert h h'" and m: "map_of (pool_handles p) wid = Some h" and B: "pool_busy k p g f"
  defines "p' \<equiv> p\<lparr>pool_handles := AList.update wid h' (pool_handles p)\<rparr>"
  shows "\<exists>g'. pool_busy k p' g g' \<and> pool_content r p' = pool_content r p \<and>
    handle_requests g' = handle_requests f \<and> wp_responses (handle_process g') = wp_responses (handle_process f)"
proof (cases "wid = fst g")
  case True
  then have f: "f = h" using busy_handle [OF B m] by simp
  then have "handle_ready k (handle_content h) h" and d: "dict_ok (pool_handles p)"
    using B by (simp_all add: pool_busy_def)
  note R = inertD [OF inert this(1)]
  have "pool_busy k p' g h'"
    using B R(1,4) inert others_update [OF d, of "fst g" "quiet_handle k" h'] True f
    by (simp add: p'_def pool_busy_def AList.update_conv' inert_def)
  then show ?thesis using R(3,4) f pool_content_same [OF m R(2)] unfolding p'_def by metis
next
  case False
  then have q: "quiet_handle k h" using busy_handle [OF B m] by simp
  have d: "dict_ok (pool_handles p)" using B by (simp add: pool_busy_def)
  have "\<forall>x \<in> set (AList.update wid h' (pool_handles p)). fst x \<noteq> fst g \<longrightarrow> quiet_handle k (snd x)"
    using B dict_all_update [of "pool_handles p" "\<lambda>x. fst x \<noteq> fst g \<longrightarrow> quiet_handle k (snd x)" wid h']
      quiet_inert [OF inert q]
    by (simp add: pool_busy_def)
  then have "pool_busy k p' g f" using B False by (simp add: p'_def pool_busy_def AList.update_conv')
  then show ?thesis using pool_content_same [OF m] quiet_inert [OF inert q] unfolding p'_def by blast
qed

lemma done_inert:
  assumes inert: "inert h h'" and m: "map_of (pool_handles p) wid = Some h" and D: "call_done r n m0 p ans g q"
  shows "call_done r n m0 (p\<lparr>pool_handles := AList.update wid h' (pool_handles p)\<rparr>) ans g q"
    (is "call_done r n m0 ?p ans g q")
proof -
  obtain f resp where f: "map_of (pool_handles p) (fst g) = Some f"
    "\<forall>i r. (fst (snd g), i, r) \<in> set (handle_done f) \<longrightarrow> r = resp"
    "answered_to m0 (ans @ [(q, resp)]) (pool_content r p)" "pool_idle n p" using D by (auto simp: call_done_def)
  let ?f = "if wid = fst g then h' else f"
  have "map_of (pool_handles ?p) (fst g) = Some ?f" using f(1) by (simp add: AList.update_conv')
  moreover have "handle_done ?f = handle_done f" using f(1) m inert by (auto simp: inert_def)
  ultimately show ?thesis using idle_inert [OF inert m f(4)] f(2,3) unfolding call_done_def by metis
qed

lemma phase_inert:
  assumes P: "conn_phase r n m0 p ans pend" and m: "map_of (pool_handles p) wid = Some h" and inert: "inert h h'"
  shows "conn_phase r n m0 (p\<lparr>pool_handles := AList.update wid h' (pool_handles p)\<rparr>) ans pend"
    (is "conn_phase r n m0 ?p ans pend")
proof (cases pend)
  case None
  then have "pool_idle n p" "answered_to m0 ans (pool_content r p)" using P by (simp_all add: conn_phase_def)
  with idle_inert [OF inert m, of n] None show ?thesis by (simp add: conn_phase_def)
next
  case (Some w)
  then obtain wid' c q where w: "pend = Some (wid', c, q)" by (cases w) auto
  note busy = busy_inert [OF inert m]
  have "call_queued r n m0 p ans g q \<Longrightarrow> call_queued r n m0 ?p ans g q" for g
    unfolding call_queued_def using busy by metis
  moreover have "call_executed r n m0 p ans g q \<Longrightarrow> call_executed r n m0 ?p ans g q" for g
    unfolding call_executed_def using busy by metis
  moreover note done_inert [OF inert m]
  ultimately show ?thesis using P w unfolding conn_phase_def by fastforce
qed

lemma phase_background:
  assumes "conn_phase r n m0 p ans pend" and "pool_background U show_dict p p'"
  shows "conn_phase r n m0 p' ans pend"
  using assms(2)
proof (cases rule: pool_background.cases)
  case (idle wid h now)
  let ?h = "worker_turn U show_dict None now h"
  have "handle_ready k (handle_content ?h) ?h \<and> handle_content ?h = handle_content h \<and>
      wp_responses (handle_process ?h) = wp_responses (handle_process h)"
    if "handle_ready k (handle_content h) h" for k
    using idle_turn_ready [OF that, of U show_dict now] handle_ready_content by metis
  moreover have "handle_requests ?h = handle_requests h" "handle_done ?h = handle_done h"
    by (simp_all add: worker_turn_requests)
  ultimately have "inert h ?h" unfolding inert_def by blast
  then show ?thesis using phase_inert [OF assms(1) idle(2)] idle(1) by simp
next
  case (killed wid h)
  let ?h = "h\<lparr>handle_alive := False\<rparr>"
  have "handle_content ?h = handle_content h" "handle_ready k m ?h = handle_ready k m h" for k m
    by (simp_all add: handle_content_def handle_ready_def)
  then have "inert h ?h" by (simp add: inert_def)
  then show ?thesis using phase_inert [OF assms(1) killed(2)] killed(1) by simp
qed

text \<open>The requests a connection has dispatched.\<close>

definition conn_requests :: "Connection \<Rightarrow> CommandRequest list" where
  "conn_requests c = map fst (conn_answered c) @ (case conn_pending c of None \<Rightarrow> [] | Some (_, _, q) \<Rightarrow> [q])"

definition conn_inv :: "DeterministicHashRouter \<Rightarrow> int \<Rightarrow> (pystr \<rightharpoonup> pystr) \<Rightarrow> WorkerPool \<Rightarrow> Connection \<Rightarrow> bool" where
  "conn_inv r n m0 p c \<longleftrightarrow> conn_phase r (n + int (length (conn_requests c))) m0 p (conn_answered c) (conn_pending c)"

text \<open>What may be assumed of a server: no more than one connection, and what it has sent.\<close>

definition one_client :: "int \<Rightarrow> PoolServer \<Rightarrow> bool" where
  "one_client n s \<longleftrightarrow> length (srv_connections s) \<le> 1 \<and>
     (\<forall>c \<in> set (srv_connections s). (\<forall>q \<in> set (conn_requests c). single_key q) \<and>
        n + int (length (conn_requests c)) \<le> 10 ^ max_str_digits)"

definition client_inv :: "int \<Rightarrow> (pystr \<rightharpoonup> pystr) \<Rightarrow> PoolServer \<Rightarrow> bool" where
  "client_inv n m0 s \<longleftrightarrow> (case srv_connections s of
      [] \<Rightarrow> conn_phase (srv_router s) n m0 (srv_pool s) [] None
    | c # cs \<Rightarrow> conn_inv (srv_router s) n m0 (srv_pool s) c)"

lemma write_response_keeps [simp]:
  "conn_requests (write_response resp c) = conn_requests c"
  "conn_answered (write_response resp c) = conn_answered c"
  "conn_pending (write_response resp c) = conn_pending c"
  by (simp_all add: write_response_def conn_requests_def split: sum.split)

lemma one_element: "length xs \<le> 1 \<Longrightarrow> i < length xs \<Longrightarrow> xs = [xs ! i] \<and> i = 0"
  by (cases xs) auto

section \<open>The steps of the server\<close>

lemma client_inv_line:
  assumes one: "one_client n s" and I: "client_inv n m0 s" and i: "i < length (srv_connections s)"
    and c: "c = srv_connections s ! i" "conn_pending c = None" and call: "call \<notin> pool_calls (srv_pool s)"
    and r: "receive_line U fresh_id call raw c s = (c', s')"
    and one': "one_client n (s'\<lparr>srv_connections := (srv_connections s)[i := c']\<rparr>)"
  shows "client_inv n m0 (s'\<lparr>srv_connections := (srv_connections s)[i := c']\<rparr>)"
proof -
  have cs: "srv_connections s = [c]" "i = 0"
    using one_element [of "srv_connections s" i] one i c(1) by (simp_all add: one_client_def)
  have P: "pool_idle (n + int (length (conn_answered c))) (srv_pool s)"
    "answered_to m0 (conn_answered c) (pool_content (srv_router s) (srv_pool s))"
    using I c(2) by (simp_all add: client_inv_def conn_inv_def conn_phase_def conn_requests_def cs)
  let ?rid = "conn_id c @ lit '':'' @ py_str_int (conn_request_index c + 1)"
  have same: "client_inv n m0 (s'\<lparr>srv_connections := [c']\<rparr>)"
    if "s' = s" "conn_answered c' = conn_answered c" "conn_pending c' = None"
    using that P by (simp add: client_inv_def conn_inv_def conn_phase_def conn_requests_def)
  have goal: "s'\<lparr>srv_connections := (srv_connections s)[i := c']\<rparr> = s'\<lparr>srv_connections := [c']\<rparr>"
    by (simp add: cs)
  show ?thesis
  proof (cases "parse_command U (utf8_decode_replace raw) (Some ?rid) (Some (conn_id c))")
    case (Inl exc)
    then show ?thesis unfolding goal using r c(2) by (intro same) (auto simp: receive_line_def Let_def)
  next
    case (Inr q)
    note parsed = parsed_line_args [OF Inr]
    show ?thesis
    proof (cases "dispatch_pool fresh_id call q s")
      case Inl
      then show ?thesis unfolding goal using r c(2) Inr by (intro same) (auto simp: receive_line_def Let_def)
    next
      case D: (Inr y)
      then obtain route p where route: "route_request (srv_router s) q = Inr route"
        "pool_call fresh_id (route_worker_id route) call q (srv_pool s) = Inr p"
        "y = (route_worker_id route, s\<lparr>srv_pool := p\<rparr>)"
        by (auto simp: dispatch_pool_def split: sum.splits)
      then have s': "s' = s\<lparr>srv_pool := p\<rparr>" "conn_answered c' = conn_answered c"
        "conn_pending c' = Some (route_worker_id route, call, q)"
        using r D Inr by (auto simp: receive_line_def Let_def)
      have "single_key q" using one' by (simp add: one_client_def cs conn_requests_def s'(3))
      then have "\<exists>k. call_request q k" using parsed by (auto simp: call_request_def)
      then obtain k where k: "call_request q k" ..
      have len: "n + int (length (conn_requests c')) = n + int (length (conn_answered c)) + 1"
        by (simp add: conn_requests_def s')
      have "call_queued (srv_router s) (n + int (length (conn_requests c'))) m0 p (conn_answered c)
          (route_worker_id route, call, k) q"
        unfolding len using P k call route(2) by (rule call_from_idle)
      with k route(1) show ?thesis
        unfolding goal by (auto simp: client_inv_def conn_inv_def conn_phase_def s')
    qed
  qed
qed

lemma client_inv_answer:
  assumes one: "one_client n s" and I: "client_inv n m0 s" and i: "i < length (srv_connections s)"
    and c: "c = srv_connections s ! i" "conn_pending c = Some (wid, call, request)"
    and h: "map_of (pool_handles (srv_pool s)) wid = Some h" "(call, rid, response) \<in> set (handle_done h)"
    and r: "receive_answer request response duration c s = (c', s')"
  shows "client_inv n m0 (s'\<lparr>srv_connections := (srv_connections s)[i := c']\<rparr>)"
proof -
  have cs: "srv_connections s = [c]" "i = 0"
    using one_element [of "srv_connections s" i] one i c(1) by (simp_all add: one_client_def)
  let ?n = "n + int (length (conn_answered c)) + 1"
  obtain k where ph: "call_queued (srv_router s) ?n m0 (srv_pool s) (conn_answered c) (wid, call, k) request \<or>
      call_executed (srv_router s) ?n m0 (srv_pool s) (conn_answered c) (wid, call, k) request \<or>
      call_done (srv_router s) ?n m0 (srv_pool s) (conn_answered c) (wid, call, k) request"
    using I c(2) by (auto simp: client_inv_def conn_inv_def conn_phase_def conn_requests_def cs algebra_simps)
  have "call \<in> fst ` set (handle_done h)" using h(2) by force
  then have "call_done (srv_router s) ?n m0 (srv_pool s) (conn_answered c) (wid, call, k) request"
    using ph h(1) by (auto simp: call_queued_def call_executed_def pool_busy_def)
  then have D: "pool_idle ?n (srv_pool s)"
    "answered_to m0 (conn_answered c @ [(request, response)]) (pool_content (srv_router s) (srv_pool s))"
    using h by (auto simp: call_done_def)
  have "srv_router s' = srv_router s" "srv_pool s' = srv_pool s" "conn_pending c' = None"
    "conn_answered c' = conn_answered c @ [(request, response)]"
    using r by (auto simp: receive_answer_def Let_def split: prod.splits sum.splits)
  then show ?thesis
    using D by (simp add: client_inv_def conn_inv_def conn_phase_def conn_requests_def cs algebra_simps)
qed

lemma server_step_client:
  assumes S: "server_step U show_dict threads s s'" and one: "one_client n s" and I: "client_inv n m0 s"
    and one': "one_client n s'" and n: "n \<le> 10 ^ max_str_digits"
  shows "client_inv n m0 s'"
  using S
proof (cases rule: server_step.cases)
  case (connect peer)
  then have "srv_connections s = []" using one' by (simp add: one_client_def server_connect_def Let_def)
  then show ?thesis
    using I connect
    by (simp add: client_inv_def server_connect_def conn_inv_def conn_requests_def Let_def)
next
  case (line i c call fresh_id raw c' t)
  then show ?thesis using client_inv_line [OF one I line(2,3,5,6,7)] one' by simp
next
  case (answer i c wid call request h rid response duration c' t)
  then show ?thesis using client_inv_answer [OF one I answer(2-7)] by simp
next
  case (eof i c)
  have cs: "srv_connections s = [c]" "i = 0"
    using one_element [of "srv_connections s" i] one eof(2,3) by (simp_all add: one_client_def)
  then show ?thesis
    using I eof(1,4) by (simp add: client_inv_def conn_inv_def conn_requests_def)
next
  case (progress p)
  show ?thesis
  proof (cases "srv_connections s")
    case Nil
    then show ?thesis using phase_progress [OF _ progress(2) n] I progress(1) by (simp add: client_inv_def)
  next
    case (Cons c cs)
    then have "n + int (length (conn_requests c)) \<le> 10 ^ max_str_digits" using one by (simp add: one_client_def)
    from phase_progress [OF _ progress(2) this] I show ?thesis
      by (simp add: client_inv_def conn_inv_def Cons progress(1))
  qed
next
  case (background p)
  note B = phase_background [OF _ background(2)]
  show ?thesis
    using I B background(1) by (cases "srv_connections s") (simp_all add: client_inv_def conn_inv_def)
qed

text \<open>A connection only ever dispatches more.\<close>

lemma receive_line_requests:
  "receive_line U fresh_id call raw c s = (c', s') \<Longrightarrow> conn_pending c = None \<Longrightarrow>
     \<exists>qs. conn_requests c' = conn_requests c @ qs"
  by (auto simp: receive_line_def Let_def conn_requests_def write_response_def split: sum.splits)

lemma receive_answer_requests:
  "receive_answer q resp duration c s = (c', s') \<Longrightarrow> conn_pending c = Some (wid, call, q) \<Longrightarrow>
     conn_requests c' = conn_requests c"
  by (auto simp: receive_answer_def Let_def conn_requests_def write_response_def split: prod.splits sum.splits)

lemma one_client_before:
  assumes S: "server_step U show_dict threads s s'" and one: "one_client n s'"
  shows "one_client n s"
proof -
  have upd: "one_client n s" if o: "one_client n (t\<lparr>srv_connections := (srv_connections s)[i := c']\<rparr>)"
    and i: "i < length (srv_connections s)" and q: "\<exists>qs. conn_requests c' = conn_requests (srv_connections s ! i) @ qs"
    for i c' t
  proof -
    have "length (srv_connections s) \<le> 1" using o by (simp add: one_client_def)
    from one_element [OF this i] have cs: "srv_connections s = [srv_connections s ! i]" "i = 0" by blast+
    then obtain c where c: "srv_connections s = [c]" by blast
    then show ?thesis using o q cs(2) by (auto simp: one_client_def)
  qed
  from S show ?thesis
  proof (cases rule: server_step.cases)
    case (connect peer)
    then have "srv_connections s = []" using one by (simp add: one_client_def server_connect_def Let_def)
    then show ?thesis by (simp add: one_client_def)
  next
    case (line i c call fresh_id raw c' t)
    then show ?thesis using upd [where t = t and i = i and c' = c'] receive_line_requests [OF line(7,5)] one by simp
  next
    case (answer i c wid call request h rid response duration c' t)
    then show ?thesis using upd [where t = t and i = i and c' = c'] receive_answer_requests [OF answer(7,4)] one by simp
  next
    case (eof i c)
    then show ?thesis using upd [where t = s and i = i] one by (simp add: conn_requests_def)
  qed (use one in \<open>simp_all add: one_client_def\<close>)
qed

lemma reachable_client:
  assumes "(server_step U show_dict threads)\<^sup>*\<^sup>* s0 s" and "client_inv n m0 s0" and "n \<le> 10 ^ max_str_digits"
  shows "one_client n s \<longrightarrow> client_inv n m0 s"
  using assms
proof (induction rule: rtranclp_induct)
  case (step s s')
  then show ?case using one_client_before [OF step.hyps(2)] server_step_client [OF step.hyps(2)] by blast
qed simp

text \<open>The workers and the router stay the same ones.\<close>

lemma pool_keys:
  "pool_progress U show_dict threads p p' \<Longrightarrow> map fst (pool_handles p') = map fst (pool_handles p)"
  "pool_background U show_dict p p' \<Longrightarrow> map fst (pool_handles p') = map fst (pool_handles p)"
  "pool_call fresh_id wid call q p = Inr p' \<Longrightarrow> map fst (pool_handles p') = map fst (pool_handles p)"
  by (auto elim!: pool_progress.cases pool_background.cases
      simp: keys_update_present pool_call_def Let_def split: option.splits)

lemma server_keys:
  assumes "(server_step U show_dict threads)\<^sup>*\<^sup>* s0 s"
  shows "srv_router s = srv_router s0 \<and> map fst (pool_handles (srv_pool s)) = map fst (pool_handles (srv_pool s0))"
  using assms
proof (induction rule: rtranclp_induct)
  case (step s s')
  have "srv_router s' = srv_router s \<and> map fst (pool_handles (srv_pool s')) = map fst (pool_handles (srv_pool s))"
    using step.hyps(2)
    by (cases rule: server_step.cases)
      (auto simp: server_connect_def receive_line_def receive_answer_def dispatch_pool_def Let_def pool_keys
        split: sum.splits prod.splits)
  then show ?case using step.IH by simp
qed simp

section \<open>Starting\<close>

definition logs_ready ::
    "LiteStoreConfig \<Rightarrow> (pystr \<Rightarrow> pystr \<times> (nat \<Rightarrow> (nat \<times> pystr) option)) \<Rightarrow> int \<Rightarrow> bool" where
  "logs_ready config files n \<longleftrightarrow> (\<forall>wid \<in> set (pool_worker_ids (cfg_worker_count config)). \<exists>t k.
     files (path_str (aof_path_for_worker (py_path (cfg_aof_path config)) wid)) = (t, \<lambda>_. None) \<and>
     log_ready t k \<and> k \<le> n)"

lemma started_handles:
  assumes "PoolServer_init config = Inr s00"
  shows "map fst (pool_handles (srv_pool (pool_server_start U clocks files now s00))) =
      pool_worker_ids (cfg_worker_count config)"
    and "x \<in> set (pool_handles (srv_pool (pool_server_start U clocks files now s00))) \<Longrightarrow>
      \<exists>h. handle_worker_id h = fst x \<and> fst x \<in> set (pool_worker_ids (cfg_worker_count config)) \<and>
        handle_fresh h \<and> handle_alive h \<and> snd x = start_handle U clocks files now (srv_pool s00) h \<and>
        pool_aof_base_path (srv_pool s00) = py_path (cfg_aof_path config)"
proof -
  let ?h = "\<lambda>i. handle_init (no_process (pool_worker_id i) (int i)) 0 True"
  let ?is = "[0..<nat (cfg_worker_count config)]"
  have p: "pool_handles (srv_pool s00) = map (\<lambda>i. (pool_worker_id i, ?h i)) ?is"
    "pool_aof_base_path (srv_pool s00) = py_path (cfg_aof_path config)"
    using assms by (auto simp: PoolServer_init_def WorkerPool_init_def split: sum.splits)
  let ?start = "start_handle U clocks files now (srv_pool s00)"
  have s: "pool_handles (srv_pool (pool_server_start U clocks files now s00)) =
      map (\<lambda>i. (pool_worker_id i, ?start (?h i))) ?is"
    by (simp add: pool_server_start_def start_all_def p(1))
  show "map fst (pool_handles (srv_pool (pool_server_start U clocks files now s00))) =
      pool_worker_ids (cfg_worker_count config)"
    unfolding s by (simp add: pool_worker_ids_def comp_def)
  assume "x \<in> set (pool_handles (srv_pool (pool_server_start U clocks files now s00)))"
  then obtain i where i: "i \<in> set ?is" "x = (pool_worker_id i, ?start (?h i))" unfolding s by auto
  have "handle_worker_id (?h i) = fst x" "handle_fresh (?h i)" "handle_alive (?h i)"
    using i(2) by (simp_all add: no_process_def) (simp_all add: handle_init_def)
  moreover have "fst x \<in> set (pool_worker_ids (cfg_worker_count config))"
    using i by (auto simp: pool_worker_ids_def)
  ultimately show "\<exists>h. handle_worker_id h = fst x \<and> fst x \<in> set (pool_worker_ids (cfg_worker_count config)) \<and>
        handle_fresh h \<and> handle_alive h \<and> snd x = ?start h \<and>
        pool_aof_base_path (srv_pool s00) = py_path (cfg_aof_path config)"
    using i(2) p(2) by (metis snd_conv)
qed

lemma started_ready:
  assumes init: "PoolServer_init config = Inr s00" and logs: "logs_ready config files n"
    and x: "x \<in> set (pool_handles (srv_pool (pool_server_start U clocks files now s00)))"
  shows "quiet_handle n (snd x) \<and> handle_alive (snd x) \<and> (\<exists>t.
    files (path_str (aof_path_for_worker (py_path (cfg_aof_path config)) (fst x))) = (t, \<lambda>_. None) \<and>
    handle_content (snd x) = data_of_log (fst (replay_text t)) Map.empty)"
proof -
  obtain h where h: "handle_worker_id h = fst x" "fst x \<in> set (pool_worker_ids (cfg_worker_count config))"
    "handle_fresh h" "handle_alive h" "snd x = start_handle U clocks files now (srv_pool s00) h"
    "pool_aof_base_path (srv_pool s00) = py_path (cfg_aof_path config)"
    using started_handles(2) [OF init x] by blast
  obtain t k where t: "files (path_str (aof_path_for_worker (py_path (cfg_aof_path config)) (fst x))) = (t, \<lambda>_. None)"
    "log_ready t k" "k \<le> n" using logs h(2) unfolding logs_ready_def by blast
  have R: "handle_ready k (data_of_log (fst (replay_text t)) Map.empty) (snd x)" "handle_alive (snd x)"
    using start_handle_ready [of files "srv_pool s00" h t k U clocks now] h t path_ok_py_path by simp_all
  have "handle_ready n (data_of_log (fst (replay_text t)) Map.empty) (snd x)"
    using R(1) t(3) by (rule handle_ready_mono)
  moreover from this have "handle_content (snd x) = data_of_log (fst (replay_text t)) Map.empty"
    by (rule handle_ready_content)
  moreover have "handle_fresh (snd x)" using h(3,5) start_handle_fresh by simp
  ultimately show ?thesis using t(1) R(2) by (simp add: quiet_handle_def handle_fresh_def)
qed

lemma started_client:
  fixes U clocks now
  assumes init: "PoolServer_init config = Inr s00" and logs: "logs_ready config files n"
  defines "s0 \<equiv> pool_server_start U clocks files now s00"
  shows "client_inv n (pool_content (srv_router s0) (srv_pool s0)) s0"
proof -
  have "dict_ok (pool_handles (srv_pool s0))"
    using started_handles(1) [OF init] by (simp add: s0_def distinct_pool_worker_ids)
  moreover have "\<forall>x \<in> set (pool_handles (srv_pool s0)). quiet_handle n (snd x)"
    using started_ready [OF init logs, of _ U clocks now] unfolding s0_def by blast
  moreover have "pool_gets_running (srv_pool s0) = []" "pool_gets_queued (srv_pool s0) = []" "srv_connections s0 = []"
    using init by (auto simp: s0_def PoolServer_init_def pool_server_start_def start_all_def WorkerPool_init_def
        split: sum.splits)
  ultimately show ?thesis
    by (simp add: client_inv_def conn_phase_def pool_idle_def answered_to_def)
qed

lemma client_result:
  assumes init: "PoolServer_init config = Inr s00" and logs: "logs_ready config files n"
    and run: "(server_step U show_dict threads)\<^sup>*\<^sup>* (pool_server_start U clocks files now s00) s"
    and c: "srv_connections s = [c]" "\<forall>q \<in> set (conn_requests c). single_key q"
      "n + int (length (conn_requests c)) \<le> 10 ^ max_str_digits"
  defines "m0 \<equiv> pool_content (srv_router s00) (start_all U clocks files now (srv_pool s00))"
  shows "\<exists>k. conn_phase (srv_router s00) k m0 (srv_pool s) (conn_answered c) (conn_pending c)"
proof -
  have n: "n \<le> 10 ^ max_str_digits" using c(3) by linarith
  have "one_client n s" using c by (simp add: one_client_def)
  then have "client_inv n m0 s"
    using reachable_client [OF run _ n] started_client [OF init logs, of U clocks now]
    by (simp add: pool_server_start_def m0_def)
  moreover have "srv_router s = srv_router s00"
    using server_keys [OF run] by (simp add: pool_server_start_def)
  ultimately show ?thesis unfolding client_inv_def conn_inv_def c(1) by auto
qed

lemma finite_pool_calls: "finite (pool_calls p)"
  by (simp add: pool_calls_def handle_calls_def)

text \<open>
  A request that arrives when nothing else is on the way can be answered: there are steps, of the
  connection, a thread and the worker, that lead there.
\<close>

lemma dispatch_run:
  assumes I: "pool_idle n (srv_pool s)" and cs: "srv_connections s = [c]" "conn_open c" "conn_pending c = None"
    and parse: "parse_command U (utf8_decode_replace raw) (Some (conn_id c @ lit '':'' @ py_str_int (conn_request_index c + 1)))
      (Some (conn_id c)) = Inr q"
    and q: "call_request q i" and route: "route_request (srv_router s) q = Inr route"
    and h: "map_of (pool_handles (srv_pool s)) (route_worker_id route) = Some h"
  shows "\<exists>call h1 c1 p1. server_step U show_dict threads s (s\<lparr>srv_pool := p1, srv_connections := [c1]\<rparr>) \<and>
    conn_pending c1 = Some (route_worker_id route, call, q) \<and> conn_answered c1 = conn_answered c \<and>
    map_of (pool_handles p1) (route_worker_id route) = Some h1 \<and> handle_alive h1 = handle_alive h \<and>
    pool_busy n p1 (route_worker_id route, call, i) h1 \<and> pool_gets_running p1 = [] \<and>
    handle_requests h1 = [MsgRequest (to_worker_request [] q)] \<and> wp_responses (handle_process h1) = []"
proof -
  let ?wid = "route_worker_id route"
  obtain call where call: "call \<notin> pool_calls (srv_pool s)"
    using ex_new_if_finite [OF infinite_UNIV_nat finite_pool_calls] by blast
  define p1 where "p1 = (srv_pool s)\<lparr>pool_handles := AList.update ?wid (pool_send call (to_worker_request [] q) h)
    (pool_handles (srv_pool s)), pool_gets_queued := pool_gets_queued (srv_pool s) @ [(?wid, call, i)]\<rparr>"
  have pc: "pool_call [] ?wid call q (srv_pool s) = Inr p1"
    using h request_of_to_worker [OF q, of "[]"] by (simp add: pool_call_def p1_def)
  let ?c = "c\<lparr>conn_request_index := conn_request_index c + 1, conn_pending := Some (?wid, call, q)\<rparr>"
  have "receive_line U [] call raw c s = (?c, s\<lparr>srv_pool := p1\<rparr>)"
    using parse route pc by (simp add: receive_line_def dispatch_pool_def Let_def)
  then have "server_step U show_dict threads s (s\<lparr>srv_pool := p1\<rparr>\<lparr>srv_connections := (srv_connections s)[0 := ?c]\<rparr>)"
    by (intro server_step.line [OF _ _ cs(2,3) call]) (simp_all add: cs(1))
  then have "server_step U show_dict threads s (s\<lparr>srv_pool := p1, srv_connections := [?c]\<rparr>)" by (simp add: cs(1))
  moreover have "call_queued (srv_router s) (n + 1) (pool_content (srv_router s) (srv_pool s)) p1 [] (?wid, call, i) q"
    by (rule call_from_idle [OF I _ q call pc]) (simp add: answered_to_def)
  then obtain h1 fresh_id where B: "pool_busy n p1 (?wid, call, i) h1" "wp_responses (handle_process h1) = []"
    by (auto simp: call_queued_def)
  have h1: "h1 = pool_send call (to_worker_request [] q) h"
    using B(1) by (simp add: pool_busy_def p1_def AList.update_conv')
  have "quiet_handle n h" using I map_of_SomeD [OF h] by (auto simp: pool_idle_def)
  then have "handle_requests h1 = [MsgRequest (to_worker_request [] q)]" "handle_alive h1 = handle_alive h"
    by (simp_all add: h1 pool_send_def quiet_handle_def)
  moreover have "pool_gets_running p1 = []" using I by (simp add: p1_def pool_idle_def)
  moreover have "map_of (pool_handles p1) ?wid = Some h1" using B(1) by (simp add: pool_busy_def)
  ultimately show ?thesis using B by (intro exI [of _ call] exI [of _ h1] exI [of _ ?c] exI [of _ p1]) simp
qed

lemma executed_run:
  assumes B: "pool_busy n p (wid, call, i) h" "handle_requests h = [MsgRequest (to_worker_request [] q)]"
      "wp_responses (handle_process h) = []" "handle_alive h" "pool_gets_running p = []"
    and q: "call_request q i" and n: "n < 10 ^ max_str_digits" and t: "0 < threads"
  shows "\<exists>p' h' resp. (pool_progress U show_dict threads)\<^sup>*\<^sup>* p p' \<and>
    map_of (pool_handles p') wid = Some h' \<and> (call, i, resp) \<in> set (handle_done h')"
proof -
  let ?w = "to_worker_request [] q" and ?g = "(wid, call, i)"
  have m: "map_of (pool_handles p) wid = Some h" "pool_gets_queued p = [?g]"
    "handle_ready n (handle_content h) h" using B(1,5) by (simp_all add: pool_busy_def)
  define p1 where "p1 = p\<lparr>pool_gets_running := [?g], pool_gets_queued := []\<rparr>"
  have s1: "pool_progress U show_dict threads p p1"
    using pool_progress.take [of p ?g "[]" threads U show_dict] m(2) B(5) t by (simp add: p1_def)
  define h2 where "h2 = worker_turn U show_dict (Some (MsgRequest ?w)) 0 h"
  define p2 where "p2 = p1\<lparr>pool_handles := AList.update wid h2 (pool_handles p1)\<rparr>"
  have "turn_enabled (Some (MsgRequest ?w)) h" using B(2,4) m(3) by (simp add: turn_enabled_def handle_ready_def)
  then have s2: "pool_progress U show_dict threads p1 p2"
    using pool_progress.turn [of p1 wid h "MsgRequest ?w" U show_dict threads 0] m(1) by (simp add: p1_def p2_def h2_def)
  note Q = request_of_to_worker [OF q, of "[]"]
  have "data_command (request_of ?w)" "\<forall>x \<in> set (wreq_args ?w). scalar_text x"
    using q Q by (auto simp: call_request_def single_key_def data_command_def)
  from request_turn_ready [OF m(3) this n, of U show_dict 0] obtain x where
    x: "wp_responses (handle_process h2) = [x]" using B(3) by (auto simp: h2_def Let_def)
  define h3 where "h3 = pool_receive (call, i) x [] h2"
  define p3 where "p3 = p2\<lparr>pool_gets_running := remove1 ?g (pool_gets_running p2),
    pool_handles := AList.update wid h3 (pool_handles p2)\<rparr>"
  have "map_of (pool_handles p2) wid = Some h2" by (simp add: p2_def AList.update_conv')
  then have s3: "pool_progress U show_dict threads p2 p3"
    using pool_progress.answer [of wid "(call, i)" p2 h2 x "[]" U show_dict threads] x
    by (simp add: p3_def h3_def p2_def p1_def)
  have "(pool_progress U show_dict threads)\<^sup>*\<^sup>* p p1" using s1 by (rule r_into_rtranclp)
  then have "(pool_progress U show_dict threads)\<^sup>*\<^sup>* p p2" using s2 by (rule rtranclp.rtrancl_into_rtrancl)
  then have "(pool_progress U show_dict threads)\<^sup>*\<^sup>* p p3" using s3 by (rule rtranclp.rtrancl_into_rtrancl)
  moreover have "map_of (pool_handles p3) wid = Some h3" by (simp add: p3_def AList.update_conv')
  moreover have "(call, i, to_command_response x) \<in> set (handle_done h3)" by (simp add: h3_def pool_receive_def)
  ultimately show ?thesis by blast
qed

lemma server_progress_run:
  "(pool_progress U show_dict threads)\<^sup>*\<^sup>* p p' \<Longrightarrow> srv_pool s = p \<Longrightarrow>
     (server_step U show_dict threads)\<^sup>*\<^sup>* s (s\<lparr>srv_pool := p'\<rparr>)"
proof (induction rule: rtranclp_induct)
  case (step p1 p2)
  then have "server_step U show_dict threads (s\<lparr>srv_pool := p1\<rparr>) (s\<lparr>srv_pool := p2\<rparr>)"
    using server_step.progress [of U show_dict threads "s\<lparr>srv_pool := p1\<rparr>" p2] by simp
  then show ?case using step by (meson rtranclp.rtrancl_into_rtrancl)
qed (cases s, simp)

lemma request_answered:
  assumes I: "pool_idle n (srv_pool s)" and cs: "srv_connections s = [c]" "conn_open c" "conn_pending c = None"
    and parse: "parse_command U (utf8_decode_replace raw) (Some (conn_id c @ lit '':'' @ py_str_int (conn_request_index c + 1)))
      (Some (conn_id c)) = Inr q"
    and q: "call_request q i" and route: "route_request (srv_router s) q = Inr route"
    and h: "map_of (pool_handles (srv_pool s)) (route_worker_id route) = Some h" "handle_alive h"
    and n: "n < 10 ^ max_str_digits" and t: "0 < threads"
  shows "\<exists>s' c' resp. (server_step U show_dict threads)\<^sup>*\<^sup>* s s' \<and> srv_connections s' = [c'] \<and>
    conn_pending c' = None \<and> conn_answered c' = conn_answered c @ [(q, resp)]"
proof -
  let ?wid = "route_worker_id route"
  obtain call h1 c1 p1 where L: "server_step U show_dict threads s (s\<lparr>srv_pool := p1, srv_connections := [c1]\<rparr>)"
    "conn_pending c1 = Some (?wid, call, q)" "conn_answered c1 = conn_answered c"
    "handle_alive h1" "pool_busy n p1 (?wid, call, i) h1" "pool_gets_running p1 = []"
    "handle_requests h1 = [MsgRequest (to_worker_request [] q)]" "wp_responses (handle_process h1) = []"
    using dispatch_run [OF I cs parse q route h(1), of show_dict threads] h(2) by auto
  obtain p2 h2 resp where P: "(pool_progress U show_dict threads)\<^sup>*\<^sup>* p1 p2"
    "map_of (pool_handles p2) ?wid = Some h2" "(call, i, resp) \<in> set (handle_done h2)"
    using executed_run [OF L(5,7,8,4,6) q n t] by blast
  let ?s1 = "s\<lparr>srv_pool := p1, srv_connections := [c1]\<rparr>"
  let ?s = "?s1\<lparr>srv_pool := p2\<rparr>"
  have R: "(server_step U show_dict threads)\<^sup>*\<^sup>* ?s1 ?s"
    by (rule server_progress_run [OF P(1)]) simp
  obtain c2 t where r: "receive_answer q resp 0 c1 ?s = (c2, t)" by fastforce
  have "server_step U show_dict threads ?s (t\<lparr>srv_connections := (srv_connections ?s)[0 := c2]\<rparr>)"
    by (rule server_step.answer [OF _ _ _ _ P(3) r]) (use L(2) P(2) in simp_all)
  then have A: "server_step U show_dict threads ?s (t\<lparr>srv_connections := [c2]\<rparr>)" by simp
  note converse_rtranclp_into_rtranclp [OF L(1) rtranclp.rtrancl_into_rtrancl [OF R A]]
  moreover have "conn_pending c2 = None" "conn_answered c2 = conn_answered c @ [(q, resp)]"
    using r L(3) by (auto simp: receive_answer_def Let_def split: prod.splits sum.splits)
  ultimately show ?thesis by fastforce
qed

section \<open>Properties of the server with worker processes\<close>

text \<open>
  C4: with worker processes the server is a dictionary. Start it on logs of SET and DEL records and
  let one client send any lines, of which those that are requests are PING, SET, GET, DEL or TTL. In
  whatever order the workers, threads and the connection take their steps, and even if workers are
  killed, the responses that come back are those of one dictionary to the requests, in their order,
  beginning with what the logs hold; and when no answer is awaited the workers together hold
  that dictionary.
\<close>
theorem pool_server_refines_dictionary:
  assumes "PoolServer_init config = Inr s00" and "logs_ready config files n"
    and "(server_step U show_dict threads)\<^sup>*\<^sup>* (pool_server_start U clocks files now s00) s"
    and "srv_connections s = [c]" and "\<forall>q \<in> set (conn_requests c). single_key q"
    and "n + int (length (conn_requests c)) \<le> 10 ^ max_str_digits"
  shows "\<exists>m. dict_run fnmatch (map fst (conn_answered c))
      (pool_content (srv_router s00) (start_all U clocks files now (srv_pool s00))) (map snd (conn_answered c)) m \<and>
    (conn_pending c = None \<longrightarrow> pool_content (srv_router s) (srv_pool s) = m)"
proof -
  have r: "srv_router s = srv_router s00" using server_keys [OF assms(3)] by (simp add: pool_server_start_def)
  have app: "\<exists>m. answered_to m0 ans m" if "answered_to m0 (ans @ [x]) m1" for m0 ans x m1
    using that dict_run_prefix [of fnmatch "map fst ans" "fst x"] by (fastforce simp: answered_to_def)
  from client_result [OF assms] show ?thesis
    using app unfolding conn_phase_def r
    by (cases "conn_pending c") (auto simp: call_queued_def call_executed_def call_done_def answered_to_def)
qed

text \<open>A server with one worker, started on empty logs, and a client that has sent one SET.\<close>

definition demo_pool_config :: LiteStoreConfig where
  "demo_pool_config = default_config\<lparr>cfg_worker_count := 1\<rparr>"

definition demo_set :: CommandRequest where
  "demo_set = \<lparr>req_command = SET, req_args = [lit ''k'', lit ''v''], req_request_id = Some (lit ''connection:1:1''),
     req_client_id = Some (lit ''connection:1'')\<rparr>"

lemma demo_parse: "parse_command \<lparr>uni_upper = \<lambda>c. [c], uni_decimal = \<lambda>c. None\<rparr>
    (utf8_decode_replace [83, 69, 84, 32, 107, 32, 118, 10]) (Some (lit ''connection:1:1'')) (Some (lit ''connection:1'')) =
    Inr demo_set"
proof -
  let ?U = "\<lparr>uni_upper = \<lambda>c. [c], uni_decimal = \<lambda>c. None\<rparr>"
  have dec: "utf8_decode_replace [83, 69, 84, 32, 107, 32, 118, 10] =
      [] @ join_words [lit ''SET'', lit ''k'', lit ''v''] @ [10]"
    by (simp add: utf8_decode_replace_def utf8_codes.simps(2) utf8_lead_def)
  have "is_word (lit ''SET'')" "py_upper ?U (lit ''SET'') = CommandName_value SET"
    "args_ok SET [lit ''k'', lit ''v'']" "\<forall>x \<in> set ([] :: nat list). py_isspace x" "\<forall>x \<in> set [10]. py_isspace x"
    by (simp_all add: is_word_def is_trimmed_def args_ok_def py_upper_char_def py_isspace_def)
  from parse_command_line [OF this] show ?thesis unfolding dec demo_set_def .
qed

lemma demo_server:
  "\<exists>s00 s c resp. PoolServer_init demo_pool_config = Inr s00 \<and> logs_ready demo_pool_config (\<lambda>_. ([], \<lambda>_. None)) 0 \<and>
     (server_step \<lparr>uni_upper = \<lambda>c. [c], uni_decimal = \<lambda>c. None\<rparr> (\<lambda>_. []) 1)\<^sup>*\<^sup>*
       (pool_server_start \<lparr>uni_upper = \<lambda>c. [c], uni_decimal = \<lambda>c. None\<rparr> (\<lambda>_ n. of_nat n) (\<lambda>_. ([], \<lambda>_. None)) 0 s00) s \<and>
     srv_connections s = [c] \<and> conn_pending c = None \<and> conn_answered c = [(demo_set, resp)]"
proof -
  let ?U = "\<lparr>uni_upper = \<lambda>c. [c], uni_decimal = \<lambda>c. None\<rparr>" and ?files = "\<lambda>_ :: pystr. ([] :: pystr, \<lambda>_. None)"
  obtain s00 where init: "PoolServer_init demo_pool_config = Inr s00"
    by (simp add: PoolServer_init_def demo_pool_config_def default_config_def DeterministicHashRouter_init_def
        pool_worker_ids_def)
  have logs: "logs_ready demo_pool_config ?files 0"
    by (simp add: logs_ready_def log_ready_def at_line_end_def discover_next_sequence_def replay_text_def)
  let ?start = "pool_server_start ?U (\<lambda>_ n. of_nat n) ?files 0 s00"
  have r: "router_inv (srv_router s00)" "router_worker_ids (srv_router s00) = [lit ''w0'']" "srv_connections ?start = []"
    "srv_connection_sequence ?start = 0" "srv_router ?start = srv_router s00"
    using init router_init_inv
    by (auto simp: PoolServer_init_def demo_pool_config_def default_config_def pool_worker_ids_def pool_worker_id_def
        py_str_int_def nat_digits.simps pool_server_start_def split: sum.splits)
  have idle: "pool_idle 0 (srv_pool ?start)"
    using started_client [OF init logs, of ?U "\<lambda>_ n. of_nat n" 0] r(3) by (simp add: client_inv_def conn_phase_def)
  let ?conn = "server_connect None ?start" and ?c = "\<lparr>conn_id = lit ''connection:1'', conn_request_index = 0,
    conn_pending = None, conn_answered = [], conn_out = [], conn_open = True\<rparr>"
  have s: "srv_connections ?conn = [?c]" "srv_pool ?conn = srv_pool ?start" "srv_router ?conn = srv_router s00"
    using r by (simp_all add: server_connect_def connection_name_def py_str_int_def nat_digits.simps Let_def)
  have q: "call_request demo_set (lit ''connection:1:1'')"
    by (simp add: call_request_def demo_set_def single_key_def scalar_text_def)
  have "\<not> (\<exists>e. route_request (srv_router s00) demo_set = Inl e)"
    using router.route_error [OF r(1)] by (simp add: demo_set_def extract_key_from_request_def has_surrogate_def)
  then obtain route where route: "route_request (srv_router s00) demo_set = Inr route"
    by (cases "route_request (srv_router s00) demo_set") auto
  have wid: "route_worker_id route = lit ''w0''" using router.route_worker_mem [OF r(1) route] r(2) by simp
  have "fst ` set (pool_handles (srv_pool ?start)) = {lit ''w0''}"
    using arg_cong [OF started_handles(1) [OF init], of set ?U "\<lambda>_ n. of_nat n" ?files 0]
    by (simp add: demo_pool_config_def default_config_def pool_worker_ids_def pool_worker_id_def py_str_int_def
        nat_digits.simps)
  then have "lit ''w0'' \<in> fst ` set (pool_handles (srv_pool ?start))" by (simp only: insertI1)
  then obtain h where h: "map_of (pool_handles (srv_pool ?start)) (lit ''w0'') = Some h" using key_in_dict_iff by metis
  have "handle_alive h" using started_ready [OF init logs map_of_SomeD [OF h]] by simp
  then obtain s' c' resp where "(server_step ?U (\<lambda>_. []) 1)\<^sup>*\<^sup>* ?conn s'" "srv_connections s' = [c']"
    "conn_pending c' = None" "conn_answered c' = [(demo_set, resp)]"
    using request_answered [of 0 ?conn ?c ?U "[83, 69, 84, 32, 107, 32, 118, 10]" demo_set "lit ''connection:1:1''" route h 1
        "\<lambda>_. []"] idle s demo_parse q route wid h ten_le_max_digits
    by (auto simp: py_str_int_def nat_digits.simps)
  moreover have "server_step ?U (\<lambda>_. []) 1 ?start ?conn" by (rule server_step.connect)
  ultimately show ?thesis using init logs by (meson converse_rtranclp_into_rtranclp)
qed

theorem pool_server_refines_dictionary_witness:
  "\<exists>s00 s c resp m. PoolServer_init demo_pool_config = Inr s00 \<and> srv_connections s = [c] \<and>
     conn_answered c = [(demo_set, resp)] \<and>
     (server_step \<lparr>uni_upper = \<lambda>c. [c], uni_decimal = \<lambda>c. None\<rparr> (\<lambda>_. []) 1)\<^sup>*\<^sup>*
       (pool_server_start \<lparr>uni_upper = \<lambda>c. [c], uni_decimal = \<lambda>c. None\<rparr> (\<lambda>_ n. of_nat n) (\<lambda>_. ([], \<lambda>_. None)) 0 s00) s \<and>
     pool_content (srv_router s) (srv_pool s) = m \<and> m (lit ''k'') = Some (lit ''v'')"
proof -
  obtain s00 s c resp where D: "PoolServer_init demo_pool_config = Inr s00"
    "logs_ready demo_pool_config (\<lambda>_. ([], \<lambda>_. None)) 0"
    "(server_step \<lparr>uni_upper = \<lambda>c. [c], uni_decimal = \<lambda>c. None\<rparr> (\<lambda>_. []) 1)\<^sup>*\<^sup>*
       (pool_server_start \<lparr>uni_upper = \<lambda>c. [c], uni_decimal = \<lambda>c. None\<rparr> (\<lambda>_ n. of_nat n) (\<lambda>_. ([], \<lambda>_. None)) 0 s00) s"
    "srv_connections s = [c]" and c: "conn_pending c = None" "conn_answered c = [(demo_set, resp)]"
    using demo_server by blast
  have "conn_requests c = [demo_set]" using c by (simp add: conn_requests_def)
  then have "\<forall>q \<in> set (conn_requests c). single_key q" "0 + int (length (conn_requests c)) \<le> 10 ^ max_str_digits"
    using ten_le_max_digits by (simp_all add: demo_set_def single_key_def)
  from pool_server_refines_dictionary [OF D this] c
  have "pool_content (srv_router s) (srv_pool s) (lit ''k'') = Some (lit ''v'')"
    by (auto simp: dict_command_def demo_set_def Let_def)
  then show ?thesis using D c by blast
qed

lemma handle_ready_log:
  assumes "handle_ready k (handle_content h) h"
  shows "\<exists>a j. wp_persistence (handle_process h) = Some a \<and> log_ready (aof_text a) j \<and> j \<le> k \<and>
    data_of_log (fst (replay_text (aof_text a))) Map.empty = handle_content h"
proof -
  obtain a where a: "wp_persistence (handle_process h) = Some a" "aof_next_sequence a \<le> k"
    "worker_holds (handle_process h) (handle_content h)" using assms by (auto simp: handle_ready_def)
  then have "aof_ok a" "\<forall>r \<in> set (fst (aof_replay a)). data_command (rec_request r)"
    "data_of_log (fst (aof_replay a)) Map.empty = handle_content h"
    by (simp_all add: worker_holds_def)
  moreover from this have "aof_replay a = replay_text (aof_text a)" by (simp add: aof_replay_def aof_okD)
  ultimately show ?thesis using a(1,2) aof_okD [of a] by (auto simp: log_ready_def)
qed

lemma pool_content_cong:
  assumes keys: "map fst (pool_handles p') = map fst (pool_handles p)"
    and same: "\<And>wid h' h. map_of (pool_handles p') wid = Some h' \<Longrightarrow> map_of (pool_handles p) wid = Some h \<Longrightarrow>
      handle_content h' = handle_content h"
  shows "pool_content r p' = pool_content r p"
proof -
  have "map_option handle_content (map_of (pool_handles p') wid) = map_option handle_content (map_of (pool_handles p) wid)" for wid
  proof (cases "map_of (pool_handles p') wid")
    case None
    then have "map_of (pool_handles p) wid = None" using keys by (metis list.set_map map_of_eq_None_iff)
    then show ?thesis using None by simp
  next
    case (Some h')
    then have "wid \<in> fst ` set (pool_handles p)" using keys by (metis key_in_dict_iff list.set_map)
    then obtain h where "map_of (pool_handles p) wid = Some h" using key_in_dict_iff by metis
    then show ?thesis using Some same by simp
  qed
  then show ?thesis unfolding pool_content_def by presburger
qed

text \<open>
  C5: a restart keeps the data. Let the server with worker processes have run as above and no answer
  be awaited. If it is started again with the same configuration on the log files its workers leave,
  killed or not, the workers together hold the keys and values they held.
\<close>
theorem pool_server_restart_recovers:
  assumes "PoolServer_init config = Inr s00" and "logs_ready config files n"
    and "(server_step U show_dict threads)\<^sup>*\<^sup>* (pool_server_start U clocks files now s00) s"
    and "srv_connections s = [c]" and "\<forall>q \<in> set (conn_requests c). single_key q"
    and "n + int (length (conn_requests c)) \<le> 10 ^ max_str_digits" and "conn_pending c = None"
    and "\<forall>wid h a. map_of (pool_handles (srv_pool s)) wid = Some h \<longrightarrow> wp_persistence (handle_process h) = Some a \<longrightarrow>
      files' (path_str (aof_path_for_worker (py_path (cfg_aof_path config)) wid)) = (aof_text a, \<lambda>_. None)"
  shows "pool_content (srv_router s00) (start_all U' clocks' files' now' (srv_pool s00)) =
    pool_content (srv_router s) (srv_pool s)"
proof -
  have r: "srv_router s = srv_router s00" using server_keys [OF assms(3)] by (simp add: pool_server_start_def)
  obtain k where k: "pool_idle k (srv_pool s)"
    using client_result [OF assms(1-6)] assms(7) by (auto simp: conn_phase_def)
  then have d: "dict_ok (pool_handles (srv_pool s))" by (simp add: pool_idle_def)
  have keys: "map fst (pool_handles (srv_pool s)) = pool_worker_ids (cfg_worker_count config)"
    using server_keys [OF assms(3)] started_handles(1) [OF assms(1)] by simp
  have log: "\<exists>a j. wp_persistence (handle_process h) = Some a \<and> log_ready (aof_text a) j \<and> j \<le> k \<and>
      data_of_log (fst (replay_text (aof_text a))) Map.empty = handle_content h"
    if h: "map_of (pool_handles (srv_pool s)) wid = Some h" for wid h
    using k map_of_SomeD [OF h] handle_ready_log by (auto simp: pool_idle_def quiet_handle_def)
  have look: "\<exists>h. map_of (pool_handles (srv_pool s)) wid = Some h"
    if "wid \<in> set (pool_worker_ids (cfg_worker_count config))" for wid
  proof -
    have "wid \<in> fst ` set (pool_handles (srv_pool s))" using that keys by (metis set_map)
    then show ?thesis using key_in_dict_iff by metis
  qed
  have "logs_ready config files' k"
    unfolding logs_ready_def using look log assms(8) by blast
  note S = started_ready [OF assms(1) this, of _ U' clocks' now']
  let ?p = "start_all U' clocks' files' now' (srv_pool s00)"
  have keys': "map fst (pool_handles ?p) = pool_worker_ids (cfg_worker_count config)"
    using started_handles(1) [OF assms(1), of U' clocks' files' now'] by (simp add: pool_server_start_def)
  have "handle_content h' = handle_content h"
    if h': "map_of (pool_handles ?p) wid = Some h'" and h: "map_of (pool_handles (srv_pool s)) wid = Some h" for wid h' h
  proof -
    have x: "(wid, h') \<in> set (pool_handles (srv_pool (pool_server_start U' clocks' files' now' s00)))"
      using map_of_SomeD [OF h'] by (simp add: pool_server_start_def)
    obtain a where "wp_persistence (handle_process h) = Some a"
      "data_of_log (fst (replay_text (aof_text a))) Map.empty = handle_content h" using log [OF h] by blast
    then show ?thesis using S [OF x] assms(8) h by auto
  qed
  then show ?thesis using pool_content_cong [of ?p "srv_pool s"] keys keys' unfolding r by simp
qed

theorem pool_server_restart_recovers_witness:
  "\<exists>s00 s files'. PoolServer_init demo_pool_config = Inr s00 \<and>
     (server_step \<lparr>uni_upper = \<lambda>c. [c], uni_decimal = \<lambda>c. None\<rparr> (\<lambda>_. []) 1)\<^sup>*\<^sup>*
       (pool_server_start \<lparr>uni_upper = \<lambda>c. [c], uni_decimal = \<lambda>c. None\<rparr> (\<lambda>_ n. of_nat n) (\<lambda>_. ([], \<lambda>_. None)) 0 s00) s \<and>
     srv_connections s \<noteq> [] \<and>
     pool_content (srv_router s00) (start_all \<lparr>uni_upper = \<lambda>c. [c], uni_decimal = \<lambda>c. None\<rparr> (\<lambda>_ n. of_nat n) files' 7
       (srv_pool s00)) = pool_content (srv_router s) (srv_pool s)"
proof -
  let ?U = "\<lparr>uni_upper = \<lambda>c. [c], uni_decimal = \<lambda>c. None\<rparr>" and ?clocks = "\<lambda>_ :: pystr. \<lambda>n. of_nat n :: rat"
  obtain s00 s c resp where D: "PoolServer_init demo_pool_config = Inr s00"
    "logs_ready demo_pool_config (\<lambda>_. ([], \<lambda>_. None)) 0"
    "(server_step ?U (\<lambda>_. []) 1)\<^sup>*\<^sup>* (pool_server_start ?U ?clocks (\<lambda>_. ([], \<lambda>_. None)) 0 s00) s"
    "srv_connections s = [c]" and c: "conn_pending c = None" "conn_answered c = [(demo_set, resp)]"
    using demo_server by blast
  have "conn_requests c = [demo_set]" using c by (simp add: conn_requests_def)
  then have q: "\<forall>q \<in> set (conn_requests c). single_key q" "0 + int (length (conn_requests c)) \<le> 10 ^ max_str_digits"
    using ten_le_max_digits by (simp_all add: demo_set_def single_key_def)
  obtain x where x: "pool_handles (srv_pool s) = [x]"
    using arg_cong [OF conjunct2 [OF server_keys [OF D(3)]], of length] started_handles(1) [OF D(1), of ?U ?clocks _ 0]
    by (auto simp: demo_pool_config_def default_config_def pool_worker_ids_def length_Suc_conv)
  define files' where "files' = (\<lambda>_ :: pystr. (aof_text (the (wp_persistence (handle_process (snd x)))),
    \<lambda>_ :: nat. None :: (nat \<times> pystr) option))"
  have "\<forall>wid h a. map_of (pool_handles (srv_pool s)) wid = Some h \<longrightarrow> wp_persistence (handle_process h) = Some a \<longrightarrow>
      files' (path_str (aof_path_for_worker (py_path (cfg_aof_path demo_pool_config)) wid)) = (aof_text a, \<lambda>_. None)"
    by (auto simp: x files'_def split: if_splits)
  from pool_server_restart_recovers [OF D q c(1) this, where U' = ?U and clocks' = ?clocks and now' = 7] D
  show ?thesis by fastforce
qed

end
