(* ===== verification/Lifecycle.thy ===== *)
theory Lifecycle
  imports Server_Pool
begin

text \<open>
  The life of the runtime of src/src/server.py, from its construction to its end, in either mode:
  \<open>start\<close> with the workers, the two listening sockets and the task that refreshes the metrics, what
  happens while it serves, and \<open>close\<close>; and \<open>run_runtime\<close> of src/src/main.py around them.
\<close>

declare map_of_eq_Some_iff [simp del] Some_eq_map_of_iff [simp del] map_of_is_SomeI [simp del]

section \<open>The runtime with its sockets and its task\<close>

text \<open>
  In single-process mode the runtime has workers and a log, otherwise a pool; the metrics, the router
  and the connections are parts of either. A listening server is the list of its sockets' addresses.
  The refresh task sleeps until a time of the event loop's clock, or has ended with an exception.
\<close>

datatype runtime_body = SingleProcess Runtime | WorkerProcesses PoolServer

datatype refresh_task = Sleeping rat | RefreshFailed py_exn

type_synonym listener = "(pystr \<times> int) list"

record LiteStoreRuntime =
  ls_config :: LiteStoreConfig
  ls_body :: runtime_body
  ls_tcp_server :: "listener option"
  ls_metrics_server :: "listener option"
  ls_refresh_task :: "refresh_task option"

type_synonym file_system = "pystr \<Rightarrow> pystr \<times> (nat \<Rightarrow> (nat \<times> pystr) option)"

definition LiteStoreRuntime_init ::
    "LiteStoreConfig \<Rightarrow> (pystr \<Rightarrow> nat \<Rightarrow> rat) \<Rightarrow> file_system \<Rightarrow> py_exn + LiteStoreRuntime" where
  "LiteStoreRuntime_init config clocks files =
     map_sum id (\<lambda>body. \<lparr>ls_config = config, ls_body = body, ls_tcp_server = None,
         ls_metrics_server = None, ls_refresh_task = None\<rparr>)
       (if cfg_use_multiprocessing config then map_sum id WorkerProcesses (PoolServer_init config)
        else map_sum id SingleProcess
          (Runtime_init config clocks (files (path_str (py_path (cfg_aof_path config))))))"

definition bound_port :: "listener option \<Rightarrow> int" where
  "bound_port server = (case server of None \<Rightarrow> 0 | Some [] \<Rightarrow> 0 | Some (address # _) \<Rightarrow> snd address)"

definition runtime_port :: "LiteStoreRuntime \<Rightarrow> int" where
  "runtime_port rt = bound_port (ls_tcp_server rt)"

definition runtime_metrics_port :: "LiteStoreRuntime \<Rightarrow> int" where
  "runtime_metrics_port rt = bound_port (ls_metrics_server rt)"

section \<open>Start\<close>

text \<open>
  \<open>listen\<close> is the operating system's answer to \<open>start_server\<close>, for the first and for the second
  server: an exception, or the addresses of the sockets. The task that \<open>create_task\<close> makes begins by
  sleeping; \<open>now\<close> is the time when it does.
\<close>

definition start_body ::
    "unicode_db \<Rightarrow> (pystr \<Rightarrow> nat \<Rightarrow> rat) \<Rightarrow> file_system \<Rightarrow> rat \<Rightarrow> runtime_body \<Rightarrow> (py_exn + unit) \<times> runtime_body" where
  "start_body U clocks files now body =
     (case body of
        SingleProcess rt \<Rightarrow> map_prod id SingleProcess (runtime_start U rt)
      | WorkerProcesses s \<Rightarrow> (Inr (), WorkerProcesses (pool_server_start U clocks files now s)))"

definition ls_start ::
    "unicode_db \<Rightarrow> (pystr \<Rightarrow> nat \<Rightarrow> rat) \<Rightarrow> file_system \<Rightarrow> (nat \<Rightarrow> pystr \<Rightarrow> int \<Rightarrow> py_exn + listener) \<Rightarrow> rat \<Rightarrow>
     LiteStoreRuntime \<Rightarrow> (py_exn + unit) \<times> LiteStoreRuntime" where
  "ls_start U clocks files listen now rt =
     (let config = ls_config rt; (r, body) = start_body U clocks files now (ls_body rt);
          rt1 = rt\<lparr>ls_body := body\<rparr> in
      case r of
        Inl e \<Rightarrow> (Inl e, rt1)
      | Inr _ \<Rightarrow>
          (case listen 0 (cfg_host config) (cfg_port config) of
             Inl e \<Rightarrow> (Inl e, rt1)
           | Inr server \<Rightarrow>
               (let rt2 = rt1\<lparr>ls_tcp_server := Some server\<rparr> in
                case listen 1 (cfg_metrics_host config) (cfg_metrics_port config) of
                  Inl e \<Rightarrow> (Inl e, rt2)
                | Inr metrics_server \<Rightarrow>
                    (Inr (), rt2\<lparr>ls_metrics_server := Some metrics_server,
                       ls_refresh_task := Some (Sleeping (now + cfg_metrics_refresh_interval_seconds config))\<rparr>))))"

section \<open>Serving\<close>

text \<open>One round of the refresh task, after its sleep; an exception ends the task.\<close>

definition periodic_refresh :: "rat \<Rightarrow> LiteStoreRuntime \<Rightarrow> LiteStoreRuntime" where
  "periodic_refresh now rt =
     (let again = Sleeping (now + cfg_metrics_refresh_interval_seconds (ls_config rt)) in
      case ls_body rt of
        SingleProcess body \<Rightarrow>
          (let (r, body1) = refresh_metrics_snapshot body
           in rt\<lparr>ls_body := SingleProcess body1,
                 ls_refresh_task := Some (case r of Inl e \<Rightarrow> RefreshFailed e | Inr _ \<Rightarrow> again)\<rparr>)
      | WorkerProcesses s \<Rightarrow> rt\<lparr>ls_refresh_task := Some again\<rparr>)"

text \<open>
  The steps of the event loop. A command of the single-process runtime runs from its line to its
  response without giving up the loop; a request for the metrics changes nothing.
\<close>

inductive ls_step ::
    "unicode_db \<Rightarrow> ((pystr \<times> pystr) list \<Rightarrow> pystr) \<Rightarrow> nat \<Rightarrow> LiteStoreRuntime \<Rightarrow> LiteStoreRuntime \<Rightarrow> bool"
  for U show_dict threads where
  connect: "ls_body rt = SingleProcess body \<Longrightarrow> next_connection_id peer body = (name, body') \<Longrightarrow>
    ls_step U show_dict threads rt (rt\<lparr>ls_body := SingleProcess body'\<rparr>)"
| command: "ls_body rt = SingleProcess body \<Longrightarrow>
    process_command_bytes U raw connection_id request_id duration body = (r, body') \<Longrightarrow>
    ls_step U show_dict threads rt (rt\<lparr>ls_body := SingleProcess body'\<rparr>)"
| processes: "ls_body rt = WorkerProcesses s \<Longrightarrow> server_step U show_dict threads s s' \<Longrightarrow>
    ls_step U show_dict threads rt (rt\<lparr>ls_body := WorkerProcesses s'\<rparr>)"
| refresh: "ls_refresh_task rt = Some (Sleeping wake) \<Longrightarrow> wake \<le> now \<Longrightarrow>
    ls_step U show_dict threads rt (periodic_refresh now rt)"

section \<open>Close\<close>

text \<open>
  Cancelling a sleeping task ends it, while awaiting a task that has ended with an exception raises
  that exception. The listeners are closed and, once their connections are gone, forgotten. In the
  time between the request to shut down and the joins the worker processes go on.
\<close>

definition close_listeners :: "LiteStoreRuntime \<Rightarrow> LiteStoreRuntime" where
  "close_listeners rt = rt\<lparr>ls_refresh_task := None, ls_tcp_server := None, ls_metrics_server := None\<rparr>"

definition join_all :: "WorkerPool \<Rightarrow> WorkerPool" where
  "join_all p = p\<lparr>pool_handles := map (map_prod id join_handle) (pool_handles p)\<rparr>"

inductive ls_close ::
    "unicode_db \<Rightarrow> ((pystr \<times> pystr) list \<Rightarrow> pystr) \<Rightarrow> nat \<Rightarrow> LiteStoreRuntime \<Rightarrow> py_exn + unit \<Rightarrow>
     LiteStoreRuntime \<Rightarrow> bool"
  for U show_dict threads where
  task_failed: "ls_refresh_task rt = Some (RefreshFailed e) \<Longrightarrow> ls_close U show_dict threads rt (Inl e) rt"
| single: "\<nexists>e. ls_refresh_task rt = Some (RefreshFailed e) \<Longrightarrow> ls_body rt = SingleProcess body \<Longrightarrow>
    runtime_close body = (r, body') \<Longrightarrow>
    ls_close U show_dict threads rt r ((close_listeners rt)\<lparr>ls_body := SingleProcess body'\<rparr>)"
| processes: "\<nexists>e. ls_refresh_task rt = Some (RefreshFailed e) \<Longrightarrow> ls_body rt = WorkerProcesses s \<Longrightarrow>
    (\<lambda>p p'. pool_progress U show_dict threads p p' \<or> pool_background U show_dict p p')\<^sup>*\<^sup>*
      (srv_pool (pool_server_close s)) p \<Longrightarrow>
    ls_close U show_dict threads rt (Inr ())
      ((close_listeners rt)\<lparr>ls_body := WorkerProcesses (s\<lparr>srv_pool := join_all p\<rparr>)\<rparr>)"

text \<open>
  \<open>run_runtime\<close> waits for ever once it has started, so it ends when its task is cancelled, and then
  closes; but the start is not inside the \<open>try\<close>.
\<close>

inductive run_runtime ::
    "unicode_db \<Rightarrow> ((pystr \<times> pystr) list \<Rightarrow> pystr) \<Rightarrow> nat \<Rightarrow> (pystr \<Rightarrow> nat \<Rightarrow> rat) \<Rightarrow> file_system \<Rightarrow>
     (nat \<Rightarrow> pystr \<Rightarrow> int \<Rightarrow> py_exn + listener) \<Rightarrow> rat \<Rightarrow> LiteStoreRuntime \<Rightarrow> py_exn + unit \<Rightarrow> LiteStoreRuntime \<Rightarrow> bool"
  for U show_dict threads clocks files listen now where
  start_fails: "ls_start U clocks files listen now rt = (Inl e, rt1) \<Longrightarrow>
    run_runtime U show_dict threads clocks files listen now rt (Inl e) rt1"
| cancelled: "ls_start U clocks files listen now rt = (Inr u, rt1) \<Longrightarrow>
    (ls_step U show_dict threads)\<^sup>*\<^sup>* rt1 rt2 \<Longrightarrow> ls_close U show_dict threads rt2 r rt3 \<Longrightarrow>
    run_runtime U show_dict threads clocks files listen now rt r rt3"

inductive_cases run_runtimeE: "run_runtime U show_dict threads clocks files listen now rt r rt'"

text \<open>Nothing is left: no task, no listener, every worker has ended, and the log is closed with all its lines safe.\<close>

definition released :: "LiteStoreRuntime \<Rightarrow> bool" where
  "released rt \<longleftrightarrow> ls_refresh_task rt = None \<and> runtime_port rt = 0 \<and> runtime_metrics_port rt = 0 \<and>
     ls_tcp_server rt = None \<and> ls_metrics_server rt = None \<and>
     (case ls_body rt of
        SingleProcess body \<Rightarrow> (\<forall>x \<in> set (rt_workers body). \<not> worker_running (snd x)) \<and>
          aof_closed (rt_persistence body) \<and> aof_pending (rt_persistence body) = [] \<and>
          unsynced_lines (rt_persistence body) = 0
      | WorkerProcesses s \<Rightarrow> \<forall>x \<in> set (pool_handles (srv_pool s)). process_ended (snd x))"

section \<open>What the workers hold can be encoded\<close>

text \<open>A command puts only its own arguments into the store.\<close>

lemma content_expire_le:
  assumes "store_inv s" shows "content (snd (store_expire k n s)) \<subseteq>\<^sub>m content s"
proof -
  have "content (snd (store_delete k (swept s))) \<subseteq>\<^sub>m content (swept s)"
    using swept_sub(1) [OF swept_effect(1) [OF assms]] by (auto simp: content_delete map_le_def dom_def)
  then show ?thesis
    using swept_sub(1) [OF assms] by (auto simp: store_expire_eq Let_def intro: map_le_trans)
qed

lemma content_ttl_le:
  assumes "store_inv s" shows "content (snd (store_ttl k s)) \<subseteq>\<^sub>m content s"
proof -
  let ?s = "(swept s)\<lparr>clock_reads := Suc (clock_reads (swept s))\<rparr>"
  have "store_inv ?s" using swept_effect(1) [OF assms] by simp
  then have "content (snd (store_delete k ?s)) \<subseteq>\<^sub>m content (swept s)"
    using swept_sub(1) [of ?s] by (auto simp: content_delete map_le_def dom_def)
  then show ?thesis
    using swept_sub(1) [OF assms] by (auto simp: store_ttl_eq Let_def intro: map_le_trans split: option.splits)
qed

lemma clean_le: "clean m \<Longrightarrow> m' \<subseteq>\<^sub>m m \<Longrightarrow> clean m'"
  by (auto simp: clean_def map_le_def dom_def)

lemma clean_get_all:
  "store_inv s \<Longrightarrow> clean (content s) \<Longrightarrow> clean (content (snd (get_all memory_store_ops ks s)))"
proof (induction ks arbitrary: s)
  case (Cons k ks)
  have "clean (content (swept s))" using Cons.prems clean_le swept_sub(1) by blast
  then show ?case
    using Cons.IH [OF swept_effect(1) [OF Cons.prems(1)]] memory_store.get_eq [OF Cons.prems(1)]
    by (simp add: case_prod_beta Let_def)
qed simp

lemma execute_clean:
  assumes s: "store_inv s" and m: "clean (content s)" and args: "\<forall>x \<in> set (req_args r). \<not> has_surrogate x"
  shows "clean (content (snd (execute_command U memory_store_ops r s)))"
proof -
  have sw: "clean (content (swept s))" using m clean_le swept_sub(1) [OF s] by blast
  show ?thesis
  proof (cases r rule: execute_shape)
    case 1
    then show ?thesis using m execute_wrong_arity [of r U memory_store_ops s] by auto
  next
    case 2
    then show ?thesis using m by (simp add: execute_eqs)
  next
    case (3 k v)
    then show ?thesis using sw args memory_store.content_set [OF s] by (auto simp: execute_eqs clean_def)
  next
    case (4 k)
    have "clean (content (snd (store_ttl k s)))" using m clean_le content_ttl_le [OF s] by blast
    with 4 show ?thesis
      using sw memory_store.get_eq [OF s] memory_store.content_delete [OF s]
      by (auto simp: execute_eqs memory_store_ops_def clean_def split: if_splits)
  next
    case (5 k x)
    have "clean (content (snd (store_expire k n s)))" for n using m clean_le content_expire_le [OF s] by blast
    with 5 m show ?thesis by (cases "parse_ttl_seconds U x") (simp_all add: execute_eqs memory_store_ops_def)
  next
    case (6 k ks)
    then show ?thesis using clean_get_all [OF s m] by (simp add: execute_eqs del: get_all.simps)
  next
    case 7
    then show ?thesis using sw memory_store.keys_eq [OF s] by (simp add: execute_eqs)
  next
    case (8 p)
    then show ?thesis using sw memory_store.keys_eq [OF s] by (simp add: execute_eqs)
  next
    case 9
    then show ?thesis using memory_store.content_flush [OF s] by (simp add: execute_eqs clean_def)
  qed
qed

lemma worker_execute_clean:
  assumes "worker_inv w" and "clean (content (worker_store w))" and "\<forall>x \<in> set (req_args r). \<not> has_surrogate x"
  shows "clean (content (worker_store (snd (worker_execute U memory_store_ops r w))))"
proof (cases "worker_running w")
  case True
  have s: "store_inv (worker_store w)" using assms(1) by (simp add: worker_inv_def)
  have "snd (op_process_expirations memory_store_ops None (worker_store w)) = swept (worker_store w)"
    using memory_store.process_eq [OF s] .
  moreover have "clean (content (swept (worker_store w)))" using assms(2) clean_le swept_sub(1) [OF s] by blast
  ultimately show ?thesis
    using True execute_clean [OF swept_effect(1) [OF s] _ assms(3)] by (simp add: worker_execute_running Let_def)
qed (use assms(2) in \<open>simp add: worker_execute_stopped\<close>)

section \<open>The single-process runtime while it serves\<close>

text \<open>
  In order, every stored text with an encoding, the log as safe as its fsync policy promises.
\<close>

definition rt_sound :: "Runtime \<Rightarrow> bool" where
  "rt_sound rt \<longleftrightarrow> rt_live rt \<and> (\<forall>x \<in> set (rt_workers rt). clean (content (worker_store (snd x)))) \<and>
     durable (rt_persistence rt) \<and> aof_fsync_policy (rt_persistence rt) = EVERY_N"

lemma execute_routed_sound:
  assumes ok: "rt_sound rt" and args: "\<forall>x \<in> set (req_args r). \<not> has_surrogate x"
    and x: "execute_routed U r rt = (res, rt')"
  shows "rt_sound rt' \<and> rt_persistence rt' = rt_persistence rt"
proof -
  have live: "rt_live rt" using ok by (simp add: rt_sound_def)
  note L = execute_routed_live [OF live args x]
  have "clean (content (worker_store (snd y)))" if y: "y \<in> set (rt_workers rt')" for y
  proof -
    obtain wid w where w: "map_of (rt_workers rt) wid = Some w"
      "rt_workers rt' = AList.update wid (snd (worker_execute U memory_store_ops r w)) (rt_workers rt) \<or> rt' = rt"
      using x by (auto simp: execute_routed_def case_prod_beta split: sum.splits option.splits)
        (metis live rt_live_def args routed_worker)+
    have "worker_inv w" "clean (content (worker_store w))"
      using ok map_of_SomeD [OF w(1)] by (auto simp: rt_sound_def rt_live_def)
    from worker_execute_clean [OF this args, of U] w(2) y ok show ?thesis
      using set_update_subset by (fastforce simp: rt_sound_def)
  qed
  then show ?thesis using L ok by (simp add: rt_sound_def)
qed

lemma persist_write_sound:
  assumes ok: "rt_sound rt" and args: "\<forall>x \<in> set (req_args r). scalar_text x"
    and x: "persist_write r resp rt = (res, rt')"
  shows "rt_sound rt'"
proof -
  have a: "aof_ok (rt_persistence rt)" "aof_io_fault (rt_persistence rt) = (\<lambda>_. None)"
    using ok by (simp_all add: rt_sound_def rt_live_def)
  have d: "durable (rt_persistence rt)" using ok by (simp add: rt_sound_def)
  obtain r1 a1 where app: "append_request r (rt_persistence rt) = (r1, a1)" by fastforce
  have "rt' = rt \<or> rt' = rt\<lparr>rt_persistence := a1\<rparr>"
    using x app by (auto simp: persist_write_def split: if_splits sum.splits py_exn.splits)
  then show ?thesis
    using append_request_keeps [OF a(1) d args a(2) app] ok by (auto simp: rt_sound_def rt_live_def)
qed

lemma process_line_sound:
  assumes ok: "rt_sound rt" and x: "process_command_bytes U raw cid rid duration rt = (res, rt')"
  shows "rt_sound rt'"
proof (cases "parse_command U (utf8_decode_replace raw) (Some rid) (Some cid)")
  case (Inr r)
  have args: "\<forall>x \<in> set (req_args r). scalar_text x" using parsed_line_args [OF Inr] by simp
  then have "\<forall>x \<in> set (req_args r). \<not> has_surrogate x" using scalar_no_surrogate by blast
  note E = execute_routed_sound [OF ok this]
  obtain res0 rt0 where e: "execute_routed U r rt = (res0, rt0)" by fastforce
  obtain res1 rt1 where d: "dispatch_request U r rt = (res1, rt1)" by fastforce
  have "rt_sound rt0" using E [OF e] by blast
  then have s: "rt_sound rt1"
    using d e persist_write_sound [OF _ args, of rt0] by (cases res0) (auto simp: dispatch_request_def)
  then obtain m where "observe_command r duration (rt_metrics rt1) = (Inr (), m)" "rt_live (rt1\<lparr>rt_metrics := m\<rparr>)"
    using observe_command_live [OF _ args] unfolding rt_sound_def by blast
  then show ?thesis
    using x Inr d s by (cases res1) (auto simp: process_command_bytes_def rt_sound_def)
qed (use assms in \<open>simp add: process_command_bytes_def\<close>)

text \<open>The metrics refresh sweeps the stores; with texts that can be encoded it does not raise.\<close>

definition worker_sound :: "MemoryStore StoreWorker \<Rightarrow> bool" where
  "worker_sound w \<longleftrightarrow> worker_inv w \<and> worker_running w \<and> clean (content (worker_store w))"

lemma worker_snapshot_sound:
  assumes "worker_sound w"
  shows "worker_sound (snd (worker_snapshot memory_store_ops w)) \<and> clean_dict (fst (worker_snapshot memory_store_ops w))"
proof -
  have s: "store_inv (worker_store w)" and w: "worker_in_flight w = 0" "worker_running w"
    and m: "clean (content (worker_store w))" using assms by (simp_all add: worker_sound_def worker_inv_def)
  have sw: "store_inv (swept (worker_store w))" "clean (content (swept (worker_store w)))"
    using swept_effect(1) [OF s] m clean_le swept_sub(1) [OF s] by blast+
  then have "clean_dict (store_data (swept (worker_store w)))"
    using mem_dict_iff store_invD(1) [OF sw(1)] unfolding clean_dict_def clean_def by (metis prod.collapse)
  then show ?thesis
    using w sw by (simp add: worker_snapshot_def memory_store_ops_def store_snapshot_eq worker_sound_def worker_inv_def)
qed

lemma merge_snapshots_sound:
  "\<forall>x \<in> set ws. worker_sound (snd x) \<Longrightarrow> clean_dict agg \<Longrightarrow> merge_snapshots ws agg = (agg', ws') \<Longrightarrow>
     clean_dict agg' \<and> map fst ws' = map fst ws \<and> (\<forall>x \<in> set ws'. worker_sound (snd x))"
proof (induction ws arbitrary: agg agg' ws')
  case (Cons x ws)
  obtain d w where w: "worker_snapshot memory_store_ops (snd x) = (d, w)" by fastforce
  then have w': "worker_sound w" "clean_dict d" using worker_snapshot_sound [of "snd x"] Cons.prems(1) by auto
  let ?agg = "fold (\<lambda>(k, v). AList.update k v) d agg"
  obtain ws1 where m: "merge_snapshots ws ?agg = (agg', ws1)" "ws' = (fst x, w) # ws1"
    using Cons.prems(3) w by (simp add: Let_def split: prod.splits)
  have "clean_dict ?agg" using w'(2) Cons.prems(2) clean_dict_merge by blast
  from Cons.IH [OF _ this m(1)] Cons.prems(1) w'(1) m(2) show ?case by simp
qed simp

lemma rt_sound_workers:
  "rt_sound rt \<longleftrightarrow> rt_live rt \<and> (\<forall>x \<in> set (rt_workers rt). worker_sound (snd x)) \<and>
     durable (rt_persistence rt) \<and> aof_fsync_policy (rt_persistence rt) = EVERY_N"
  by (auto simp: rt_sound_def rt_live_def worker_sound_def)

lemma refresh_sound:
  assumes ok: "rt_sound rt" and x: "refresh_metrics_snapshot rt = (r, rt')"
  shows "r = Inr () \<and> rt_sound rt'"
proof (cases "rt_workers rt = []")
  case False
  obtain agg ws where m: "merge_snapshots (rt_workers rt) [] = (agg, ws)" by fastforce
  have "clean_dict []" by (simp add: clean_dict_def)
  from merge_snapshots_sound [OF _ this m] ok
  have M: "clean_dict agg" "map fst ws = map fst (rt_workers rt)" "\<forall>x \<in> set ws. worker_sound (snd x)"
    by (simp_all add: rt_sound_workers)
  obtain t where "prefix_totals agg [] = Inr t" using prefix_totals_clean [OF M(1)] by blast
  then have r: "r = Inr ()" "rt' = rt\<lparr>rt_workers := ws, rt_metrics := (rt_metrics rt)\<lparr>memory_by_prefix_bytes := t\<rparr>\<rparr>"
    using x m False by (simp_all add: refresh_metrics_snapshot_def observe_store_snapshot_def)
  with M ok show ?thesis by (auto simp: rt_sound_workers rt_live_def worker_sound_def)
qed (use assms in \<open>simp add: refresh_metrics_snapshot_def\<close>)

text \<open>A start on a log whose texts have an encoding, if it does not raise.\<close>

lemma replay_routed_sound:
  "rt_sound rt \<Longrightarrow> \<forall>q \<in> set rs. \<forall>x \<in> set (req_args (rec_request q)). \<not> has_surrogate x \<Longrightarrow>
     replay_routed U rs rt = (r, rt') \<Longrightarrow> rt_sound rt'"
proof (induction rs arbitrary: rt)
  case (Cons q rs)
  obtain r1 rt1 where x: "execute_routed U (rec_request q) rt = (r1, rt1)" by fastforce
  then have "rt_sound rt1" using execute_routed_sound [OF Cons.prems(1) _ x] Cons.prems(2) by simp
  with Cons x show ?case by (auto split: sum.splits)
qed simp

definition log_encodable :: "pystr \<Rightarrow> bool" where
  "log_encodable t \<longleftrightarrow> at_line_end t \<and>
     (\<forall>q \<in> set (fst (replay_text t)). \<forall>x \<in> set (req_args (rec_request q)). \<not> has_surrogate x)"

lemma init_durable: "AofPersistence_init t io EVERY_N 100 = Inr a \<Longrightarrow> durable a"
  by (auto simp: AofPersistence_init_def durable_def unsynced_lines_def split: sum.splits)

lemma init_sound:
  assumes init: "Runtime_init config clocks (t, \<lambda>_. None) = Inr rt" and t: "at_line_end t"
  shows "rt_sound (rt\<lparr>rt_workers := map (map_prod id worker_start) (rt_workers rt)\<rparr>) \<and>
    aof_replay (rt_persistence rt) = replay_text t"
proof -
  have "AofPersistence_init t (\<lambda>_. None) EVERY_N 100 = Inr (rt_persistence rt)"
    using init by (auto simp: Runtime_init_def Let_def split: sum.splits)
  note A = aof_init_ok [OF this t] and init_durable [OF this]
  moreover have "\<forall>x \<in> set (map (map_prod id worker_start) (rt_workers rt)). clean (content (worker_store (snd x)))"
    using init_workers(3) [OF init]
    by (fastforce simp: worker_start_def StoreWorker_init_def MemoryStore_init_def clean_def)
  ultimately show ?thesis
    using init_live [OF init t] by (simp add: rt_sound_def aof_replay_def)
qed

lemma start_sound:
  assumes init: "Runtime_init config clocks (t, \<lambda>_. None) = Inr rt" and t: "log_encodable t"
    and x: "runtime_start U rt = (Inr u, rt')"
  shows "rt_sound rt'"
proof -
  let ?rt = "rt\<lparr>rt_workers := map (map_prod id worker_start) (rt_workers rt)\<rparr>"
  have I: "rt_sound ?rt" "aof_replay (rt_persistence rt) = replay_text t"
    using init_sound [OF init] t by (simp_all add: log_encodable_def)
  obtain r1 rt1 where y: "replay_routed U (fst (replay_text t)) ?rt = (r1, rt1)" by fastforce
  have "rt_sound rt1" using replay_routed_sound [OF I(1) _ y] t by (simp add: log_encodable_def)
  moreover have "r1 = Inr ()" "refresh_metrics_snapshot rt1 = (Inr u, rt')"
    using x y I(2) by (simp_all add: runtime_start_def replay_persistence_def split: sum.splits option.splits)
  ultimately show ?thesis using refresh_sound by blast
qed

text \<open>Closing a runtime in order cannot fail and leaves nothing unsafe.\<close>

lemma close_sound:
  assumes ok: "rt_sound rt" and x: "runtime_close rt = (r, rt')"
  shows "r = Inr () \<and> (\<forall>x \<in> set (rt_workers rt'). \<not> worker_running (snd x)) \<and>
    aof_closed (rt_persistence rt') \<and> aof_pending (rt_persistence rt') = [] \<and> unsynced_lines (rt_persistence rt') = 0"
proof -
  let ?a = "rt_persistence rt"
  have a: "\<not> aof_closed ?a" "aof_pending ?a = []" "aof_io_fault ?a = (\<lambda>_. None)" "aof_fsync_policy ?a = EVERY_N"
    "int (unsynced_lines ?a) \<le> aof_writes_since_fsync ?a"
    using ok aof_okD [of ?a] by (simp_all add: rt_sound_def rt_live_def durable_def)
  then show ?thesis
    using x by (auto simp: runtime_close_def aof_close_def file_flush_def file_fsync_def file_close_def
        unsynced_lines_def worker_stop_def Let_def split: if_splits)
qed

section \<open>The whole life\<close>

definition ls_ok :: "LiteStoreRuntime \<Rightarrow> bool" where
  "ls_ok rt \<longleftrightarrow> (\<exists>wake. ls_refresh_task rt = Some (Sleeping wake)) \<and>
     (case ls_body rt of SingleProcess body \<Rightarrow> rt_sound body | WorkerProcesses s \<Rightarrow> True)"

lemma ls_step_ok:
  assumes "ls_step U show_dict threads rt rt'" and "ls_ok rt"
  shows "ls_ok rt'"
  using assms
proof (induction rule: ls_step.induct)
  case (connect rt body peer name body')
  then have "rt_sound body'" by (auto simp: next_connection_id_def Let_def ls_ok_def rt_sound_def rt_live_def)
  with connect show ?case by (simp add: ls_ok_def)
next
  case (command rt body raw connection_id request_id duration r body')
  then show ?case using process_line_sound by (fastforce simp: ls_ok_def)
next
  case (refresh rt wake now)
  show ?case
  proof (cases "ls_body rt")
    case (SingleProcess body)
    obtain r body' where x: "refresh_metrics_snapshot body = (r, body')" by fastforce
    have "rt_sound body" using refresh.prems SingleProcess by (simp add: ls_ok_def)
    from refresh_sound [OF this x] show ?thesis using SingleProcess x by (simp add: ls_ok_def periodic_refresh_def)
  qed (simp add: ls_ok_def periodic_refresh_def)
qed (simp add: ls_ok_def)

lemma ls_start_Inr:
  assumes "ls_start U clocks files listen now rt = (Inr u, rt')"
  shows "\<exists>body wake. start_body U clocks files now (ls_body rt) = (Inr (), body) \<and> ls_body rt' = body \<and>
    ls_refresh_task rt' = Some (Sleeping wake)"
  using assms by (auto simp: ls_start_def Let_def split: prod.splits sum.splits)

lemma ls_start_ok:
  assumes init: "LiteStoreRuntime_init config clocks files = Inr rt0"
    and log: "\<not> cfg_use_multiprocessing config \<longrightarrow>
      (\<exists>t. files (path_str (py_path (cfg_aof_path config))) = (t, \<lambda>_. None) \<and> log_encodable t)"
    and start: "ls_start U clocks files listen now rt0 = (Inr u, rt1)"
  shows "ls_ok rt1"
proof -
  obtain body wake where s: "start_body U clocks files now (ls_body rt0) = (Inr (), body)" "ls_body rt1 = body"
    "ls_refresh_task rt1 = Some (Sleeping wake)" using ls_start_Inr [OF start] by blast
  show ?thesis
  proof (cases "ls_body rt0")
    case (SingleProcess rt)
    then have "\<not> cfg_use_multiprocessing config"
      using init by (auto simp: LiteStoreRuntime_init_def map_sum_Inr_iff)
    then obtain t where "log_encodable t" "Runtime_init config clocks (t, \<lambda>_. None) = Inr rt"
      using init log SingleProcess by (auto simp: LiteStoreRuntime_init_def map_sum_Inr_iff)
    moreover obtain rt' where "runtime_start U rt = (Inr (), rt')" "body = SingleProcess rt'"
      using s(1) SingleProcess by (cases "runtime_start U rt") (auto simp: start_body_def)
    ultimately show ?thesis using s(2,3) start_sound by (simp add: ls_ok_def)
  next
    case (WorkerProcesses s')
    then show ?thesis using s by (auto simp: start_body_def ls_ok_def)
  qed
qed

lemma process_ended_join [simp]: "process_ended (join_handle h)"
  by (simp add: join_handle_def process_ended_def)

lemma ls_close_releases:
  assumes "ls_close U show_dict threads rt r rt'" and "ls_ok rt"
  shows "r = Inr () \<and> released rt'"
  using assms
proof (induction rule: ls_close.induct)
  case (single rt body r body')
  have "rt_sound body" using single by (simp add: ls_ok_def)
  from close_sound [OF this single(3)] show ?case
    by (simp add: released_def close_listeners_def runtime_port_def runtime_metrics_port_def bound_port_def)
qed (auto simp: ls_ok_def released_def close_listeners_def runtime_port_def runtime_metrics_port_def
      bound_port_def join_all_def)

text \<open>
  C8: what is started is released. Whatever the clients send and however often the metrics are
  refreshed, a runtime that has started and is then closed leaves no task, no listening socket and no
  running worker, and in single-process mode a closed log without a line that the last fsync did not
  cover; \<open>close\<close> does not raise. (It is the \<open>close\<close> that returns: from Python 3.12 on it first waits
  until the connections have ended.) The log of the single-process runtime has texts with an encoding
  before the start, and the operating system does not fail on it.
\<close>
theorem run_runtime_releases:
  assumes "LiteStoreRuntime_init config clocks files = Inr rt0"
    and "\<not> cfg_use_multiprocessing config \<longrightarrow>
      (\<exists>t. files (path_str (py_path (cfg_aof_path config))) = (t, \<lambda>_. None) \<and> log_encodable t)"
    and "ls_start U clocks files listen now rt0 = (Inr u, rt1)"
    and "run_runtime U show_dict threads clocks files listen now rt0 r rt"
  shows "r = Inr () \<and> released rt"
  using assms(4)
proof (cases rule: run_runtime.cases)
  case (cancelled u' rt1' rt2)
  have "ls_ok rt1'" using ls_start_ok [OF assms(1,2)] cancelled(1) by blast
  with cancelled(2) have "ls_ok rt2" by (induction rule: rtranclp_induct) (use ls_step_ok in blast)+
  with cancelled(3) show ?thesis by (rule ls_close_releases)
qed (use assms(3) in simp)

definition demo_listen :: "nat \<Rightarrow> pystr \<Rightarrow> int \<Rightarrow> py_exn + listener" where
  "demo_listen n host port = Inr [(host, port)]"

text \<open>A single-process runtime on an empty log that starts, refreshes its metrics once and is closed.\<close>

theorem run_runtime_releases_witness:
  "\<forall>U show_dict. \<exists>rt0 rt1 rt. LiteStoreRuntime_init (default_config\<lparr>cfg_use_multiprocessing := False\<rparr>)
       (\<lambda>_ n. of_nat n) (\<lambda>_. ([], \<lambda>_. None)) = Inr rt0 \<and>
     ls_start U (\<lambda>_ n. of_nat n) (\<lambda>_. ([], \<lambda>_. None)) demo_listen 0 rt0 = (Inr (), rt1) \<and>
     runtime_port rt1 = 6379 \<and>
     run_runtime U show_dict 4 (\<lambda>_ n. of_nat n) (\<lambda>_. ([], \<lambda>_. None)) demo_listen 0 rt0 (Inr ()) rt \<and> released rt"
proof (intro allI)
  fix U show_dict
  let ?config = "default_config\<lparr>cfg_use_multiprocessing := False\<rparr>" and ?clocks = "\<lambda>_ :: pystr. \<lambda>n. of_nat n :: rat"
    and ?files = "\<lambda>_ :: pystr. ([] :: pystr, \<lambda>_ :: nat. None :: (nat \<times> pystr) option)"
  obtain r0 where "Runtime_init default_config ?clocks ([], \<lambda>_. None) = Inr r0" using demo_runtime by blast
  then have r0: "Runtime_init ?config ?clocks ([], \<lambda>_. None) = Inr r0" by (simp add: Runtime_init_def)
  define rt0 where "rt0 = \<lparr>ls_config = ?config, ls_body = SingleProcess r0, ls_tcp_server = None,
      ls_metrics_server = None, ls_refresh_task = None\<rparr>"
  have init: "LiteStoreRuntime_init ?config ?clocks ?files = Inr rt0"
    using r0 by (simp add: LiteStoreRuntime_init_def rt0_def)
  have log: "log_encodable []" using empty_log(1) by (simp add: log_encodable_def replay_text_def)
  obtain r1 where r1: "runtime_start U r0 = (Inr (), r1)" using start_clean [OF r0 empty_log] by blast
  then have "\<exists>rt1. ls_start U ?clocks ?files demo_listen 0 rt0 = (Inr (), rt1) \<and> runtime_port rt1 = 6379"
    by (simp add: ls_start_def rt0_def start_body_def demo_listen_def Let_def default_config_def runtime_port_def bound_port_def)
  then obtain rt1 where rt1: "ls_start U ?clocks ?files demo_listen 0 rt0 = (Inr (), rt1)" "runtime_port rt1 = 6379" by blast
  have body: "ls_body rt1 = SingleProcess r1"
    using ls_start_Inr [OF rt1(1)] r1 by (auto simp: rt0_def start_body_def)
  obtain wake where "ls_refresh_task rt1 = Some (Sleeping wake)" using ls_start_Inr [OF rt1(1)] by blast
  then have step: "ls_step U show_dict 4 rt1 (periodic_refresh wake rt1)" by (rule ls_step.refresh) simp
  have "ls_ok (periodic_refresh wake rt1)"
    using ls_step_ok [OF step] ls_start_ok [OF init _ rt1(1)] log by blast
  then have "\<nexists>e. ls_refresh_task (periodic_refresh wake rt1) = Some (RefreshFailed e)" by (auto simp: ls_ok_def)
  moreover obtain r2 where "ls_body (periodic_refresh wake rt1) = SingleProcess r2"
    using body by (auto simp: periodic_refresh_def Let_def case_prod_beta)
  moreover obtain r r3 where "runtime_close r2 = (r, r3)" by fastforce
  ultimately obtain rt where "ls_close U show_dict 4 (periodic_refresh wake rt1) r rt"
    using ls_close.single by blast
  with rt1(1) step have run: "run_runtime U show_dict 4 ?clocks ?files demo_listen 0 rt0 r rt"
    using run_runtime.cancelled by blast
  have "r = Inr () \<and> released rt"
    by (rule run_runtime_releases [OF init _ rt1(1) run]) (use log in simp)
  with init rt1 run show "\<exists>rt0 rt1 rt. LiteStoreRuntime_init ?config ?clocks ?files = Inr rt0 \<and>
      ls_start U ?clocks ?files demo_listen 0 rt0 = (Inr (), rt1) \<and> runtime_port rt1 = 6379 \<and>
      run_runtime U show_dict 4 ?clocks ?files demo_listen 0 rt0 (Inr ()) rt \<and> released rt" by blast
qed

text \<open>
  C31: what is started before a failure is not released. When the metrics port cannot be bound, \<open>start\<close>
  raises outside the \<open>try\<close> of \<open>run_runtime\<close>, so that \<open>close\<close> is never called: the workers go on as
  started and the listener of the command port stays open.
\<close>
theorem failed_start_not_released:
  assumes "start_body U clocks files now (ls_body rt0) = (Inr u, body)"
    and "listen 0 (cfg_host (ls_config rt0)) (cfg_port (ls_config rt0)) = Inr server"
    and "listen 1 (cfg_metrics_host (ls_config rt0)) (cfg_metrics_port (ls_config rt0)) = Inl e"
    and "run_runtime U show_dict threads clocks files listen now rt0 r rt"
  shows "r = Inl e \<and> ls_body rt = body \<and> ls_tcp_server rt = Some server \<and> \<not> released rt"
proof -
  have "ls_start U clocks files listen now rt0 = (Inl e, rt0\<lparr>ls_body := body, ls_tcp_server := Some server\<rparr>)"
    using assms(1-3) by (simp add: ls_start_def Let_def)
  with assms(4) show ?thesis by (auto elim!: run_runtimeE simp: released_def)
qed

theorem failed_start_not_released_witness:
  "\<forall>U show_dict. \<exists>rt0 rt. LiteStoreRuntime_init default_config (\<lambda>_ n. of_nat n) (\<lambda>_. ([], \<lambda>_. None)) = Inr rt0 \<and>
     run_runtime U show_dict 4 (\<lambda>_ n. of_nat n) (\<lambda>_. ([], \<lambda>_. None))
       (\<lambda>n host port. if n = 0 then Inr [(host, port)] else Inl (OSError (lit ''address already in use''))) 0
       rt0 (Inl (OSError (lit ''address already in use''))) rt \<and>
     ls_tcp_server rt = Some [(lit ''127.0.0.1'', 6379)]"
proof (intro allI)
  fix U show_dict
  let ?clocks = "\<lambda>_ :: pystr. \<lambda>n. of_nat n :: rat" and ?err = "OSError (lit ''address already in use'')"
    and ?files = "\<lambda>_ :: pystr. ([] :: pystr, \<lambda>_ :: nat. None :: (nat \<times> pystr) option)"
  let ?listen = "\<lambda>n host port. if n = (0 :: nat) then Inr [(host, port)] else Inl ?err"
  have "pool_worker_ids 4 \<noteq> []" by (simp add: pool_worker_ids_def)
  then obtain s where s: "PoolServer_init default_config = Inr s"
    by (auto simp: PoolServer_init_def DeterministicHashRouter_init_def default_config_def)
  define rt0 where "rt0 = \<lparr>ls_config = default_config, ls_body = WorkerProcesses s, ls_tcp_server = None,
      ls_metrics_server = None, ls_refresh_task = None\<rparr>"
  have init: "LiteStoreRuntime_init default_config ?clocks ?files = Inr rt0"
    using s by (simp add: LiteStoreRuntime_init_def rt0_def) (simp add: default_config_def)
  have b: "start_body U ?clocks ?files 0 (ls_body rt0) =
      (Inr (), WorkerProcesses (pool_server_start U ?clocks ?files 0 s))"
    by (simp add: start_body_def rt0_def)
  then have "ls_start U ?clocks ?files ?listen 0 rt0 = (Inl ?err, rt0\<lparr>ls_body := WorkerProcesses (pool_server_start U ?clocks ?files 0 s),
      ls_tcp_server := Some [(lit ''127.0.0.1'', 6379)]\<rparr>)" (is "_ = (_, ?rt)")
    by (simp add: ls_start_def Let_def) (simp add: rt0_def default_config_def)
  then have run: "run_runtime U show_dict 4 ?clocks ?files ?listen 0 rt0 (Inl ?err) ?rt"
    by (rule run_runtime.start_fails)
  have c: "ls_config rt0 = default_config" by (simp add: rt0_def)
  have "ls_tcp_server ?rt = Some [(lit ''127.0.0.1'', 6379)]"
    using failed_start_not_released [where listen = ?listen and e = ?err and
      server = "[(cfg_host (ls_config rt0), cfg_port (ls_config rt0))]", OF b _ _ run]
    by (simp add: c)
  with init run show "\<exists>rt0 rt. LiteStoreRuntime_init default_config ?clocks ?files = Inr rt0 \<and>
      run_runtime U show_dict 4 ?clocks ?files ?listen 0 rt0 (Inl ?err) rt \<and>
      ls_tcp_server rt = Some [(lit ''127.0.0.1'', 6379)]" by blast
qed

end
