(* ===== verification/Argparse.thy ===== *)
theory Argparse
  imports Types Pystr
begin

text \<open>
  What src/src/main.py and the scripts use of Python's argparse: parsers that have options only,
  each of which stores a text, stores an integer or sets a flag. A word of the command line is an
  option when it is one of the option strings, one of them with a value after an equals sign, or an
  abbreviation of exactly one of them; the word after an option that takes a value is the value
  unless it looks like an option. Every refusal and \<open>--help\<close> raise \<open>SystemExit\<close>, which is
  \<open>None\<close> here. The rules are those of Python 3.14, which the README names.
\<close>

section \<open>Parsers\<close>

datatype arg_action = StoreText | StoreInt | StoreTrue | ShowHelp

datatype arg_value = ArgText pystr | ArgInt int | ArgFlag bool

type_synonym arg_parser = "(pystr \<times> arg_action) list"

type_synonym namespace = "(pystr \<times> arg_value) list"

text \<open>\<open>s.partition("=")\<close>, and \<open>s.startswith(p)\<close>.\<close>

definition partition_eq :: "pystr \<Rightarrow> pystr \<times> pystr option" where
  "partition_eq s = (takeWhile (\<lambda>c. c \<noteq> 61) s,
     if 61 \<in> set s then Some (tl (dropWhile (\<lambda>c. c \<noteq> 61) s)) else None)"

definition starts_with :: "pystr \<Rightarrow> pystr \<Rightarrow> bool" where
  "starts_with p s \<longleftrightarrow> take (length p) s = p"

text \<open>The options a word may abbreviate, each with the value the word carries for it.\<close>

definition option_tuples :: "arg_parser \<Rightarrow> pystr \<Rightarrow> (pystr \<times> arg_action \<times> pystr option) list" where
  "option_tuples P s =
     (if take 2 s = [45, 45] then
        (let (p, explicit) = partition_eq s
         in map (\<lambda>(opt, a). (opt, a, explicit)) (filter (\<lambda>(opt, a). starts_with p opt) P))
      else concat (map (\<lambda>(opt, a).
        if opt = take 2 s then [(opt, a, Some (drop 2 s))]
        else if starts_with s opt then [(opt, a, None)] else []) P))"

text \<open>A minus sign and a digit, or a minus sign, a point and a digit, at the start.\<close>

fun negative_number_like :: "unicode_db \<Rightarrow> pystr \<Rightarrow> bool" where
  "negative_number_like U (m # c # d # s) \<longleftrightarrow>
     m = 45 \<and> (digit_value U c \<noteq> None \<or> c = 46 \<and> digit_value U d \<noteq> None)"
| "negative_number_like U [m, c] \<longleftrightarrow> m = 45 \<and> digit_value U c \<noteq> None"
| "negative_number_like U s \<longleftrightarrow> False"

text \<open>
  \<open>None\<close> for a word that is no option; otherwise the options it may be, none of them for an unknown
  one. The word \<open>--\<close> abbreviates every option; like argparse, which treats it specially but has
  nothing to put behind it, the model refuses it in every position.
\<close>

definition parse_optional :: "unicode_db \<Rightarrow> arg_parser \<Rightarrow> pystr \<Rightarrow> (pystr \<times> arg_action \<times> pystr option) list option" where
  "parse_optional U P s =
     (if s = [] \<or> hd s \<noteq> 45 then None
      else case map_of P s of
        Some a \<Rightarrow> Some [(s, a, None)]
      | None \<Rightarrow>
          if length s = 1 then None
          else case (map_of P (fst (partition_eq s)), snd (partition_eq s)) of
            (Some a, Some v) \<Rightarrow> Some [(fst (partition_eq s), a, Some v)]
          | _ \<Rightarrow>
              if option_tuples P s \<noteq> [] then Some (option_tuples P s)
              else if negative_number_like U s \<or> 32 \<in> set s then None
              else Some [])"

text \<open>The conversion of a value; a \<open>ValueError\<close> of \<open>int\<close> is reported as a refusal.\<close>

definition store_value :: "unicode_db \<Rightarrow> arg_action \<Rightarrow> pystr \<Rightarrow> arg_value option" where
  "store_value U action s =
     (case action of
        StoreText \<Rightarrow> Some (ArgText s)
      | StoreInt \<Rightarrow> (case py_int U s of Inl e \<Rightarrow> None | Inr n \<Rightarrow> Some (ArgInt n))
      | _ \<Rightarrow> None)"

text \<open>One option and its value: the words behind them, and the namespace with the value.\<close>

definition take_option :: "unicode_db \<Rightarrow> arg_parser \<Rightarrow> pystr \<Rightarrow> pystr list \<Rightarrow> namespace \<Rightarrow> (pystr list \<times> namespace) option" where
  "take_option U P s rest ns =
     (case parse_optional U P s of
        Some [(opt, action, explicit)] \<Rightarrow>
          (if action = ShowHelp then None
           else if action = StoreTrue then
             (if explicit = None then Some (rest, AList.update opt (ArgFlag True) ns) else None)
           else case explicit of
             Some v \<Rightarrow> map_option (\<lambda>x. (rest, AList.update opt x ns)) (store_value U action v)
           | None \<Rightarrow>
               if rest = [] \<or> parse_optional U P (hd rest) \<noteq> None then None
               else map_option (\<lambda>x. (tl rest, AList.update opt x ns)) (store_value U action (hd rest)))
      | _ \<Rightarrow> None)"

lemma take_option_cases:
  assumes "take_option U P s rest ns = Some (rest', ns')"
  shows "\<exists>opt a e x. parse_optional U P s = Some [(opt, a, e)] \<and> ns' = AList.update opt x ns \<and>
    (rest' = rest \<or> rest' = tl rest) \<and>
    (a = StoreTrue \<and> x = ArgFlag True \<or> (\<exists>v. store_value U a v = Some x))"
  using assms unfolding take_option_def
  by (auto split: option.splits list.splits if_splits) blast+

lemma take_option_shorter: "take_option U P s rest ns = Some (rest', ns') \<Longrightarrow> length rest' \<le> length rest"
  by (drule take_option_cases) auto

function consume_args :: "unicode_db \<Rightarrow> arg_parser \<Rightarrow> pystr list \<Rightarrow> namespace \<Rightarrow> namespace option" where
  "consume_args U P [] ns = Some ns"
| "consume_args U P (s # rest) ns =
     (case take_option U P s rest ns of
        None \<Rightarrow> None
      | Some (rest', ns') \<Rightarrow> consume_args U P rest' ns')"
  by pat_completeness auto

termination
  by (relation "measure (\<lambda>(U, P, args, ns). length args)") (auto dest!: take_option_shorter)

text \<open>Reading the namespace. An option is stored under its option string, not under its attribute name.\<close>

definition arg_text :: "namespace \<Rightarrow> pystr \<Rightarrow> pystr" where
  "arg_text ns opt = (case map_of ns opt of Some (ArgText s) \<Rightarrow> s | _ \<Rightarrow> [])"

definition arg_int :: "namespace \<Rightarrow> pystr \<Rightarrow> int" where
  "arg_int ns opt = (case map_of ns opt of Some (ArgInt n) \<Rightarrow> n | _ \<Rightarrow> 0)"

definition arg_flag :: "namespace \<Rightarrow> pystr \<Rightarrow> bool" where
  "arg_flag ns opt = (case map_of ns opt of Some (ArgFlag b) \<Rightarrow> b | _ \<Rightarrow> False)"

definition help_options :: arg_parser where
  "help_options = [(lit ''-h'', ShowHelp), (lit ''--help'', ShowHelp)]"

section \<open>Options with their values\<close>

text \<open>The option strings of these parsers: two minus signs and no equals sign.\<close>

definition long_option :: "pystr \<Rightarrow> bool" where
  "long_option opt \<longleftrightarrow> take 2 opt = [45, 45] \<and> 61 \<notin> set opt"

lemma long_option_neq: "long_option opt \<Longrightarrow> opt \<noteq> [] \<and> hd opt = 45"
  by (cases opt) (auto simp: long_option_def)

lemma partition_eq_value: "61 \<notin> set opt \<Longrightarrow> partition_eq (opt @ 61 # v) = (opt, Some v)"
  by (auto simp: partition_eq_def takeWhile_append dropWhile_append)

lemma parse_optional_value:
  assumes "long_option opt" "map_of P opt = Some a" "\<forall>x \<in> set P. 61 \<notin> set (fst x)"
  shows "parse_optional U P (opt @ 61 # v) = Some [(opt, a, Some v)]"
proof -
  have "map_of P (opt @ 61 # v) = None"
    using assms(3) map_of_SomeD by (fastforce simp: map_of_eq_None_iff)
  moreover have "length (opt @ 61 # v) \<noteq> 1" using long_option_neq [OF assms(1)] by simp
  ultimately show ?thesis
    using assms long_option_neq [OF assms(1)]
    by (simp add: parse_optional_def partition_eq_value long_option_def hd_append)
qed

lemma parse_optional_flag:
  assumes "long_option opt" "map_of P opt = Some a"
  shows "parse_optional U P opt = Some [(opt, a, None)]"
  using assms long_option_neq [OF assms(1)] by (simp add: parse_optional_def)

text \<open>A value written after an equals sign is stored whatever it looks like.\<close>

lemma consume_value:
  assumes "long_option opt" "map_of P opt = Some a" "\<forall>x \<in> set P. 61 \<notin> set (fst x)"
    and "store_value U a v = Some x"
  shows "consume_args U P ((opt @ 61 # v) # rest) ns = consume_args U P rest (AList.update opt x ns)"
  using assms(4) parse_optional_value [OF assms(1-3), of U v]
  by (cases a) (simp_all add: store_value_def take_option_def)

lemma consume_flag:
  assumes "long_option opt" "map_of P opt = Some StoreTrue"
  shows "consume_args U P (opt # rest) ns = consume_args U P rest (AList.update opt (ArgFlag True) ns)"
  using parse_optional_flag [OF assms] by (simp add: take_option_def)

text \<open>What the actions store is of their kind, so that reading the namespace never misses.\<close>

definition value_of_kind :: "arg_action \<Rightarrow> arg_value \<Rightarrow> bool" where
  "value_of_kind a x = (case (a, x) of
     (StoreText, ArgText _) \<Rightarrow> True | (StoreInt, ArgInt _) \<Rightarrow> True | (StoreTrue, ArgFlag _) \<Rightarrow> True | _ \<Rightarrow> False)"

definition namespace_ok :: "arg_parser \<Rightarrow> namespace \<Rightarrow> bool" where
  "namespace_ok P ns \<longleftrightarrow> (\<forall>(opt, a) \<in> set P. a \<noteq> ShowHelp \<longrightarrow>
     (\<exists>x. map_of ns opt = Some x \<and> value_of_kind a x))"

lemma store_value_kind: "store_value U a s = Some x \<Longrightarrow> value_of_kind a x"
  by (auto simp: store_value_def value_of_kind_def split: arg_action.splits sum.splits)

lemma namespace_ok_update:
  assumes "namespace_ok P ns" "distinct (map fst P)" "(opt, a) \<in> set P" "value_of_kind a x"
  shows "namespace_ok P (AList.update opt x ns)"
proof -
  have "b = a" if "(opt, b) \<in> set P" for b using assms(2,3) that by (metis map_of_is_SomeI option.inject)
  then show ?thesis using assms(1,4) by (auto simp: namespace_ok_def AList.update_conv')
qed

lemma partition_eq_mem: "map_of P s = Some a \<Longrightarrow> (s, a) \<in> set P"
  by (rule map_of_SomeD)

lemma parse_optional_mem: "parse_optional U P s = Some [(opt, a, e)] \<Longrightarrow> (opt, a) \<in> set P"
proof -
  have tuples: "(opt, a) \<in> set P" if "option_tuples P s = [(opt, a, e)]"
  proof -
    have "(opt, a, e) \<in> set (option_tuples P s)" using that by simp
    then show ?thesis by (auto simp: option_tuples_def Let_def case_prod_beta split: if_splits)
  qed
  show "parse_optional U P s = Some [(opt, a, e)] \<Longrightarrow> (opt, a) \<in> set P"
    using tuples partition_eq_mem [of P]
    by (auto simp: parse_optional_def split: if_splits option.splits)
qed

lemma consume_args_ok:
  assumes "distinct (map fst P)"
  shows "consume_args U P args ns = Some ns' \<Longrightarrow> namespace_ok P ns \<Longrightarrow> namespace_ok P ns'"
  using assms
proof (induction U P args ns rule: consume_args.induct)
  case (2 U P s rest ns)
  then obtain rest1 ns1 where one: "take_option U P s rest ns = Some (rest1, ns1)" "consume_args U P rest1 ns1 = Some ns'"
    by (auto split: option.splits)
  from take_option_cases [OF one(1)] obtain opt a e x where
    "parse_optional U P s = Some [(opt, a, e)]" "ns1 = AList.update opt x ns" "value_of_kind a x"
    using store_value_kind by (fastforce simp: value_of_kind_def)
  then have "namespace_ok P ns1"
    using namespace_ok_update [OF "2.prems"(2,3)] parse_optional_mem by blast
  with "2.IH" [OF one(1) refl one(2)] "2.prems"(3) show ?case by simp
qed simp

end
