(* ===== verification/Entry_Point.thy ===== *)
theory Entry_Point
  imports Lifecycle Argparse
begin

text \<open>
  The entry point, src/src/main.py: the command line, the configuration made of it, and the run of the
  runtime until it is interrupted.
\<close>

section \<open>The command line\<close>

definition server_parser :: arg_parser where
  "server_parser = help_options @
     [(lit ''--host'', StoreText), (lit ''--port'', StoreInt),
      (lit ''--metrics-host'', StoreText), (lit ''--metrics-port'', StoreInt),
      (lit ''--workers'', StoreInt), (lit ''--aof-path'', StoreText),
      (lit ''--no-multiprocessing'', StoreTrue)]"

definition server_defaults :: namespace where
  "server_defaults =
     [(lit ''--host'', ArgText (lit ''127.0.0.1'')), (lit ''--port'', ArgInt 6379),
      (lit ''--metrics-host'', ArgText (lit ''127.0.0.1'')), (lit ''--metrics-port'', ArgInt 9100),
      (lit ''--workers'', ArgInt 4), (lit ''--aof-path'', ArgText (lit ''data/litestore.aof'')),
      (lit ''--no-multiprocessing'', ArgFlag False)]"

definition parse_args :: "unicode_db \<Rightarrow> pystr list \<Rightarrow> namespace option" where
  "parse_args U argv = consume_args U server_parser argv server_defaults"

text \<open>The configuration; the refresh interval keeps its default.\<close>

definition config_of_args :: "namespace \<Rightarrow> LiteStoreConfig" where
  "config_of_args args =
     default_config\<lparr>cfg_host := arg_text args (lit ''--host''), cfg_port := arg_int args (lit ''--port''),
       cfg_metrics_host := arg_text args (lit ''--metrics-host''),
       cfg_metrics_port := arg_int args (lit ''--metrics-port''),
       cfg_worker_count := arg_int args (lit ''--workers''),
       cfg_aof_path := path_str (py_path (arg_text args (lit ''--aof-path''))),
       cfg_use_multiprocessing := \<not> arg_flag args (lit ''--no-multiprocessing'')\<rparr>"

definition main_config :: "unicode_db \<Rightarrow> pystr list \<Rightarrow> LiteStoreConfig option" where
  "main_config U argv = map_option config_of_args (parse_args U argv)"

section \<open>The run\<close>

text \<open>
  The program ends by \<open>SystemExit\<close> of the parser, by an exception of the construction or the run, or,
  when it was interrupted and closing raised nothing, normally.
\<close>

datatype main_outcome = SystemExit | Unhandled py_exn | Ended

inductive main_run ::
    "unicode_db \<Rightarrow> ((pystr \<times> pystr) list \<Rightarrow> pystr) \<Rightarrow> nat \<Rightarrow> (pystr \<Rightarrow> nat \<Rightarrow> rat) \<Rightarrow> file_system \<Rightarrow>
     (nat \<Rightarrow> pystr \<Rightarrow> int \<Rightarrow> py_exn + listener) \<Rightarrow> rat \<Rightarrow> pystr list \<Rightarrow> main_outcome \<Rightarrow> bool"
  for U show_dict threads clocks files listen now where
  refused: "main_config U argv = None \<Longrightarrow> main_run U show_dict threads clocks files listen now argv SystemExit"
| no_runtime: "main_config U argv = Some config \<Longrightarrow> LiteStoreRuntime_init config clocks files = Inl e \<Longrightarrow>
    main_run U show_dict threads clocks files listen now argv (Unhandled e)"
| raised: "main_config U argv = Some config \<Longrightarrow> LiteStoreRuntime_init config clocks files = Inr rt0 \<Longrightarrow>
    run_runtime U show_dict threads clocks files listen now rt0 (Inl e) rt \<Longrightarrow>
    main_run U show_dict threads clocks files listen now argv (Unhandled e)"
| interrupted: "main_config U argv = Some config \<Longrightarrow> LiteStoreRuntime_init config clocks files = Inr rt0 \<Longrightarrow>
    run_runtime U show_dict threads clocks files listen now rt0 (Inr u) rt \<Longrightarrow>
    main_run U show_dict threads clocks files listen now argv Ended"

section \<open>Every configuration can be asked for\<close>

text \<open>The command line of a configuration.\<close>

definition with_value :: "string \<Rightarrow> pystr \<Rightarrow> pystr" where
  "with_value opt v = lit opt @ 61 # v"

definition command_line :: "LiteStoreConfig \<Rightarrow> pystr list" where
  "command_line c =
     [with_value ''--host'' (cfg_host c), with_value ''--port'' (py_str_int (cfg_port c)),
      with_value ''--metrics-host'' (cfg_metrics_host c),
      with_value ''--metrics-port'' (py_str_int (cfg_metrics_port c)),
      with_value ''--workers'' (py_str_int (cfg_worker_count c)),
      with_value ''--aof-path'' (cfg_aof_path c)] @
     (if cfg_use_multiprocessing c then [] else [lit ''--no-multiprocessing''])"

lemma lit_inject: "lit s = lit t \<longleftrightarrow> s = t"
  by (simp add: lit_def inj_map_eq_map inj_def)

text \<open>The text of a number has at most as many digits as the interpreter reads and prints.\<close>

definition short_int :: "int \<Rightarrow> bool" where
  "short_int n \<longleftrightarrow> \<bar>n\<bar> < 10 ^ max_str_digits"

lemma py_int_short: "short_int n \<Longrightarrow> py_int U (py_str_int n) = Inr n"
  using py_int_small [of n max_str_digits U] max_str_digits_pos by (simp add: short_int_def)

lemma server_parser_plain: "\<forall>x \<in> set server_parser. 61 \<notin> set (fst x)"
  by (simp add: server_parser_def help_options_def)

lemma consume_server_value:
  assumes "map_of server_parser (lit opt) = Some a" "long_option (lit opt)" "store_value U a v = Some x"
  shows "consume_args U server_parser (with_value opt v # rest) ns =
    consume_args U server_parser rest (AList.update (lit opt) x ns)"
  unfolding with_value_def by (rule consume_value [OF assms(2,1) server_parser_plain assms(3)])

lemma server_options:
  "map_of server_parser (lit ''--host'') = Some StoreText" "map_of server_parser (lit ''--port'') = Some StoreInt"
  "map_of server_parser (lit ''--metrics-host'') = Some StoreText"
  "map_of server_parser (lit ''--metrics-port'') = Some StoreInt"
  "map_of server_parser (lit ''--workers'') = Some StoreInt"
  "map_of server_parser (lit ''--aof-path'') = Some StoreText"
  "map_of server_parser (lit ''--no-multiprocessing'') = Some StoreTrue"
  by (simp_all add: server_parser_def help_options_def)

lemma server_options_long:
  "long_option (lit ''--host'')" "long_option (lit ''--port'')" "long_option (lit ''--metrics-host'')"
  "long_option (lit ''--metrics-port'')" "long_option (lit ''--workers'')" "long_option (lit ''--aof-path'')"
  "long_option (lit ''--no-multiprocessing'')"
  by (simp_all add: long_option_def)

lemma store_values:
  "store_value U StoreText s = Some (ArgText s)"
  "short_int n \<Longrightarrow> store_value U StoreInt (py_str_int n) = Some (ArgInt n)"
  by (simp_all add: store_value_def py_int_short)

lemma main_no_args: "main_config U [] = Some default_config"
  by (simp add: main_config_def parse_args_def server_defaults_def config_of_args_def default_config_def
      arg_text_def arg_int_def arg_flag_def py_path_def path_str_def)

text \<open>
  C15: every configuration can be asked for on the command line. Whatever the host names and the path
  (even texts that look like options), the options with their values after equals signs are read back as
  the configuration they were made of; without any option the configuration is the one of
  \<open>LiteStoreConfig()\<close>. The numbers have at most 4300 digits, the path is written as \<open>Path\<close>
  prints it, and the refresh interval is the one that main.py cannot change.
\<close>
theorem main_config_roundtrip:
  assumes "short_int (cfg_port c)" "short_int (cfg_metrics_port c)" "short_int (cfg_worker_count c)"
    and "path_str (py_path (cfg_aof_path c)) = cfg_aof_path c"
    and "cfg_metrics_refresh_interval_seconds c = 5"
  shows "main_config U (command_line c) = Some c \<and> main_config U [] = Some default_config"
proof -
  let ?ns = "[(lit ''--host'', ArgText (cfg_host c)), (lit ''--port'', ArgInt (cfg_port c)),
      (lit ''--metrics-host'', ArgText (cfg_metrics_host c)), (lit ''--metrics-port'', ArgInt (cfg_metrics_port c)),
      (lit ''--workers'', ArgInt (cfg_worker_count c)), (lit ''--aof-path'', ArgText (cfg_aof_path c)),
      (lit ''--no-multiprocessing'', ArgFlag (\<not> cfg_use_multiprocessing c))]"
  have "parse_args U (command_line c) = Some ?ns"
    unfolding parse_args_def command_line_def server_defaults_def
    by (cases "cfg_use_multiprocessing c")
      (simp_all add: consume_server_value consume_flag server_options server_options_long store_values assms
        lit_inject del: lit_Cons consume_args.simps(2))
  moreover have "config_of_args ?ns = c"
    using assms(4,5) by (cases c) (simp add: config_of_args_def arg_text_def arg_int_def arg_flag_def
      default_config_def lit_inject del: lit_Cons)
  ultimately show ?thesis using main_no_args unfolding main_config_def by simp
qed

theorem main_config_roundtrip_witness:
  "\<forall>U. main_config U (command_line (default_config\<lparr>cfg_host := lit ''--port'', cfg_port := 0,
      cfg_use_multiprocessing := False\<rparr>)) =
     Some (default_config\<lparr>cfg_host := lit ''--port'', cfg_port := 0, cfg_use_multiprocessing := False\<rparr>)"
proof
  fix U
  let ?c = "default_config\<lparr>cfg_host := lit ''--port'', cfg_port := 0, cfg_use_multiprocessing := False\<rparr>"
  have "(10 :: int) ^ 4 \<le> 10 ^ max_str_digits" by (rule power_increasing) (simp_all add: max_str_digits_def)
  then have "short_int n" if "\<bar>n\<bar> < 10 ^ 4" for n using that unfolding short_int_def by (rule order_less_le_trans [rotated])
  then have "short_int (cfg_port ?c)" "short_int (cfg_metrics_port ?c)" "short_int (cfg_worker_count ?c)"
    by (simp_all add: default_config_def)
  moreover have "path_str (py_path (cfg_aof_path ?c)) = cfg_aof_path ?c"
    by (simp add: default_config_def py_path_def path_str_def)
  moreover have "cfg_metrics_refresh_interval_seconds ?c = 5" by (simp add: default_config_def)
  ultimately show "main_config U (command_line ?c) = Some ?c"
    by (rule conjunct1 [OF main_config_roundtrip])
qed

text \<open>
  A server needs a worker. With less than one worker the construction of the router raises
  \<open>ValueError\<close>, in either mode: the program ends with it before anything is started.
\<close>
theorem main_without_workers:
  assumes "main_config U argv = Some config" and "cfg_worker_count config < 1"
    and "main_run U show_dict threads clocks files listen now argv outcome"
  shows "outcome = Unhandled ValueError"
proof -
  have "pool_worker_ids (cfg_worker_count config) = []" using assms(2) by (simp add: pool_worker_ids_def)
  then have "LiteStoreRuntime_init config clocks files = Inl ValueError"
    by (simp add: LiteStoreRuntime_init_def PoolServer_init_def Runtime_init_def DeterministicHashRouter_init_def)
  with assms(1,3) show ?thesis by (auto elim: main_run.cases)
qed

theorem main_without_workers_witness:
  "\<forall>U show_dict. main_config U [lit ''--workers=0''] = Some (default_config\<lparr>cfg_worker_count := 0\<rparr>) \<and>
     (\<exists>outcome. main_run U show_dict 4 (\<lambda>_ n. of_nat n) (\<lambda>_. ([], \<lambda>_. None)) demo_listen 0
        [lit ''--workers=0''] outcome \<and> outcome = Unhandled ValueError)"
proof (intro allI)
  fix U show_dict
  let ?argv = "[lit ''--workers=0'']" and ?config = "default_config\<lparr>cfg_worker_count := 0\<rparr>"
  have "short_int 0" by (simp add: short_int_def)
  then have "parse_args U [with_value ''--workers'' (py_str_int 0)] =
      Some (AList.update (lit ''--workers'') (ArgInt 0) server_defaults)"
    by (simp add: parse_args_def consume_server_value server_options server_options_long store_values
        del: lit_Cons consume_args.simps(2))
  moreover have "[with_value ''--workers'' (py_str_int 0)] = ?argv"
    by (simp add: with_value_def py_str_int_def nat_digits.simps)
  moreover have "config_of_args (AList.update (lit ''--workers'') (ArgInt 0) server_defaults) = ?config"
    by (simp add: server_defaults_def config_of_args_def default_config_def arg_text_def arg_int_def arg_flag_def
        py_path_def path_str_def)
  ultimately have main: "main_config U ?argv = Some ?config" unfolding main_config_def by simp
  let ?run = "main_run U show_dict 4 (\<lambda>_ n. of_nat n) (\<lambda>_. ([], \<lambda>_. None)) demo_listen 0 ?argv"
  have "LiteStoreRuntime_init ?config (\<lambda>_ n. of_nat n) (\<lambda>_. ([], \<lambda>_. None)) = Inl ValueError"
    by (simp add: LiteStoreRuntime_init_def PoolServer_init_def DeterministicHashRouter_init_def pool_worker_ids_def
        default_config_def)
  then have run: "?run (Unhandled ValueError)" using main by (rule main_run.no_runtime [rotated])
  have "cfg_worker_count ?config < 1" by simp
  from main_without_workers [OF main this run] main run
  show "main_config U ?argv = Some ?config \<and> (\<exists>outcome. ?run outcome \<and> outcome = Unhandled ValueError)" by blast
qed

end
