(* ===== verification/Benchmark.thy ===== *)
theory Benchmark
  imports Server
begin

text \<open>
  The measuring scripts, src/scripts/benchmark.py and benchmark_compare.py: the workload, the loops
  that execute and time it, and the statistics. \<open>clock n\<close> is what the n-th call of
  \<open>perf_counter\<close> returns; printing a float with a number of decimals is the parameter
  \<open>show_fixed\<close>. The multiprocessing run of the comparison goes through the worker pool and is in
  theory Benchmark_Pool.
\<close>

section \<open>Workload and statistics\<close>

record BenchmarkResult =
  bench_name :: pystr
  bench_operations :: nat
  bench_elapsed_seconds :: rat
  bench_throughput :: rat
  bench_average_ms :: rat
  bench_p50_ms :: rat
  bench_p95_ms :: rat

record ComparisonResult =
  mode :: pystr
  cmp_operations :: nat
  cmp_elapsed_seconds :: rat
  cmp_throughput :: rat
  cmp_average_ms :: rat
  cmp_p50_ms :: rat
  cmp_p95_ms :: rat

definition bench_key :: "nat \<Rightarrow> pystr" where
  "bench_key index = lit ''bench:'' @ py_str_int (int index)"

definition bench_value :: "nat \<Rightarrow> pystr" where
  "bench_value index = lit ''value-'' @ py_str_int (int index)"

definition build_workload :: "int \<Rightarrow> CommandRequest list" where
  "build_workload key_count = concat (map (\<lambda>index.
     [mk_request SET [bench_key index, bench_value index],
      mk_request GET [bench_key index],
      mk_request DEL [bench_key index]]) [0..<nat key_count])"

text \<open>The workload of the comparison carries request ids.\<close>

definition build_compare_workload :: "int \<Rightarrow> CommandRequest list" where
  "build_compare_workload key_count = concat (map (\<lambda>index. let n = py_str_int (int index) in
     [(mk_request SET [bench_key index, bench_value index])\<lparr>req_request_id := Some (lit ''r-set-'' @ n)\<rparr>,
      (mk_request GET [bench_key index])\<lparr>req_request_id := Some (lit ''r-get-'' @ n)\<rparr>,
      (mk_request DEL [bench_key index])\<lparr>req_request_id := Some (lit ''r-del-'' @ n)\<rparr>]) [0..<nat key_count])"

text \<open>\<open>xs[i]\<close>, where a negative index counts from the end.\<close>

definition py_nth :: "'a list \<Rightarrow> int \<Rightarrow> py_exn + 'a" where
  "py_nth xs i =
     (if 0 \<le> i \<and> i < int (length xs) then Inr (xs ! nat i)
      else if i < 0 \<and> - int (length xs) \<le> i then Inr (xs ! nat (int (length xs) + i))
      else Inl IndexError)"

definition percentile :: "rat list \<Rightarrow> int \<Rightarrow> py_exn + rat" where
  "percentile values p =
     (let ordered = sort values in
      if ordered = [] then Inr 0
      else let rank = of_int (int (length ordered) - 1) * (of_int p / 100);
               lower = py_trunc rank;
               upper = min (lower + 1) (int (length ordered) - 1);
               weight = rank - of_int lower
           in (case (py_nth ordered lower, py_nth ordered upper) of
                 (Inr a, Inr b) \<Rightarrow> Inr (a * (1 - weight) + b * weight)
               | _ \<Rightarrow> Inl IndexError))"

text \<open>\<open>statistics.fmean\<close>; of no data it raises \<open>StatisticsError\<close>, a \<open>ValueError\<close>.\<close>

definition fmean :: "rat list \<Rightarrow> py_exn + rat" where
  "fmean xs = (if xs = [] then Inl ValueError else Inr (sum_list xs / of_nat (length xs)))"

text \<open>The statistics of a run: average, median and 95th percentile.\<close>

definition latency_statistics :: "rat list \<Rightarrow> py_exn + rat \<times> rat \<times> rat" where
  "latency_statistics latencies_ms =
     (case (fmean latencies_ms, percentile latencies_ms 50, percentile latencies_ms 95) of
        (Inr avg, Inr p50, Inr p95) \<Rightarrow> Inr (avg, p50, p95)
      | (Inl e, _, _) \<Rightarrow> Inl e
      | (_, Inl e, _) \<Rightarrow> Inl e
      | (_, _, Inl e) \<Rightarrow> Inl e)"

definition throughput :: "CommandRequest list \<Rightarrow> rat \<Rightarrow> rat" where
  "throughput workload elapsed = (if elapsed > 0 then of_nat (length workload) / elapsed else 0)"

definition benchmark_result :: "CommandRequest list \<Rightarrow> rat list \<Rightarrow> rat \<Rightarrow> py_exn + BenchmarkResult" where
  "benchmark_result workload latencies_ms elapsed =
     map_sum id (\<lambda>(avg, p50, p95).
       \<lparr>bench_name = lit ''single-store-command-layer'', bench_operations = length workload,
        bench_elapsed_seconds = elapsed, bench_throughput = throughput workload elapsed,
        bench_average_ms = avg, bench_p50_ms = p50, bench_p95_ms = p95\<rparr>) (latency_statistics latencies_ms)"

definition build_result :: "pystr \<Rightarrow> CommandRequest list \<Rightarrow> rat list \<Rightarrow> rat \<Rightarrow> py_exn + ComparisonResult" where
  "build_result name workload latencies_ms elapsed =
     map_sum id (\<lambda>(avg, p50, p95).
       \<lparr>mode = name, cmp_operations = length workload, cmp_elapsed_seconds = elapsed,
        cmp_throughput = throughput workload elapsed, cmp_average_ms = avg, cmp_p50_ms = p50,
        cmp_p95_ms = p95\<rparr>) (latency_statistics latencies_ms)"

fun py_join :: "pystr \<Rightarrow> pystr list \<Rightarrow> pystr" where
  "py_join sep [] = []"
| "py_join sep [x] = x"
| "py_join sep (x # xs) = x @ sep @ py_join sep xs"

text \<open>The two tables: of one result, and of a list of results.\<close>

definition table_head :: "pystr \<Rightarrow> pystr list" where
  "table_head first_column =
     [lit ''| '' @ first_column @ lit '' | operations | elapsed_s | throughput_ops_s | avg_ms | p50_ms | p95_ms |'',
      lit ''| --- | ---: | ---: | ---: | ---: | ---: | ---: |'']"

definition render_table :: "(nat \<Rightarrow> rat \<Rightarrow> pystr) \<Rightarrow> BenchmarkResult \<Rightarrow> pystr" where
  "render_table show_fixed r = py_join [10] (table_head (lit ''workload'') @
     [lit ''| '' @ bench_name r @ lit '' | '' @ py_str_int (int (bench_operations r)) @ lit '' | '' @
      show_fixed 4 (bench_elapsed_seconds r) @ lit '' | '' @ show_fixed 2 (bench_throughput r) @ lit '' | '' @
      show_fixed 4 (bench_average_ms r) @ lit '' | '' @ show_fixed 4 (bench_p50_ms r) @ lit '' | '' @
      show_fixed 4 (bench_p95_ms r) @ lit '' |''])"

definition render_comparison :: "(nat \<Rightarrow> rat \<Rightarrow> pystr) \<Rightarrow> ComparisonResult list \<Rightarrow> pystr" where
  "render_comparison show_fixed results = py_join [10] (table_head (lit ''mode'') @
     map (\<lambda>r. lit ''| '' @ mode r @ lit '' | '' @ py_str_int (int (cmp_operations r)) @ lit '' | '' @
      show_fixed 4 (cmp_elapsed_seconds r) @ lit '' | '' @ show_fixed 2 (cmp_throughput r) @ lit '' | '' @
      show_fixed 4 (cmp_average_ms r) @ lit '' | '' @ show_fixed 4 (cmp_p50_ms r) @ lit '' | '' @
      show_fixed 4 (cmp_p95_ms r) @ lit '' |'') results)"

section \<open>The runs\<close>

text \<open>
  Executing a workload with a clock reading before and after each request; \<open>n\<close> counts the readings.
\<close>

primrec run_timed ::
    "(CommandRequest \<Rightarrow> 's \<Rightarrow> (py_exn + CommandResponse) \<times> 's) \<Rightarrow> (nat \<Rightarrow> rat) \<Rightarrow> CommandRequest list \<Rightarrow>
     nat \<Rightarrow> 's \<Rightarrow> (py_exn + rat list) \<times> 's" where
  "run_timed exec clock [] n s = (Inr [], s)"
| "run_timed exec clock (q # qs) n s =
     (case exec q s of
        (Inl e, s1) \<Rightarrow> (Inl e, s1)
      | (Inr _, s1) \<Rightarrow>
          (case run_timed exec clock qs (n + 2) s1 of
             (Inl e, s2) \<Rightarrow> (Inl e, s2)
           | (Inr ls, s2) \<Rightarrow> (Inr ((clock (Suc n) - clock n) * 1000 # ls), s2)))"

text \<open>\<open>result\<close> makes the result of the workload, the latencies and the elapsed time.\<close>

definition run_workload ::
    "(CommandRequest \<Rightarrow> 's \<Rightarrow> (py_exn + CommandResponse) \<times> 's) \<Rightarrow>
     (CommandRequest list \<Rightarrow> rat list \<Rightarrow> rat \<Rightarrow> py_exn + 'r) \<Rightarrow> (nat \<Rightarrow> rat) \<Rightarrow>
     CommandRequest list \<Rightarrow> 's \<Rightarrow> py_exn + 'r" where
  "run_workload exec result clock workload s =
     (case fst (run_timed exec clock workload 1 s) of
        Inl e \<Rightarrow> Inl e
      | Inr latencies_ms \<Rightarrow>
          result workload latencies_ms (clock (2 * length workload + 1) - clock 0))"

definition run_benchmark ::
    "unicode_db \<Rightarrow> (nat \<Rightarrow> rat) \<Rightarrow> (nat \<Rightarrow> rat) \<Rightarrow> int \<Rightarrow> py_exn + BenchmarkResult" where
  "run_benchmark U time_clock clock key_count =
     run_workload (execute_command U memory_store_ops) benchmark_result clock
       (build_workload key_count) (MemoryStore_init time_clock None)"

definition run_single_store ::
    "unicode_db \<Rightarrow> (nat \<Rightarrow> rat) \<Rightarrow> (nat \<Rightarrow> rat) \<Rightarrow> int \<Rightarrow> py_exn + ComparisonResult" where
  "run_single_store U time_clock clock key_count =
     run_workload (execute_command U memory_store_ops) (build_result (lit ''single-store'')) clock
       (build_compare_workload key_count) (MemoryStore_init time_clock None)"

text \<open>One request of the sharded run: through the router to a worker.\<close>

definition execute_sharded ::
    "unicode_db \<Rightarrow> DeterministicHashRouter \<Rightarrow> CommandRequest \<Rightarrow> (pystr \<times> MemoryStore StoreWorker) list \<Rightarrow>
     (py_exn + CommandResponse) \<times> (pystr \<times> MemoryStore StoreWorker) list" where
  "execute_sharded U router request workers =
     (case route_request router request of
        Inl e \<Rightarrow> (Inl e, workers)
      | Inr route \<Rightarrow>
          (case map_of workers (route_worker_id route) of
             None \<Rightarrow> (Inl KeyError, workers)
           | Some worker \<Rightarrow>
               (let (result, worker1) = worker_execute U memory_store_ops request worker
                in (result, AList.update (route_worker_id route) worker1 workers))))"

definition run_sharded ::
    "unicode_db \<Rightarrow> (pystr \<Rightarrow> nat \<Rightarrow> rat) \<Rightarrow> (nat \<Rightarrow> rat) \<Rightarrow> int \<Rightarrow> int \<Rightarrow> py_exn + ComparisonResult" where
  "run_sharded U clocks clock key_count worker_count =
     (let worker_ids = pool_worker_ids worker_count in
      case DeterministicHashRouter_init worker_ids of
        Inl e \<Rightarrow> Inl e
      | Inr router \<Rightarrow>
          run_workload (execute_sharded U router)
            (build_result (lit ''sharded-'' @ py_str_int worker_count @ lit ''-workers'')) clock (build_compare_workload key_count)
            (map (\<lambda>(index, wid). (wid, worker_start (StoreWorker_init wid index (MemoryStore_init (clocks wid) None))))
              (zip (map int [0..<length worker_ids]) worker_ids)))"

section \<open>The percentile lies among the values\<close>

lemma percentile_rank:
  assumes "0 \<le> p" "p \<le> 100" "0 < n"
  defines "rank \<equiv> of_int (int n - 1) * (of_int p / 100) :: rat"
  shows "0 \<le> py_trunc rank" "py_trunc rank \<le> int n - 1" "0 \<le> rank - of_int (py_trunc rank)"
    "rank - of_int (py_trunc rank) \<le> 1"
proof -
  have p: "0 \<le> (of_int p :: rat) / 100" "(of_int p :: rat) / 100 \<le> 1" using assms(1,2) by simp_all
  have n: "0 \<le> (of_int (int n - 1) :: rat)" using assms(3) by simp
  have r: "0 \<le> rank" "rank \<le> of_int (int n - 1)"
    unfolding rank_def by (rule mult_nonneg_nonneg [OF n p(1)], rule mult_left_le [OF p(2) n])
  then have t: "py_trunc rank = \<lfloor>rank\<rfloor>" by (simp add: py_trunc_nonneg)
  show "0 \<le> py_trunc rank" using r by (simp add: t)
  show "py_trunc rank \<le> int n - 1" using floor_mono [OF r(2)] unfolding t floor_of_int .
  show "0 \<le> rank - of_int (py_trunc rank)" by (simp add: t)
  show "rank - of_int (py_trunc rank) \<le> 1" unfolding t by linarith
qed

lemma convex_between:
  fixes a b w :: rat
  assumes "0 \<le> w" "w \<le> 1" "m \<le> a" "a \<le> M" "m \<le> b" "b \<le> M"
  shows "m \<le> a * (1 - w) + b * w" "a * (1 - w) + b * w \<le> M"
proof -
  have "m * (1 - w) + m * w \<le> a * (1 - w) + b * w"
    using assms by (intro add_mono mult_right_mono) simp_all
  then show "m \<le> a * (1 - w) + b * w" by (simp add: algebra_simps)
  have "a * (1 - w) + b * w \<le> M * (1 - w) + M * w"
    using assms by (intro add_mono mult_right_mono) simp_all
  then show "a * (1 - w) + b * w \<le> M" by (simp add: algebra_simps)
qed

text \<open>A percentile is a number between the least and the greatest value.\<close>

lemma percentile_bounds:
  assumes "values \<noteq> []" "0 \<le> p" "p \<le> 100"
  shows "\<exists>x. percentile values p = Inr x \<and> Min (set values) \<le> x \<and> x \<le> Max (set values)"
proof -
  let ?o = "sort values" and ?n = "length values"
  define rank where "rank = of_int (int ?n - 1) * (of_int p / 100 :: rat)"
  define lower where "lower = py_trunc rank"
  define upper where "upper = min (lower + 1) (int ?n - 1)"
  have n: "0 < ?n" using assms(1) by simp
  note R = percentile_rank [OF assms(2,3) n, folded rank_def, folded lower_def]
  have idx: "0 \<le> lower" "lower < int ?n" "0 \<le> upper" "upper < int ?n"
    using R(1,2) n by (simp_all add: upper_def)
  define a where "a = ?o ! nat lower"
  define b where "b = ?o ! nat upper"
  have ab: "a \<in> set values" "b \<in> set values"
    using idx nth_mem [of "nat lower" ?o] nth_mem [of "nat upper" ?o] by (simp_all add: a_def b_def)
  have ne: "sort values \<noteq> []" using assms(1) by (metis length_0_conv length_sort)
  have "percentile values p = Inr (a * (1 - (rank - of_int lower)) + b * (rank - of_int lower))"
    unfolding percentile_def Let_def length_sort rank_def [symmetric] lower_def [symmetric] upper_def [symmetric]
    using idx ne by (simp add: py_nth_def a_def b_def)
  moreover note convex_between [OF R(3,4), of "Min (set values)" a "Max (set values)" b]
  ultimately show ?thesis using ab by auto
qed

section \<open>What the workload does\<close>

lemma run_timed_data:
  "holds s m \<Longrightarrow> \<forall>q \<in> set qs. data_command q \<Longrightarrow>
     \<exists>ls s'. run_timed (execute_command U memory_store_ops) clock qs n s = (Inr ls, s') \<and>
       length ls = length qs \<and> holds s' (fold data_effect qs m)"
proof (induction qs arbitrary: s m n)
  case (Cons q qs)
  obtain res s1 where x: "execute_command U memory_store_ops q s = (res, s1)" by fastforce
  then obtain resp where res: "res = Inr resp" "holds s1 (data_effect q m)"
    using execute_data [OF Cons.prems(1) _ x] Cons.prems(2) by auto
  obtain ls s' where "run_timed (execute_command U memory_store_ops) clock qs (n + 2) s1 = (Inr ls, s')"
    "length ls = length qs" "holds s' (fold data_effect qs (data_effect q m))"
    using Cons.IH [OF res(2)] Cons.prems(2) by fastforce
  with x res show ?case by simp
qed simp

text \<open>A run over at least one key succeeds, measures every request and leaves the store empty.\<close>

lemma workload_leaves_nothing:
  "m (bench_key i) = None \<Longrightarrow>
     fold data_effect [mk_request SET [bench_key i, bench_value i], mk_request GET [bench_key i],
       mk_request DEL [bench_key i]] m = m"
  by (auto simp: data_effect_def fun_eq_iff)

lemma build_workload_effect: "fold data_effect (build_workload n) Map.empty = Map.empty"
proof -
  have "fold data_effect (concat (map (\<lambda>i. [mk_request SET [bench_key i, bench_value i],
      mk_request GET [bench_key i], mk_request DEL [bench_key i]]) is)) Map.empty = Map.empty" for "is"
  proof (induction "is")
    case (Cons i "is")
    then show ?case
      using workload_leaves_nothing [of Map.empty i] by (simp only: list.map concat.simps fold_append comp_apply)
  qed simp
  then show ?thesis by (simp add: build_workload_def)
qed

lemma length_build_workload: "length (build_workload n) = 3 * nat n"
proof -
  have "length (concat (map (\<lambda>i. [mk_request SET [bench_key i, bench_value i],
      mk_request GET [bench_key i], mk_request DEL [bench_key i]]) is)) = 3 * length is" for "is"
    by (induction "is") simp_all
  from this [of "[0..<nat n]"] show ?thesis by (simp add: build_workload_def)
qed

lemma run_benchmark_succeeds:
  assumes "0 < key_count"
  shows "\<exists>r. run_benchmark U time_clock clock key_count = Inr r \<and> bench_operations r = 3 * nat key_count"
proof -
  let ?qs = "build_workload key_count"
  have "\<forall>q \<in> set ?qs. data_command q" by (auto simp: build_workload_def data_command_def)
  from run_timed_data [OF holds_init this, of U clock 1 time_clock]
  obtain ls s' where run: "run_timed (execute_command U memory_store_ops) clock ?qs 1
      (MemoryStore_init time_clock None) = (Inr ls, s')" and "length ls = length ?qs" by blast
  then have "ls \<noteq> []" using assms length_build_workload [of key_count] by auto
  moreover from this obtain a b where "percentile ls 50 = Inr a" "percentile ls 95 = Inr b"
    using percentile_bounds [of ls 50] percentile_bounds [of ls 95] by auto
  ultimately show ?thesis
    using run by (simp add: run_benchmark_def run_workload_def benchmark_result_def
      latency_statistics_def fmean_def length_build_workload)
qed

end
