(* ===== verification/Benchmark_Pool.thy ===== *)
theory Benchmark_Pool
  imports Benchmark Server_Pool Argparse
begin

text \<open>
  The multiprocessing run of src/scripts/benchmark_compare.py: a coroutine for each request of the
  workload, a semaphore that lets a number of them run at once, and the worker pool below them; and the
  command lines of both scripts.
\<close>

declare map_of_eq_Some_iff [simp del] Some_eq_map_of_iff [simp del] map_of_is_SomeI [simp del]

section \<open>The run\<close>

text \<open>
  The requests whose coroutine waits for the semaphore, in order; the calls that hold it, each with the
  clock reading of its start; and the latencies measured so far. \<open>asyncio.Semaphore\<close> serves its waiters
  in the order in which they came.
\<close>

record BenchRun =
  bench_router :: DeterministicHashRouter
  bench_pool :: WorkerPool
  bench_waiting :: "CommandRequest list"
  bench_permits :: int
  bench_running :: "(nat \<times> rat) list"
  bench_latencies :: "rat list"

definition bench_setup ::
    "unicode_db \<Rightarrow> (pystr \<Rightarrow> nat \<Rightarrow> rat) \<Rightarrow> (pystr \<Rightarrow> pystr \<times> (nat \<Rightarrow> (nat \<times> pystr) option)) \<Rightarrow> rat \<Rightarrow> pystr \<Rightarrow>
     int \<Rightarrow> int \<Rightarrow> int \<Rightarrow> py_exn + BenchRun" where
  "bench_setup U clocks files now tmp_dir key_count worker_count concurrency =
     (case DeterministicHashRouter_init (pool_worker_ids worker_count) of
        Inl e \<Rightarrow> Inl e
      | Inr router \<Rightarrow>
          if concurrency < 0 then Inl ValueError
          else Inr \<lparr>bench_router = router,
             bench_pool = start_all U clocks files now
               (WorkerPool_init worker_count (path_join (py_path tmp_dir) (lit ''bench.aof'')) EVERY_N 100),
             bench_waiting = build_compare_workload key_count, bench_permits = concurrency,
             bench_running = [], bench_latencies = []\<rparr>)"

text \<open>A coroutine gets the semaphore and sends its request; a call that was answered gives it back.\<close>

definition bench_begin :: "pystr \<Rightarrow> nat \<Rightarrow> rat \<Rightarrow> BenchRun \<Rightarrow> py_exn + BenchRun" where
  "bench_begin fresh_id call started_at b =
     (case route_request (bench_router b) (hd (bench_waiting b)) of
        Inl e \<Rightarrow> Inl e
      | Inr route \<Rightarrow>
          (case pool_call fresh_id (route_worker_id route) call (hd (bench_waiting b)) (bench_pool b) of
             Inl e \<Rightarrow> Inl e
           | Inr p \<Rightarrow> Inr (b\<lparr>bench_pool := p, bench_waiting := tl (bench_waiting b),
               bench_permits := bench_permits b - 1, bench_running := bench_running b @ [(call, started_at)]\<rparr>)))"

definition bench_end :: "nat \<times> rat \<Rightarrow> rat \<Rightarrow> BenchRun \<Rightarrow> BenchRun" where
  "bench_end c now b = b\<lparr>bench_permits := bench_permits b + 1, bench_running := remove1 c (bench_running b),
     bench_latencies := bench_latencies b @ [(now - snd c) * 1000]\<rparr>"

inductive bench_progress ::
    "unicode_db \<Rightarrow> ((pystr \<times> pystr) list \<Rightarrow> pystr) \<Rightarrow> nat \<Rightarrow> BenchRun \<Rightarrow> BenchRun \<Rightarrow> bool"
  for U show_dict threads where
  begins: "bench_waiting b \<noteq> [] \<Longrightarrow> 0 < bench_permits b \<Longrightarrow> call \<notin> pool_calls (bench_pool b) \<Longrightarrow>
    bench_begin fresh_id call started_at b = Inr b' \<Longrightarrow> bench_progress U show_dict threads b b'"
| ends: "c \<in> set (bench_running b) \<Longrightarrow> map_of (pool_handles (bench_pool b)) wid = Some h \<Longrightarrow>
    (fst c, rid, response) \<in> set (handle_done h) \<Longrightarrow> bench_progress U show_dict threads b (bench_end c now b)"
| pool: "pool_progress U show_dict threads (bench_pool b) p \<Longrightarrow>
    bench_progress U show_dict threads b (b\<lparr>bench_pool := p\<rparr>)"

inductive bench_reachable ::
    "unicode_db \<Rightarrow> ((pystr \<times> pystr) list \<Rightarrow> pystr) \<Rightarrow> nat \<Rightarrow> BenchRun \<Rightarrow> BenchRun \<Rightarrow> bool"
  for U show_dict threads b0 where
  start: "bench_reachable U show_dict threads b0 b0"
| progress: "bench_reachable U show_dict threads b0 b \<Longrightarrow> bench_progress U show_dict threads b b' \<Longrightarrow>
    bench_reachable U show_dict threads b0 b'"
| background: "bench_reachable U show_dict threads b0 b \<Longrightarrow> pool_background U show_dict (bench_pool b) p \<Longrightarrow>
    bench_reachable U show_dict threads b0 (b\<lparr>bench_pool := p\<rparr>)"

text \<open>\<open>gather\<close> returns when no coroutine is left.\<close>

definition bench_finished :: "BenchRun \<Rightarrow> bool" where
  "bench_finished b \<longleftrightarrow> bench_waiting b = [] \<and> bench_running b = []"

definition bench_result :: "int \<Rightarrow> int \<Rightarrow> rat \<Rightarrow> BenchRun \<Rightarrow> py_exn + ComparisonResult" where
  "bench_result key_count worker_count elapsed b =
     build_result (lit ''multiprocess-'' @ py_str_int worker_count @ lit ''-workers'')
       (build_compare_workload key_count) (bench_latencies b) elapsed"

section \<open>Its invariant\<close>

definition bench_inv ::
    "unicode_db \<Rightarrow> ((pystr \<times> pystr) list \<Rightarrow> pystr) \<Rightarrow> nat \<Rightarrow> BenchRun \<Rightarrow> BenchRun \<Rightarrow> bool" where
  "bench_inv U show_dict threads b0 b \<longleftrightarrow>
     pool_inv U show_dict threads (bench_pool b) \<and>
     bench_router b = bench_router b0 \<and>
     map fst (pool_handles (bench_pool b)) = map fst (pool_handles (bench_pool b0)) \<and>
     fst ` set (bench_running b) \<subseteq> pool_calls (bench_pool b) \<and>
     0 \<le> bench_permits b \<and> bench_permits b + int (length (bench_running b)) = bench_permits b0 \<and>
     (\<exists>qs. bench_waiting b0 = qs @ bench_waiting b \<and> length qs = length (bench_running b) + length (bench_latencies b))"

lemma pool_call_calls:
  assumes "pool_call fresh_id wid call q p = Inr p'" "dict_ok (pool_handles p)"
  shows "pool_calls p' = insert call (pool_calls p)"
proof -
  obtain h where h: "map_of (pool_handles p) wid = Some h"
    and p': "p' = p\<lparr>pool_handles := AList.update wid (pool_send call (to_worker_request fresh_id q) h) (pool_handles p),
      pool_gets_queued := pool_gets_queued p @ [(wid, call, wreq_request_id (to_worker_request fresh_id q))]\<rparr>"
    using assms(1) by (auto simp: pool_call_def Let_def split: option.splits)
  let ?h = "pool_send call (to_worker_request fresh_id q) h"
  have "handle_calls ?h = insert call (handle_calls h)" by (auto simp: handle_calls_def pool_send_def)
  moreover have "(\<Union>x \<in> set (AList.update wid ?h d). handle_calls (snd x)) =
      insert call (\<Union>x \<in> set d. handle_calls (snd x))"
    if "map_of d wid = Some h" "dict_ok d" "handle_calls ?h = insert call (handle_calls h)" for d
    using that by (induction d) (auto split: if_splits)
  ultimately show ?thesis using h assms(2) by (simp add: pool_calls_def p')
qed

lemma pool_call_work:
  assumes "pool_call fresh_id wid call q p = Inr p'" "dict_ok (pool_handles p)"
  shows "pool_work p' = pool_work p + 4"
proof -
  obtain h where h: "map_of (pool_handles p) wid = Some h"
    and p': "p' = p\<lparr>pool_handles := AList.update wid (pool_send call (to_worker_request fresh_id q) h) (pool_handles p),
      pool_gets_queued := pool_gets_queued p @ [(wid, call, wreq_request_id (to_worker_request fresh_id q))]\<rparr>"
    using assms(1) by (auto simp: pool_call_def Let_def split: option.splits)
  show ?thesis
    using sum_list_update [OF assms(2) h, of handle_work "pool_send call (to_worker_request fresh_id q) h"]
    by (simp add: pool_work_def p' handle_work_def pool_send_def)
qed

lemma pool_background_calls:
  assumes "pool_background U show_dict p p'" and d: "dict_ok (pool_handles p)"
  shows "pool_calls p' = pool_calls p"
  using assms(1) by (cases rule: pool_background.cases) (simp_all add: pool_calls_update [OF d] handle_calls_def)

lemma bench_begin_Inr:
  assumes "bench_begin fresh_id call started_at b = Inr b'"
  shows "\<exists>wid p. pool_call fresh_id wid call (hd (bench_waiting b)) (bench_pool b) = Inr p \<and>
    b' = b\<lparr>bench_pool := p, bench_waiting := tl (bench_waiting b),
      bench_permits := bench_permits b - 1, bench_running := bench_running b @ [(call, started_at)]\<rparr>"
  using assms by (auto simp: bench_begin_def split: sum.splits)

lemma bench_inv_progress:
  assumes "bench_progress U show_dict threads b b'" and I: "bench_inv U show_dict threads b0 b"
  shows "bench_inv U show_dict threads b0 b'"
proof -
  have P: "pool_inv U show_dict threads (bench_pool b)" using I by (simp add: bench_inv_def)
  note d = pool_inv_dict [OF P]
  from assms(1) show ?thesis
  proof (cases rule: bench_progress.cases)
    case (begins call fresh_id started_at)
    obtain wid p where p: "pool_call fresh_id wid call (hd (bench_waiting b)) (bench_pool b) = Inr p"
      and b': "b' = b\<lparr>bench_pool := p, bench_waiting := tl (bench_waiting b),
        bench_permits := bench_permits b - 1, bench_running := bench_running b @ [(call, started_at)]\<rparr>"
      using bench_begin_Inr [OF begins(4)] by blast
    have "pool_inv U show_dict threads p" using pool_inv_step [OF pool_step.call [OF p begins(3)] P] .
    moreover obtain qs where qs: "bench_waiting b0 = qs @ bench_waiting b"
      "length qs = length (bench_running b) + length (bench_latencies b)" using I by (auto simp: bench_inv_def)
    then have "bench_waiting b0 = (qs @ [hd (bench_waiting b)]) @ tl (bench_waiting b)" using begins(1) by simp
    then have "\<exists>rs. bench_waiting b0 = rs @ tl (bench_waiting b) \<and> length rs = Suc (length (bench_running b) + length (bench_latencies b))"
      using qs(2) by (intro exI [of _ "qs @ [hd (bench_waiting b)]"]) simp
    ultimately show ?thesis
      using I pool_call_calls [OF p d] pool_keys(3) [OF p] begins(2) by (auto simp: bench_inv_def b')
  next
    case (ends c wid h rid response now)
    have "length (bench_running b) = Suc (length (remove1 c (bench_running b)))"
      using ends(2) length_pos_if_in_set [OF ends(2)] by (simp add: length_remove1)
    then show ?thesis
      using I set_remove1_subset [of c "bench_running b"] unfolding ends(1) by (auto simp: bench_inv_def bench_end_def)
  next
    case (pool p)
    then show ?thesis
      using I pool_inv_progress [OF pool(2) P] pool_progress_calls [OF pool(2) P] pool_keys(1) [OF pool(2)]
      by (simp add: bench_inv_def)
  qed
qed

lemma bench_inv_background:
  assumes "pool_background U show_dict (bench_pool b) p" and "bench_inv U show_dict threads b0 b"
  shows "bench_inv U show_dict threads b0 (b\<lparr>bench_pool := p\<rparr>)"
proof -
  have P: "pool_inv U show_dict threads (bench_pool b)" using assms(2) by (simp add: bench_inv_def)
  have "pool_inv U show_dict threads p" using pool_inv_step [OF pool_step.background [OF assms(1)] P] .
  with assms(2) pool_background_calls [OF assms(1) pool_inv_dict [OF P]] pool_keys(2) [OF assms(1)]
  show ?thesis by (simp add: bench_inv_def)
qed

lemma bench_setup_inv:
  assumes "bench_setup U clocks files now tmp_dir key_count worker_count concurrency = Inr b0"
  shows "bench_inv U show_dict threads b0 b0 \<and> router_inv (bench_router b0) \<and>
    router_worker_ids (bench_router b0) = map fst (pool_handles (bench_pool b0)) \<and>
    bench_waiting b0 = build_compare_workload key_count \<and> bench_permits b0 = concurrency \<and> bench_running b0 = [] \<and>
    bench_latencies b0 = []"
proof -
  let ?p = "WorkerPool_init worker_count (path_join (py_path tmp_dir) (lit ''bench.aof'')) EVERY_N 100"
  obtain router where r: "DeterministicHashRouter_init (pool_worker_ids worker_count) = Inr router" "0 \<le> concurrency"
    and b0: "b0 = \<lparr>bench_router = router, bench_pool = start_all U clocks files now ?p,
       bench_waiting = build_compare_workload key_count, bench_permits = concurrency,
       bench_running = [], bench_latencies = []\<rparr>"
    using assms by (auto simp: bench_setup_def split: sum.splits if_splits)
  have "pool_inv U show_dict threads (start_all U clocks files now ?p)"
    using pool_inv_fresh start_all_fresh pool_init_fresh by blast
  moreover have "map fst (pool_handles (start_all U clocks files now ?p)) = pool_worker_ids worker_count"
    by (simp add: start_all_def WorkerPool_init_def pool_worker_ids_def case_prod_beta comp_def)
  ultimately show ?thesis
    using r router_init_inv [OF r(1)] by (simp add: bench_inv_def b0)
qed

lemma bench_reachable_inv:
  assumes "bench_setup U clocks files now tmp_dir key_count worker_count concurrency = Inr b0"
    and "bench_reachable U show_dict threads b0 b"
  shows "bench_inv U show_dict threads b0 b"
  using assms(2) bench_setup_inv [OF assms(1)] bench_inv_progress bench_inv_background
  by (induction rule: bench_reachable.induct) blast+

section \<open>The run ends\<close>

text \<open>A bound on the steps that are left: a request that waits will make a call, which is worth four.\<close>

definition bench_work :: "BenchRun \<Rightarrow> nat" where
  "bench_work b = pool_work (bench_pool b) + 6 * length (bench_waiting b) + length (bench_running b)"

lemma bench_progress_work:
  assumes "bench_progress U show_dict threads b b'" and "bench_inv U show_dict threads b0 b"
  shows "bench_work b' < bench_work b"
proof -
  have d: "dict_ok (pool_handles (bench_pool b))"
    using assms(2) pool_inv_dict unfolding bench_inv_def by blast
  from assms(1) show ?thesis
  proof (cases rule: bench_progress.cases)
    case (begins call fresh_id begun)
    obtain wid p where "pool_call fresh_id wid call (hd (bench_waiting b)) (bench_pool b) = Inr p"
      and "b' = b\<lparr>bench_pool := p, bench_waiting := tl (bench_waiting b),
        bench_permits := bench_permits b - 1, bench_running := bench_running b @ [(call, begun)]\<rparr>"
      using bench_begin_Inr [OF begins(4)] by blast
    moreover have "length (bench_waiting b) = Suc (length (tl (bench_waiting b)))" using begins(1) by simp
    ultimately show ?thesis using pool_call_work [OF _ d] by (simp add: bench_work_def)
  next
    case (ends c wid h rid response now)
    have "length (remove1 c (bench_running b)) < length (bench_running b)"
      using ends(2) length_pos_if_in_set [OF ends(2)] by (simp add: length_remove1)
    then show ?thesis by (simp add: ends(1) bench_work_def bench_end_def)
  next
    case (pool p)
    then show ?thesis using pool_progress_work [OF pool(2) d] by (simp add: bench_work_def)
  qed
qed

lemma no_surrogate_lit: "\<forall>c \<in> set s. c < 128 \<Longrightarrow> \<not> has_surrogate s"
  by (auto simp: has_surrogate_def)

lemma bench_key_encodable: "\<not> has_surrogate (bench_key i)"
  using nat_digits_range [of i] by (intro no_surrogate_lit) (fastforce simp: bench_key_def py_str_int_def)

lemma workload_key:
  "q \<in> set (build_compare_workload n) \<Longrightarrow> extract_key_from_request q = Some k \<Longrightarrow> \<not> has_surrogate k"
  using bench_key_encodable
  by (auto simp: build_compare_workload_def Let_def extract_key_from_request_def mk_request_def split: if_splits)

text \<open>A request of the workload can be sent whenever the semaphore lets it.\<close>

lemma bench_can_begin:
  assumes init: "bench_setup U clocks files now tmp_dir key_count worker_count concurrency = Inr b0"
    and I: "bench_inv U show_dict threads b0 b" and "bench_waiting b \<noteq> []" "0 < bench_permits b"
  shows "\<exists>b'. bench_progress U show_dict threads b b'"
proof -
  note S = bench_setup_inv [OF init, of show_dict threads]
  have r: "router_inv (bench_router b)" "router_worker_ids (bench_router b) = map fst (pool_handles (bench_pool b))"
    using I S by (simp_all add: bench_inv_def)
  let ?q = "hd (bench_waiting b)"
  have "set (bench_waiting b) \<subseteq> set (build_compare_workload key_count)" using I S by (auto simp: bench_inv_def)
  then have q: "?q \<in> set (build_compare_workload key_count)" using assms(3) hd_in_set by blast
  have "\<not> (\<exists>e. route_request (bench_router b) ?q = Inl e)"
    using router.route_error [OF r(1)] workload_key [OF q] by blast
  then obtain route where route: "route_request (bench_router b) ?q = Inr route"
    by (cases "route_request (bench_router b) ?q") auto
  then have "route_worker_id route \<in> fst ` set (pool_handles (bench_pool b))"
    using router.route_worker_mem [OF r(1)] r(2) by (simp flip: set_map)
  then obtain h where "map_of (pool_handles (bench_pool b)) (route_worker_id route) = Some h"
    using key_in_dict_iff by metis
  then have "\<exists>b'. bench_begin fresh_id call begun b = Inr b'" for fresh_id call begun
    using route by (simp add: bench_begin_def pool_call_def Let_def)
  moreover obtain call where "call \<notin> pool_calls (bench_pool b)"
    using ex_new_if_finite [OF infinite_UNIV_nat finite_pool_calls] by blast
  ultimately show ?thesis using bench_progress.begins [OF assms(3,4)] by blast
qed

lemma bench_stuck_finished:
  assumes init: "bench_setup U clocks files now tmp_dir key_count worker_count concurrency = Inr b0"
    and I: "bench_inv U show_dict threads b0 b" and "0 < concurrency" "0 < threads"
    and live: "\<forall>x \<in> set (pool_handles (bench_pool b)). \<not> process_ended (snd x)"
    and stuck: "\<nexists>b'. bench_progress U show_dict threads b b'"
  shows "bench_finished b \<and> length (bench_latencies b) = length (build_compare_workload key_count)"
proof -
  note S = bench_setup_inv [OF init, of show_dict threads]
  have P: "pool_inv U show_dict threads (bench_pool b)" using I by (simp add: bench_inv_def)
  have "\<nexists>p. pool_progress U show_dict threads (bench_pool b) p" using stuck bench_progress.pool by blast
  then have waiting: "pool_waiting (bench_pool b) = []" using pool_stuck_done [OF P assms(4) live] by blast
  have running: "bench_running b = []"
  proof (rule ccontr)
    assume "bench_running b \<noteq> []"
    then obtain c where c: "c \<in> set (bench_running b)" by (cases "bench_running b") auto
    then have "fst c \<in> pool_calls (bench_pool b)" using I by (auto simp: bench_inv_def)
    then obtain wid h where h: "(wid, h) \<in> set (pool_handles (bench_pool b))" "fst c \<in> handle_calls h"
      by (auto simp: pool_calls_def)
    moreover have "handle_waiting h = []" using waiting h(1) by (auto simp: pool_waiting_def)
    ultimately obtain rid response where "(fst c, rid, response) \<in> set (handle_done h)"
      by (auto simp: handle_calls_def)
    moreover have "map_of (pool_handles (bench_pool b)) wid = Some h"
      using h(1) mem_dict_iff [OF pool_inv_dict [OF P]] by simp
    ultimately show False using stuck bench_progress.ends [OF c] by blast
  qed
  then have "bench_permits b = concurrency" using I S by (simp add: bench_inv_def)
  then have "bench_waiting b = []" using bench_can_begin [OF init I] stuck assms(3) by auto
  then show ?thesis using running I S by (auto simp: bench_finished_def bench_inv_def)
qed

lemma bench_reachable_run:
  "(bench_progress U show_dict threads)\<^sup>*\<^sup>* b b' \<Longrightarrow> bench_reachable U show_dict threads b0 b \<Longrightarrow>
     bench_reachable U show_dict threads b0 b'"
  by (induction rule: rtranclp_induct) (auto intro: bench_reachable.progress)

text \<open>
  C16: the concurrent benchmark ends. Never more requests are on the way than the given concurrency; from
  any state of the run the coroutines, threads and workers can take only finitely many more steps, in
  whatever order; and when they can take none, every request has been answered and has a measured
  latency, unless a worker process has ended. The concurrency is at least one.
\<close>
theorem bench_run_completes:
  assumes init: "bench_setup U clocks files now tmp_dir key_count worker_count concurrency = Inr b0"
    and b: "bench_reachable U show_dict threads b0 b" and c: "0 < concurrency" and threads: "0 < threads"
  shows "int (length (bench_running b)) \<le> concurrency \<and>
    (\<nexists>f. f 0 = b \<and> (\<forall>i. bench_progress U show_dict threads (f i) (f (Suc i)))) \<and>
    (\<forall>b'. (bench_progress U show_dict threads)\<^sup>*\<^sup>* b b' \<and> (\<nexists>b''. bench_progress U show_dict threads b' b'') \<and>
       (\<forall>x \<in> set (pool_handles (bench_pool b')). \<not> process_ended (snd x)) \<longrightarrow>
       bench_finished b' \<and> length (bench_latencies b') = length (build_compare_workload key_count))"
proof (intro conjI allI impI)
  note I = bench_reachable_inv [OF init]
  show "int (length (bench_running b)) \<le> concurrency"
    using I [OF b] bench_setup_inv [OF init, of show_dict threads] by (simp add: bench_inv_def)
  show "\<nexists>f. f 0 = b \<and> (\<forall>i. bench_progress U show_dict threads (f i) (f (Suc i)))"
    using I [OF b] bench_inv_progress bench_progress_work
    by (intro no_infinite_run [where I = "bench_inv U show_dict threads b0" and m = bench_work]) blast+
next
  fix b'
  assume b': "(bench_progress U show_dict threads)\<^sup>*\<^sup>* b b' \<and> (\<nexists>b''. bench_progress U show_dict threads b' b'') \<and>
    (\<forall>x \<in> set (pool_handles (bench_pool b')). \<not> process_ended (snd x))"
  then have "bench_inv U show_dict threads b0 b'"
    using bench_reachable_inv [OF init] bench_reachable_run b by blast
  with b' show "bench_finished b'" "length (bench_latencies b') = length (build_compare_workload key_count)"
    using bench_stuck_finished [OF init _ c threads] by blast+
qed

lemma demo_bench_setup:
  assumes "0 \<le> concurrency"
  shows "\<exists>b0. bench_setup U (\<lambda>_ n. of_nat n) (\<lambda>_. ([], \<lambda>_. None)) 0 (lit ''/tmp/x'') 1 2 concurrency = Inr b0"
  using assms by (simp add: bench_setup_def DeterministicHashRouter_init_def pool_worker_ids_def)

text \<open>One key, two workers and three requests at a time: from the start on, the run cannot go on for ever.\<close>

theorem bench_run_completes_witness:
  "\<forall>U show_dict. \<exists>b0. bench_setup U (\<lambda>_ n. of_nat n) (\<lambda>_. ([], \<lambda>_. None)) 0 (lit ''/tmp/x'') 1 2 3 = Inr b0 \<and>
     length (bench_waiting b0) = 3 \<and>
     (\<nexists>f. f 0 = b0 \<and> (\<forall>i. bench_progress U show_dict 4 (f i) (f (Suc i))))"
proof (intro allI)
  fix U show_dict
  obtain b0 where b0: "bench_setup U (\<lambda>_ n. of_nat n) (\<lambda>_. ([], \<lambda>_. None)) 0 (lit ''/tmp/x'') 1 2 3 = Inr b0"
    using demo_bench_setup [of 3 U] by auto
  have "bench_waiting b0 = build_compare_workload 1" using bench_setup_inv [OF b0] by blast
  moreover have "length (build_compare_workload 1) = 3" by (simp add: build_compare_workload_def Let_def)
  moreover have "\<nexists>f. f 0 = b0 \<and> (\<forall>i. bench_progress U show_dict 4 (f i) (f (Suc i)))"
    using bench_run_completes [OF b0 bench_reachable.start, where show_dict = show_dict and threads = 4] by simp
  ultimately show "\<exists>b0. bench_setup U (\<lambda>_ n. of_nat n) (\<lambda>_. ([], \<lambda>_. None)) 0 (lit ''/tmp/x'') 1 2 3 = Inr b0 \<and>
      length (bench_waiting b0) = 3 \<and>
      (\<nexists>f. f 0 = b0 \<and> (\<forall>i. bench_progress U show_dict 4 (f i) (f (Suc i))))" using b0 by auto
qed

text \<open>
  Without concurrency the benchmark never ends. A concurrency of zero, which the command line
  accepts, makes a semaphore that lets nobody in: whatever happens, no request is ever sent, and the
  run does not finish if there is a key.
\<close>
theorem bench_without_concurrency:
  assumes init: "bench_setup U clocks files now tmp_dir key_count worker_count 0 = Inr b0"
    and "bench_reachable U show_dict threads b0 b" and "0 < key_count"
  shows "bench_waiting b = build_compare_workload key_count \<and> bench_latencies b = [] \<and> \<not> bench_finished b"
proof -
  note I = bench_reachable_inv [OF init] and S = bench_setup_inv [OF init, of show_dict threads]
  have "bench_waiting b = build_compare_workload key_count \<and> bench_latencies b = [] \<and> bench_running b = []"
    using assms(2)
  proof (induction rule: bench_reachable.induct)
    case (progress b b')
    have "bench_permits b = 0" using I [OF progress(1)] S progress(3) by (simp add: bench_inv_def)
    with progress(2,3) show ?case by (auto elim!: bench_progress.cases)
  qed (use S in simp_all)
  moreover have "build_compare_workload key_count \<noteq> []"
    using assms(3) by (simp add: build_compare_workload_def upt_conv_Cons Let_def)
  ultimately show ?thesis by (simp add: bench_finished_def)
qed

theorem bench_without_concurrency_witness:
  "\<forall>U show_dict. \<exists>b0. bench_setup U (\<lambda>_ n. of_nat n) (\<lambda>_. ([], \<lambda>_. None)) 0 (lit ''/tmp/x'') 1 2 0 = Inr b0 \<and>
     bench_reachable U show_dict 4 b0 b0 \<and> \<not> bench_finished b0"
proof (intro allI)
  fix U show_dict
  obtain b0 where b0: "bench_setup U (\<lambda>_ n. of_nat n) (\<lambda>_. ([], \<lambda>_. None)) 0 (lit ''/tmp/x'') 1 2 0 = Inr b0"
    using demo_bench_setup [of 0 U] by auto
  have r: "bench_reachable U show_dict 4 b0 b0" by (rule bench_reachable.start)
  then have "\<not> bench_finished b0" using bench_without_concurrency [OF b0 r] by simp
  with b0 r show "\<exists>b0. bench_setup U (\<lambda>_ n. of_nat n) (\<lambda>_. ([], \<lambda>_. None)) 0 (lit ''/tmp/x'') 1 2 0 = Inr b0 \<and>
      bench_reachable U show_dict 4 b0 b0 \<and> \<not> bench_finished b0" by blast
qed

section \<open>The scripts\<close>

text \<open>What the run returns; how long it took is the difference of two clock readings.\<close>

inductive run_multiprocessing_sharded ::
    "unicode_db \<Rightarrow> ((pystr \<times> pystr) list \<Rightarrow> pystr) \<Rightarrow> nat \<Rightarrow> (pystr \<Rightarrow> nat \<Rightarrow> rat) \<Rightarrow>
     (pystr \<Rightarrow> pystr \<times> (nat \<Rightarrow> (nat \<times> pystr) option)) \<Rightarrow> rat \<Rightarrow> pystr \<Rightarrow> int \<Rightarrow> int \<Rightarrow> int \<Rightarrow>
     py_exn + ComparisonResult \<Rightarrow> bool"
  for U show_dict threads clocks files now tmp_dir key_count worker_count concurrency where
  raises: "bench_setup U clocks files now tmp_dir key_count worker_count concurrency = Inl e \<Longrightarrow>
    run_multiprocessing_sharded U show_dict threads clocks files now tmp_dir key_count worker_count concurrency (Inl e)"
| returns: "bench_setup U clocks files now tmp_dir key_count worker_count concurrency = Inr b0 \<Longrightarrow>
    bench_reachable U show_dict threads b0 b \<Longrightarrow> bench_finished b \<Longrightarrow>
    run_multiprocessing_sharded U show_dict threads clocks files now tmp_dir key_count worker_count concurrency
      (bench_result key_count worker_count elapsed b)"

text \<open>The command lines; what a script prints is its result, and \<open>None\<close> is \<open>SystemExit\<close>.\<close>

definition benchmark_args :: "unicode_db \<Rightarrow> pystr list \<Rightarrow> namespace option" where
  "benchmark_args U argv =
     consume_args U (help_options @ [(lit ''--keys'', StoreInt)]) argv [(lit ''--keys'', ArgInt 5000)]"

definition benchmark_main ::
    "unicode_db \<Rightarrow> (nat \<Rightarrow> rat) \<Rightarrow> (nat \<Rightarrow> rat) \<Rightarrow> (nat \<Rightarrow> rat \<Rightarrow> pystr) \<Rightarrow> pystr list \<Rightarrow> (py_exn + pystr) option" where
  "benchmark_main U time_clock clock show_fixed argv =
     map_option (\<lambda>args. map_sum id (render_table show_fixed)
       (run_benchmark U time_clock clock (arg_int args (lit ''--keys'')))) (benchmark_args U argv)"

definition compare_args :: "unicode_db \<Rightarrow> pystr list \<Rightarrow> namespace option" where
  "compare_args U argv =
     consume_args U (help_options @ [(lit ''--keys'', StoreInt), (lit ''--workers'', StoreInt), (lit ''--concurrency'', StoreInt)])
       argv [(lit ''--keys'', ArgInt 5000), (lit ''--workers'', ArgInt 4), (lit ''--concurrency'', ArgInt 100)]"

text \<open>The three runs in their order.\<close>

inductive compare_main ::
    "unicode_db \<Rightarrow> (nat \<Rightarrow> rat) \<Rightarrow> (pystr \<Rightarrow> nat \<Rightarrow> rat) \<Rightarrow> (nat \<Rightarrow> nat \<Rightarrow> rat) \<Rightarrow>
     ((pystr \<times> pystr) list \<Rightarrow> pystr) \<Rightarrow> nat \<Rightarrow> (pystr \<Rightarrow> pystr \<times> (nat \<Rightarrow> (nat \<times> pystr) option)) \<Rightarrow> rat \<Rightarrow>
     pystr \<Rightarrow> (nat \<Rightarrow> rat \<Rightarrow> pystr) \<Rightarrow> pystr list \<Rightarrow> (py_exn + pystr) option \<Rightarrow> bool"
  for U time_clock clocks clock show_dict threads files now tmp_dir show_fixed argv where
  refused: "compare_args U argv = None \<Longrightarrow> compare_main U time_clock clocks clock show_dict threads files now tmp_dir show_fixed argv None"
| single_raises: "compare_args U argv = Some args \<Longrightarrow>
    run_single_store U time_clock (clock 0) (arg_int args (lit ''--keys'')) = Inl e \<Longrightarrow>
    compare_main U time_clock clocks clock show_dict threads files now tmp_dir show_fixed argv (Some (Inl e))"
| sharded_raises: "compare_args U argv = Some args \<Longrightarrow>
    run_single_store U time_clock (clock 0) (arg_int args (lit ''--keys'')) = Inr r1 \<Longrightarrow>
    run_sharded U clocks (clock 1) (arg_int args (lit ''--keys'')) (arg_int args (lit ''--workers'')) = Inl e \<Longrightarrow>
    compare_main U time_clock clocks clock show_dict threads files now tmp_dir show_fixed argv (Some (Inl e))"
| ends: "compare_args U argv = Some args \<Longrightarrow>
    run_single_store U time_clock (clock 0) (arg_int args (lit ''--keys'')) = Inr r1 \<Longrightarrow>
    run_sharded U clocks (clock 1) (arg_int args (lit ''--keys'')) (arg_int args (lit ''--workers'')) = Inr r2 \<Longrightarrow>
    run_multiprocessing_sharded U show_dict threads clocks files now tmp_dir (arg_int args (lit ''--keys''))
      (arg_int args (lit ''--workers'')) (arg_int args (lit ''--concurrency'')) r3 \<Longrightarrow>
    compare_main U time_clock clocks clock show_dict threads files now tmp_dir show_fixed argv
      (Some (map_sum id (\<lambda>r. render_comparison show_fixed [r1, r2, r]) r3))"

text \<open>Without keys there is nothing to average.\<close>

lemma run_benchmark_no_keys: "key_count \<le> 0 \<Longrightarrow> run_benchmark U time_clock clock key_count = Inl ValueError"
  by (simp add: run_benchmark_def run_workload_def build_workload_def benchmark_result_def
    latency_statistics_def fmean_def)

text \<open>
  The benchmark script prints a table exactly when there is something to measure. Any command line
  is refused or names a number of keys: with a positive one the script prints its table, otherwise
  \<open>statistics.fmean\<close> raises \<open>StatisticsError\<close>, a \<open>ValueError\<close>.
\<close>
theorem benchmark_main_outcome:
  "case benchmark_args U argv of
     None \<Rightarrow> benchmark_main U time_clock clock show_fixed argv = None
   | Some args \<Rightarrow>
       (if 0 < arg_int args (lit ''--keys'') then
          (\<exists>text. benchmark_main U time_clock clock show_fixed argv = Some (Inr text))
        else benchmark_main U time_clock clock show_fixed argv = Some (Inl ValueError))"
proof (cases "benchmark_args U argv")
  case (Some args)
  show ?thesis
    using Some run_benchmark_succeeds [of "arg_int args (lit ''--keys'')" U time_clock clock]
      run_benchmark_no_keys [of "arg_int args (lit ''--keys'')" U time_clock clock]
    by (auto simp: benchmark_main_def simp del: lit_Cons)
qed (simp add: benchmark_main_def)

end
