(* ===== verification/Sha256_Vectors.thy ===== *)
theory Sha256_Vectors
  imports Sha256
begin

text \<open>
  The one-block test message of FIPS 180-4, evaluated in the kernel as a check of the constants
  and of the rounds: the digest of "abc" begins ba7816bf 8f01cfea.
\<close>

lemma sha256_abc: "take 8 (sha256 [97, 98, 99]) = [0xba, 0x78, 0x16, 0xbf, 0x8f, 0x01, 0xcf, 0xea]"
  by code_simp

end
