(* ===== verification/Spec2Isabelle.thy ===== *)
theory Spec2Isabelle
  imports Entry_Point Benchmark_Pool Sha256_Vectors
begin

text \<open>
  LiteStore, a key-value server in Python (src/src), modelled as HOL functions with the theorems
  that make it correct.

  The program. A client's line is decoded and parsed (protocol.py), routed by the hash of its key to
  one of several workers (router.py) and executed there (commands.py) on an in-memory store
  (store.py) whose deadlines sit in a hashed timing wheel (timing_wheel.py). Writes are appended to
  a log of JSON lines and replayed at start (persistence.py). Workers are objects in the server's
  process (worker.py, server.py) or processes with a queue in each direction (process_worker.py,
  worker_pool.py). Metrics are collected on the way, among them the hot keys, which a Count-Min
  sketch and a bounded tracker estimate (metrics.py, countmin.py).

  The theories, each with the source it models:

  \<^item> Prelude, Pystr: Python's text, dictionaries, sets, exceptions and the string methods the
    program uses (strip, split, upper, int, str of an int); Fnmatch: fnmatch.fnmatch of KEYS.
  \<^item> Types: types.py, errors.py, config.py. Interfaces: the protocols of interfaces.py as records of
    operations. The contract of each is a locale that is interpreted on the program's class:
    \<open>store_contract\<close> (here, interpreted in Store), \<open>key_router\<close> (Router), \<open>persistence_contract\<close>
    (Persistence), \<open>worker_contract\<close> (Worker).
  \<^item> Timing_Wheel: timing_wheel.py, with the locale \<open>expiry_scheduler\<close>. Store, Store_Expiry: store.py on
    that wheel; the second theory says when deadlines take effect.
  \<^item> Commands: commands.py over any store with the contract. Protocol: protocol.py.
  \<^item> Sha256, Sha256_Vectors: str.encode and hashlib.sha256, checked on a published test vector;
    Utf8: bytes.decode with errors="replace".
  \<^item> Router: router.py. Countmin, Topk: countmin.py. Metrics: metrics.py.
  \<^item> Json: json.dumps of a record and the whole of json.loads. Persistence: persistence.py.
  \<^item> Worker: worker.py. Process_Worker: process_worker.py. Worker_Pool: worker_pool.py, one worker's
    handle with its two queues. Pool: the whole of worker_pool.py, with the log file of each worker, the
    start of the processes and the event loop's thread pool.
  \<^item> Server: server.py in the single-process mode. Server_Pool: server.py with worker processes and
    its connections. Lifecycle: construction, start, periodic refresh and close in either mode, and
    \<open>run_runtime\<close> of main.py. Argparse, Entry_Point: the command line and \<open>main\<close>.
  \<^item> Benchmark, Benchmark_Pool: scripts/benchmark.py and scripts/benchmark_compare.py.

  What the theorems show. A store keeps its invariant (the wheel holds the keys with a deadline, each
  in its bucket, but for a deadline that an EXPIRE has failed to schedule) under every operation, never drops a key before its deadline and, if
  commands keep arriving, drops it within a turn of the wheel after it; the commands on a store
  without deadlines refine a dictionary, and so does the whole server, whatever its number of
  workers. Parsing and serializing are inverse where they can be, the byte layer is, and so are the
  log's writing and replay: a server, or a worker process, started again on its log holds the data it
  held. The server with worker processes refines a dictionary too, for one client at a time, and holds
  the same data when it is started again. Every line of bytes is answered, with one exception. Responses
  of a worker process come in the order of the requests; every call of a pool ends, and so does the
  concurrent benchmark, as long as the processes live. What a runtime has started it releases when it is
  closed. Every configuration has a command line that gives it back. The sketch never underestimates, and the tracker holds the keys its estimates
  rank highest; the histogram counts are exact.

  The theorems also state where the code does not do this: deadlines that are missed for a turn of
  the wheel, expired values that are read, FLUSHALL that a restart undoes, commands that answer for
  one partition only, arrays that worker processes lose, answers that concurrent calls swap, an EXPIRE
  that ends its worker, one that fails and takes effect, a dead worker whose waiting calls take every thread from the others, a failed
  start that leaves its listener open, log records lost or run together after a torn line or a failed
  write, or written after their failure was reported, writes kept although the log refused them, and a value that reads as the missing one.

  How Python is modelled.

  \<^item> A text is the list of its code points, so lone surrogates exist and encoding may raise. Facts of
    the Unicode tables (upper case and decimal digits beyond ASCII) are the parameter \<open>unicode_db\<close>.
  \<^item> A dictionary is an association list in insertion order, a set of texts a list without
    duplicates, a heap its sorted list (only what heapq promises is used).
  \<^item> Times, deadlines and durations are exact rationals, integers unbounded; the places where Python
    converts an integer to a float and raises OverflowError, or prints or reads an integer of more
    than 4300 digits and raises ValueError, are written out. Bytes and SHA-256 are on words.
  \<^item> The floor of an infinite quotient raises OverflowError in \<open>schedule\<close>, when a deadline is too far
    ahead (\<open>too_far\<close>); the bound is that of exact arithmetic, which rounding moves by one part in 2^50
    at most. \<open>pop_due\<close> and the change of origin are described for readings of the clock that have a
    tick. Lemma \<open>tick_in_range\<close> shows that all within 2^1000 seconds of the epoch do, on a wheel with
    such an origin, and \<open>origin_in_range\<close> that no operation of the wheel takes the origin out of that
    range.
  \<^item> A clock is a function of the number of its readings and need not be monotone, unless a theorem
    says so; two readings of one operation may differ.
  \<^item> An exception is a value on the left of a sum, beside the state it leaves behind.
  \<^item> The log file is a text with a part the last fsync covered, behind a write buffer of a given size
    that treats short and long lines as Python's file objects do; a function says which write or fsync
    the operating system fails, and after how many characters.
  \<^item> Coroutines that never suspend are functions and queues are lists. What interleaves is a step
    relation: \<open>handle_step\<close> for one worker process, \<open>pool_step\<close> for a pool, \<open>server_step\<close> for its
    server, \<open>ls_step\<close> for the event loop, \<open>bench_progress\<close> for the benchmark. The operating system may
    end a worker process at any time. The number of threads that wait for responses is a parameter.
  \<^item> What the operating system answers when the server asks it to listen is the parameter \<open>listen\<close>;
    a listening server is the list of its addresses. \<open>close\<close> is described once the listeners'
    connections have ended, which Python 3.12 and later wait for.

  Termination. The JSON parser has fuel; \<open>json_loads\<close> gives it twice the length of the text plus two,
  and lemma \<open>json_loads_fuel\<close> of theory Json shows that this never runs out. All other functions are
  structurally recursive or have a termination proof. That the relations cannot run for ever is shown
  by a bound on the steps left: a request on a queue counts two, a response one, a call without a thread
  two and with one one (\<open>pool_work\<close>), a benchmark request that waits for the semaphore six.

  Not modelled: the limit of StreamReader.readline (a line of more than 64 KiB ends the connection),
  backpressure of sockets, the method by which processes are created and pickling (taken to be the
  identity), creating the log's directory, nested JSON beyond Python's recursion limit, locks (every
  method of the metrics is one step), and printing.
\<close>

end
